(* ===== verification/Prelude.thy ===== *)
theory Prelude
  imports Main "HOL-Library.Word"
begin

text \<open>
  Shared vocabulary of the development: machine integers, the ways a kernel function can fail to
  return, the state-and-fault monad in which every stateful function is written, its weakest
  precondition calculus, bounded loops with early exit, and three frame predicates with their rules:
  a program that never meets its iteration bound, one that keeps a part of the state, and one that
  keeps an invariant.
\<close>

unbundle bit_operations_syntax

section \<open>Machine integers\<close>

type_synonym u8 = "8 word"
type_synonym u16 = "16 word"
type_synonym u32 = "32 word"
type_synonym bytes = "u32 \<Rightarrow> u8"

section \<open>Locks, sleep channels and faults\<close>

text \<open>
  The spin locks of the kernel, by the global (or heap object) that holds them; a pipe and the
  sleep locks inside buffers and inodes are named by the object.
\<close>

datatype lockid =
    LKmem | LPtable | LShm | LTicks | LCons | LFtable | LIcache | LBcache | LLog | LIde
  | LPipe u32 | LBufSleep nat | LInodeSleep nat

text \<open>
  Sleep channels. The C code uses the address of a kernel object; distinct objects have distinct
  addresses, so the channel is the object.
\<close>

datatype chan =
    ChanNull | ChanProc nat | ChanTicks | ChanLog | ChanInput | ChanBuf nat
  | ChanBufLock nat | ChanInodeLock nat | ChanPipeRead u32 | ChanPipeWrite u32

text \<open>
  Ways in which a call does not return to its caller in the sequential model: \<open>panic\<close>, spinning on a
  lock that another CPU holds, switching to another kernel thread (\<open>swtch\<close>), a page fault at a user
  address that the kernel reads or writes, C behaviour that the language leaves undefined (an access
  outside an array, or through a null pointer), and a loop that is still running when the model's
  bound on its iterations is reached.
\<close>

datatype fault =
    Panic string
  | Spins lockid
  | Switched
  | PageFault u32
  | Undefined string
  | Diverges

section \<open>The state-and-fault monad\<close>

text \<open>
  A run ends with a result or with a fault, and in both cases with the state it leaves: for
  \<open>Switched\<close> that is the state in which the next thread takes over the CPU.
\<close>

type_synonym ('s, 'a) kmon = "'s \<Rightarrow> (fault \<times> 's) + ('a \<times> 's)"

definition ret :: "'a \<Rightarrow> ('s, 'a) kmon" where
  "ret x s = Inr (x, s)"

definition fail :: "fault \<Rightarrow> ('s, 'a) kmon" where
  "fail e s = Inl (e, s)"

definition bnd :: "('s, 'a) kmon \<Rightarrow> ('a \<Rightarrow> ('s, 'b) kmon) \<Rightarrow> ('s, 'b) kmon" where
  "bnd m k s = (case m s of Inl e \<Rightarrow> Inl e | Inr (x, s') \<Rightarrow> k x s')"

definition sq :: "('s, 'a) kmon \<Rightarrow> ('s, 'b) kmon \<Rightarrow> ('s, 'b) kmon" where
  "sq m k = bnd m (\<lambda>_. k)"

definition gets :: "('s \<Rightarrow> 'a) \<Rightarrow> ('s, 'a) kmon" where
  "gets f s = Inr (f s, s)"

definition modify :: "('s \<Rightarrow> 's) \<Rightarrow> ('s, unit) kmon" where
  "modify f s = Inr ((), f s)"

definition whenk :: "bool \<Rightarrow> ('s, unit) kmon \<Rightarrow> ('s, unit) kmon" where
  "whenk b m = (if b then m else ret ())"

text \<open>
  \<open>for_loop i k body\<close> is the C loop \<open>for(j = i; j < i + k; j++) body(j)\<close>: the body returns
  \<open>Some r\<close> to leave the loop early (a \<open>return\<close> or a \<open>break\<close> carrying \<open>r\<close>) and \<open>None\<close> to go on.
\<close>

primrec for_loop :: "nat \<Rightarrow> nat \<Rightarrow> (nat \<Rightarrow> ('s, 'r option) kmon) \<Rightarrow> ('s, 'r option) kmon" where
  "for_loop i 0 body = ret None"
| "for_loop i (Suc k) body =
     bnd (body i) (\<lambda>r. case r of Some v \<Rightarrow> ret (Some v) | None \<Rightarrow> for_loop (Suc i) k body)"

text \<open>\<open>each i k body\<close>: the same loop with a body that always runs to its end.\<close>

primrec each :: "nat \<Rightarrow> nat \<Rightarrow> (nat \<Rightarrow> ('s, unit) kmon) \<Rightarrow> ('s, unit) kmon" where
  "each i 0 body = ret ()"
| "each i (Suc k) body = sq (body i) (each (Suc i) k body)"

text \<open>\<open>repeatk n m\<close> runs \<open>m\<close> \<open>n\<close> times and collects the results.\<close>

primrec repeatk :: "nat \<Rightarrow> ('s, 'a) kmon \<Rightarrow> ('s, 'a list) kmon" where
  "repeatk 0 m = ret []"
| "repeatk (Suc n) m = bnd m (\<lambda>x. bnd (repeatk n m) (\<lambda>xs. ret (x # xs)))"

text \<open>The index the loop \<open>for(i = 0; i < n; i++) if(P(i)) break;\<close> stops at, if it does.\<close>

definition first_index :: "(nat \<Rightarrow> bool) \<Rightarrow> nat \<Rightarrow> nat option" where
  "first_index P n = find P [0..<n]"

text \<open>Equations that run a program from a given state, one step at a time.\<close>

named_theorems run \<open>equations that execute one step of a program\<close>

lemma run_basic [run]:
  "bnd (ret x) k s = k x s" "bnd (gets f) k s = k (f s) s" "bnd (fail e) k s = Inl (e, s)"
  "sq (ret x) n s = n s" "sq (modify g) n s = n (g s)" "sq (fail e) n s = Inl (e, s)"
  "sq (whenk False m) n s = n s" "sq (whenk True m) n s = sq m n s"
  by (simp_all add: bnd_def sq_def ret_def gets_def fail_def modify_def whenk_def)

lemma run_step:
  "m s = Inr (x, s') \<Longrightarrow> bnd m k s = k x s'" "m s = Inr (x, s') \<Longrightarrow> sq m n s = n s'"
  "m s = Inl e \<Longrightarrow> bnd m k s = Inl e" "m s = Inl e \<Longrightarrow> sq m n s = Inl e"
  by (simp_all add: bnd_def sq_def)

section \<open>Weakest preconditions\<close>

text \<open>
  \<open>wpe m E Q s\<close>: run from \<open>s\<close>, \<open>m\<close> either faults with a fault that \<open>E\<close> allows or returns a value and a
  state that satisfy \<open>Q\<close>. With \<open>E = (\<lambda>_ _. False)\<close> it says that \<open>m\<close> returns.
\<close>

definition wpe :: "('s, 'a) kmon \<Rightarrow> (fault \<Rightarrow> 's \<Rightarrow> bool) \<Rightarrow> ('a \<Rightarrow> 's \<Rightarrow> bool) \<Rightarrow> 's \<Rightarrow> bool" where
  "wpe m E Q s \<longleftrightarrow> (case m s of Inl (e, s') \<Rightarrow> E e s' | Inr (x, s') \<Rightarrow> Q x s')"

abbreviation nofault :: "fault \<Rightarrow> 's \<Rightarrow> bool" where
  "nofault \<equiv> \<lambda>_ _. False"

abbreviation anyfault :: "fault \<Rightarrow> 's \<Rightarrow> bool" where
  "anyfault \<equiv> \<lambda>_ _. True"

named_theorems wp \<open>equations that push wpe through the program text\<close>
named_theorems cv \<open>rules that a program never runs into its iteration bound\<close>
named_theorems opdefs \<open>definitions of the modelled operations\<close>

lemma wpe_ret [wp]: "wpe (ret x) E Q = Q x"
  by (simp add: wpe_def ret_def fun_eq_iff)

lemma wpe_fail [wp]: "wpe (fail e) E Q s \<longleftrightarrow> E e s"
  by (simp add: wpe_def fail_def)

lemma wpe_bnd [wp]: "wpe (bnd m k) E Q = wpe m E (\<lambda>x. wpe (k x) E Q)"
  by (simp add: wpe_def bnd_def fun_eq_iff split: sum.split prod.split)

lemma wpe_sq [wp]: "wpe (sq m k) E Q = wpe m E (\<lambda>_. wpe k E Q)"
  by (simp add: sq_def wpe_bnd)

lemma wpe_gets [wp]: "wpe (gets f) E Q s \<longleftrightarrow> Q (f s) s"
  by (simp add: wpe_def gets_def)

lemma wpe_modify [wp]: "wpe (modify f) E Q s \<longleftrightarrow> Q () (f s)"
  by (simp add: wpe_def modify_def)

lemma wpe_if [wp]: "wpe (if b then m else k) E Q s \<longleftrightarrow> (if b then wpe m E Q s else wpe k E Q s)"
  by simp

lemma wpe_whenk [wp]: "wpe (whenk b m) E Q s \<longleftrightarrow> (if b then wpe m E Q s else Q () s)"
  by (simp add: whenk_def wpe_ret)

lemma wpe_option [wp]:
  "wpe (case x of None \<Rightarrow> m | Some v \<Rightarrow> k v) E Q s \<longleftrightarrow>
     (case x of None \<Rightarrow> wpe m E Q s | Some v \<Rightarrow> wpe (k v) E Q s)"
  by (cases x) simp_all

lemma wpe_prod [wp]:
  "wpe (case x of (a, b) \<Rightarrow> m a b) E Q s \<longleftrightarrow> (case x of (a, b) \<Rightarrow> wpe (m a b) E Q s)"
  by (cases x) simp

lemma wpe_let [wp]: "wpe (let x = e in m x) E Q s \<longleftrightarrow> (let x = e in wpe (m x) E Q s)"
  by simp

lemma wpe_mono:
  assumes "wpe m E Q s" and "\<And>x s'. Q x s' \<Longrightarrow> Q' x s'" and "\<And>e s'. E e s' \<Longrightarrow> E' e s'"
  shows "wpe m E' Q' s"
  using assms by (auto simp: wpe_def split: sum.splits prod.splits)

lemma wpe_conj:
  assumes "wpe m E Q s" and "wpe m E' Q' s"
  shows "wpe m (\<lambda>e s'. E e s' \<and> E' e s') (\<lambda>x s'. Q x s' \<and> Q' x s') s"
  using assms by (auto simp: wpe_def split: sum.splits prod.splits)

lemma wpe_ret_eq: "m s = Inr (x, s') \<Longrightarrow> wpe m E Q s \<longleftrightarrow> Q x s'"
  by (simp add: wpe_def)

lemma wpeD: "wpe m E Q s \<Longrightarrow> m s = Inr (x, s') \<Longrightarrow> Q x s'"
  by (simp add: wpe_def)

lemma wpeI: "(\<And>x s'. m s = Inr (x, s') \<Longrightarrow> Q x s') \<Longrightarrow> wpe m anyfault Q s"
  by (auto simp: wpe_def split: sum.splits)

lemma wpe_returns: "wpe m nofault Q s \<Longrightarrow> \<exists>x s'. m s = Inr (x, s') \<and> Q x s'"
  by (auto simp: wpe_def split: sum.splits)

lemma wpe_faultD: "wpe m E Q s \<Longrightarrow> m s = Inl (e, s') \<Longrightarrow> E e s'"
  by (simp add: wpe_def)

lemma wpe_each:
  assumes "I i s"
    and "\<And>j s. i \<le> j \<Longrightarrow> j < i + k \<Longrightarrow> I j s \<Longrightarrow> wpe (body j) E (\<lambda>_. I (Suc j)) s"
    and "\<And>s. I (i + k) s \<Longrightarrow> Q () s"
  shows "wpe (each i k body) E Q s"
  using assms
proof (induction k arbitrary: i s)
  case 0
  then show ?case by (simp add: wp)
next
  case (Suc k)
  have "wpe (body i) E (\<lambda>_. I (Suc i)) s"
    using Suc.prems by simp
  then show ?case
    unfolding each.simps wpe_sq
    by (rule wpe_mono) (use Suc.prems in \<open>auto intro!: Suc.IH\<close>)
qed

lemma wpe_for_loop:
  assumes "I i s"
    and "\<And>j s. i \<le> j \<Longrightarrow> j < i + k \<Longrightarrow> I j s \<Longrightarrow>
           wpe (body j) E (\<lambda>r. case r of None \<Rightarrow> I (Suc j) | Some v \<Rightarrow> Q (Some v)) s"
    and "\<And>s. I (i + k) s \<Longrightarrow> Q None s"
  shows "wpe (for_loop i k body) E Q s"
  using assms
proof (induction k arbitrary: i s)
  case 0
  then show ?case by (simp add: wp)
next
  case (Suc k)
  have "wpe (body i) E (\<lambda>r. case r of None \<Rightarrow> I (Suc i) | Some v \<Rightarrow> Q (Some v)) s"
    using Suc.prems by simp
  then show ?case
    unfolding for_loop.simps wpe_bnd
    by (rule wpe_mono)
      (use Suc.prems in \<open>auto simp: wp split: option.splits intro!: Suc.IH\<close>)
qed

section \<open>Programs that never run into the iteration bound\<close>

definition converges :: "('s, 'a) kmon \<Rightarrow> bool" where
  "converges m \<longleftrightarrow> (\<forall>s s'. m s \<noteq> Inl (Diverges, s'))"

lemma converges_basic [intro, simp]:
  "converges (ret x)" "converges (gets f)" "converges (modify g)" "converges (fail (Panic msg))"
  "converges (fail (Spins l))" "converges (fail Switched)" "converges (fail (Undefined u))"
  "converges (fail (PageFault a))"
  by (simp_all add: converges_def ret_def gets_def modify_def fail_def)

lemma converges_bnd [intro]:
  "converges m \<Longrightarrow> (\<And>x. converges (k x)) \<Longrightarrow> converges (bnd m k)"
  by (auto simp: converges_def bnd_def split: sum.splits prod.splits)

lemma converges_sq [intro]: "converges m \<Longrightarrow> converges k \<Longrightarrow> converges (sq m k)"
  unfolding sq_def by (rule converges_bnd)

lemma converges_if [intro]:
  "(b \<Longrightarrow> converges m) \<Longrightarrow> (\<not> b \<Longrightarrow> converges k) \<Longrightarrow> converges (if b then m else k)"
  by simp

lemma converges_whenk [intro]: "(b \<Longrightarrow> converges m) \<Longrightarrow> converges (whenk b m)"
  by (simp add: whenk_def)

lemma converges_option [intro]:
  "converges m \<Longrightarrow> (\<And>v. converges (k v)) \<Longrightarrow> converges (case x of None \<Rightarrow> m | Some v \<Rightarrow> k v)"
  by (cases x) simp_all

lemma converges_let [intro]: "converges (f e) \<Longrightarrow> converges (let x = e in f x)"
  by simp

lemma converges_prod [intro]:
  "(\<And>a b. converges (k a b)) \<Longrightarrow> converges (case x of (a, b) \<Rightarrow> k a b)"
  by (cases x) simp

lemma converges_each [intro]: "(\<And>j. converges (body j)) \<Longrightarrow> converges (each i k body)"
  by (induction k arbitrary: i) (auto intro: converges_sq)

lemma converges_for_loop [intro]: "(\<And>j. converges (body j)) \<Longrightarrow> converges (for_loop i k body)"
  by (induction k arbitrary: i) (auto intro!: converges_bnd converges_option)

lemmas [cv] =
  converges_basic converges_bnd converges_sq converges_if converges_whenk converges_option
  converges_let converges_prod converges_each converges_for_loop

section \<open>Programs that keep a part of the state\<close>

definition keeps :: "('s \<Rightarrow> 'b) \<Rightarrow> ('s, 'a) kmon \<Rightarrow> bool" where
  "keeps f m \<longleftrightarrow> (\<forall>s. wpe m (\<lambda>_ s'. f s' = f s) (\<lambda>_ s'. f s' = f s) s)"

named_theorems kp \<open>rules that a program keeps a part of the state\<close>

lemma keeps_basic [kp]:
  "keeps f (ret x)" "keeps f (gets g)" "keeps f (fail e)"
  by (simp_all add: keeps_def wp)

lemma keeps_modify [kp]: "(\<And>s. f (g s) = f s) \<Longrightarrow> keeps f (modify g)"
  by (simp add: keeps_def wp)

lemma keeps_bnd [kp]:
  assumes "keeps f m" and "\<And>x. keeps f (k x)"
  shows "keeps f (bnd m k)"
  unfolding keeps_def wpe_bnd
proof
  fix s
  have "wpe (k x) (\<lambda>_ s''. f s'' = f s) (\<lambda>_ s''. f s'' = f s) s'" if "f s' = f s" for x s'
    using assms(2) [of x, unfolded keeps_def, rule_format, of s'] that by simp
  then show "wpe m (\<lambda>_ s'. f s' = f s)
      (\<lambda>x. wpe (k x) (\<lambda>_ s'. f s' = f s) (\<lambda>_ s'. f s' = f s)) s"
    using assms(1) by (auto simp: keeps_def intro: wpe_mono)
qed

lemma keeps_sq [kp]: "keeps f m \<Longrightarrow> keeps f k \<Longrightarrow> keeps f (sq m k)"
  unfolding sq_def by (rule keeps_bnd)

lemma keeps_if [kp]:
  "(b \<Longrightarrow> keeps f m) \<Longrightarrow> (\<not> b \<Longrightarrow> keeps f k) \<Longrightarrow> keeps f (if b then m else k)"
  by simp

lemma keeps_whenk [kp]: "(b \<Longrightarrow> keeps f m) \<Longrightarrow> keeps f (whenk b m)"
  by (simp add: whenk_def keeps_basic)

lemma keeps_option [kp]:
  "keeps f m \<Longrightarrow> (\<And>v. keeps f (k v)) \<Longrightarrow> keeps f (case x of None \<Rightarrow> m | Some v \<Rightarrow> k v)"
  by (cases x) simp_all

lemma keeps_let [kp]: "keeps f (g e) \<Longrightarrow> keeps f (let x = e in g x)"
  by simp

lemma keeps_prod [kp]: "(\<And>a b. keeps f (k a b)) \<Longrightarrow> keeps f (case x of (a, b) \<Rightarrow> k a b)"
  by (cases x) simp

lemma keeps_each [kp]: "(\<And>j. keeps f (body j)) \<Longrightarrow> keeps f (each i k body)"
  by (induction k arbitrary: i) (auto intro: kp)

lemma keeps_for_loop [kp]: "(\<And>j. keeps f (body j)) \<Longrightarrow> keeps f (for_loop i k body)"
  by (induction k arbitrary: i) (auto intro!: kp)

lemma keeps_repeatk [kp]: "keeps f m \<Longrightarrow> keeps f (repeatk k m)"
  by (induction k) (auto intro!: kp)

lemma keeps_comp: "keeps f m \<Longrightarrow> keeps (\<lambda>s. g (f s)) m"
  unfolding keeps_def by (auto intro: wpe_mono)

lemma keepsD:
  "keeps f m \<Longrightarrow> m s = Inr (x, s') \<Longrightarrow> f s' = f s" "keeps f m \<Longrightarrow> m s = Inl (e, s') \<Longrightarrow> f s' = f s"
  by (auto simp: keeps_def wpe_def dest!: spec [of _ s])

text \<open>A program that keeps \<open>f\<close> adds that fact to whatever else is known of it.\<close>

lemma wpe_keeps:
  assumes "keeps f m" and "wpe m E Q s"
  shows "wpe m E (\<lambda>x s'. Q x s' \<and> f s' = f s) s"
  using assms by (auto simp: keeps_def wpe_def split: sum.splits prod.splits dest!: spec [of _ s])

section \<open>Programs that keep an invariant\<close>

definition stable :: "(fault \<Rightarrow> 's \<Rightarrow> bool) \<Rightarrow> ('s \<Rightarrow> bool) \<Rightarrow> ('s, 'a) kmon \<Rightarrow> bool" where
  "stable E I m \<longleftrightarrow> (\<forall>s. I s \<longrightarrow> wpe m E (\<lambda>_. I) s)"

named_theorems st \<open>rules that a program keeps an invariant\<close>

lemma stable_basic [st]: "stable E I (ret x)" "stable E I (gets g)" "stable anyfault I (fail e)"
  "stable (\<lambda>_. I) I (fail e)"
  by (simp_all add: stable_def wp)

lemma stable_modify [st]: "(\<And>s. I s \<Longrightarrow> I (g s)) \<Longrightarrow> stable E I (modify g)"
  by (simp add: stable_def wp)

lemma stable_bnd [st]: "stable E I m \<Longrightarrow> (\<And>x. stable E I (k x)) \<Longrightarrow> stable E I (bnd m k)"
  unfolding stable_def wpe_bnd by (blast intro: wpe_mono)

lemma stable_sq [st]: "stable E I m \<Longrightarrow> stable E I k \<Longrightarrow> stable E I (sq m k)"
  unfolding sq_def by (rule stable_bnd)

lemma stable_if [st]:
  "(b \<Longrightarrow> stable E I m) \<Longrightarrow> (\<not> b \<Longrightarrow> stable E I k) \<Longrightarrow> stable E I (if b then m else k)"
  by simp

lemma stable_whenk [st]: "(b \<Longrightarrow> stable E I m) \<Longrightarrow> stable E I (whenk b m)"
  by (simp add: whenk_def stable_basic)

lemma stable_option [st]:
  "stable E I m \<Longrightarrow> (\<And>v. stable E I (k v)) \<Longrightarrow> stable E I (case x of None \<Rightarrow> m | Some v \<Rightarrow> k v)"
  by (cases x) simp_all

lemma stable_let [st]: "stable E I (g e) \<Longrightarrow> stable E I (let x = e in g x)"
  by simp

lemma stable_prod [st]: "(\<And>a b. stable E I (k a b)) \<Longrightarrow> stable E I (case x of (a, b) \<Rightarrow> k a b)"
  by (cases x) simp

lemma stable_each [st]: "(\<And>j. stable E I (body j)) \<Longrightarrow> stable E I (each i k body)"
  by (induction k arbitrary: i) (auto intro: st)

lemma stable_for_loop [st]: "(\<And>j. stable E I (body j)) \<Longrightarrow> stable E I (for_loop i k body)"
  by (induction k arbitrary: i) (auto intro!: st)

lemma stableD: "stable E I m \<Longrightarrow> I s \<Longrightarrow> m s = Inr (x, s') \<Longrightarrow> I s'"
  unfolding stable_def by (auto dest: wpeD)

text \<open>An invariant of a part of the state that the program keeps.\<close>

lemma stable_keeps:
  assumes "keeps f m"
  shows "stable anyfault (\<lambda>s. P (f s)) m" and "stable (\<lambda>_ s. P (f s)) (\<lambda>s. P (f s)) m"
  using assms by (auto simp: keeps_def stable_def wpe_def split: sum.splits prod.splits)

section \<open>First index\<close>

lemma first_index_Some:
  "first_index P n = Some j \<longleftrightarrow> j < n \<and> P j \<and> (\<forall>l < j. \<not> P l)"
  by (auto simp: first_index_def find_Some_iff)

lemma first_index_None: "first_index P n = None \<longleftrightarrow> (\<forall>j < n. \<not> P j)"
  by (auto simp: first_index_def find_None_iff)

lemma first_index_cong:
  "(\<And>j. j < n \<Longrightarrow> P j = P' j) \<Longrightarrow> first_index P n = first_index P' n"
  unfolding first_index_def by (rule find_cong) auto

lemma first_indexE:
  assumes "P i" and "i < n"
  obtains j where "first_index P n = Some j" and "j \<le> i" and "P j"
proof -
  from assms obtain j where j: "first_index P n = Some j"
    by (cases "first_index P n") (auto simp: first_index_None)
  moreover from j assms have "j \<le> i" and "P j"
    by (auto simp: first_index_Some not_less [symmetric])
  ultimately show thesis by (rule that)
qed

end
