(* ===== verification/Memory.thy ===== *)
theory Memory
  imports Prelude
begin

text \<open>
  Byte-addressed memory as the kernel sees it through its own (identity-plus-offset) mapping:
  little-endian 32-bit loads and stores, the algebra of loads over stores, and pages of 4096 bytes.
  Everything the page tables, the free list and the copy routines do to memory is phrased with
  these two accesses.
\<close>

section \<open>32-bit accesses\<close>

definition load32 :: "bytes \<Rightarrow> u32 \<Rightarrow> u32" where
  "load32 m a =
     ucast (m a) OR push_bit 8 (ucast (m (a + 1)))
       OR push_bit 16 (ucast (m (a + 2))) OR push_bit 24 (ucast (m (a + 3)))"

definition store32 :: "bytes \<Rightarrow> u32 \<Rightarrow> u32 \<Rightarrow> bytes" where
  "store32 m a v =
     m(a := ucast v, a + 1 := ucast (drop_bit 8 v),
       a + 2 := ucast (drop_bit 16 v), a + 3 := ucast (drop_bit 24 v))"

named_theorems memsimps \<open>loads over stores\<close>

lemma join_bytes:
  "ucast (ucast (v :: u32) :: u8) OR push_bit 8 (ucast (ucast (drop_bit 8 v) :: u8))
     OR push_bit 16 (ucast (ucast (drop_bit 16 v) :: u8))
     OR push_bit 24 (ucast (ucast (drop_bit 24 v) :: u8)) = v" (is "?l = v")
proof (rule bit_word_eqI)
  fix n
  assume n: "n < LENGTH(32)"
  have *: "bit ?l n = (n < 8 \<and> bit v n \<or> 8 \<le> n \<and> n < 16 \<and> bit v n
      \<or> 16 \<le> n \<and> n < 24 \<and> bit v n \<or> 24 \<le> n \<and> n < 32 \<and> bit v n)"
    using n by (auto simp: bit_or_iff bit_push_bit_iff bit_unsigned_iff bit_drop_bit_eq)
  show "bit ?l n = bit v n" unfolding * using n by auto
qed

lemma load32_store32_same [simp, memsimps]: "load32 (store32 m a v) a = v"
  by (simp add: load32_def store32_def join_bytes)

lemma load32_cong:
  assumes "m a = m' a" and "m (a + 1) = m' (a + 1)" and "m (a + 2) = m' (a + 2)"
    and "m (a + 3) = m' (a + 3)"
  shows "load32 m a = load32 m' a"
  using assms by (simp add: load32_def)

lemma store32_other:
  assumes "x \<noteq> a" and "x \<noteq> a + 1" and "x \<noteq> a + 2" and "x \<noteq> a + 3"
  shows "store32 m a v x = m x"
  using assms by (simp add: store32_def)

section \<open>Pages and alignment\<close>

definition pg :: "u32 \<Rightarrow> nat" where
  "pg a = unat a div 4096"

definition pgaligned :: "u32 \<Rightarrow> bool" where
  "pgaligned a \<longleftrightarrow> unat a mod 4096 = 0"

definition waligned :: "u32 \<Rightarrow> bool" where
  "waligned a \<longleftrightarrow> unat a mod 4 = 0"

lemma pgaligned_iff_mod: "pgaligned a \<longleftrightarrow> a mod 4096 = 0"
proof -
  have "a mod 4096 = 0 \<longleftrightarrow> unat (a mod 4096) = 0"
    by (simp add: unat_eq_0)
  then show ?thesis by (simp add: pgaligned_def unat_mod_distrib)
qed

lemma unat_lt_2p32: "unat (a :: u32) < 4294967296"
  using unsigned_less [of a] by simp

lemma pgalignedE:
  assumes "pgaligned a"
  obtains k where "unat a = 4096 * k" and "k < 1048576"
proof -
  from assms obtain k where k: "unat a = 4096 * k"
    by (auto simp: pgaligned_def mod_eq_0_iff_dvd dvd_def)
  moreover from k have "k < 1048576" using unat_lt_2p32 [of a] by simp
  ultimately show thesis by (rule that)
qed

lemma walignedE:
  assumes "waligned a"
  obtains k where "unat a = 4 * k" and "k < 1073741824"
proof -
  from assms obtain k where k: "unat a = 4 * k"
    by (auto simp: waligned_def mod_eq_0_iff_dvd dvd_def)
  moreover from k have "k < 1073741824" using unat_lt_2p32 [of a] by simp
  ultimately show thesis by (rule that)
qed

lemma pgaligned_waligned [simp]: "pgaligned a \<Longrightarrow> waligned a"
  by (erule pgalignedE) (simp add: waligned_def mod_eq_0_iff_dvd dvd_mult2)

lemma pgaligned_eq_pg: "pgaligned a \<Longrightarrow> pgaligned b \<Longrightarrow> a = b \<longleftrightarrow> pg a = pg b"
  by (elim pgalignedE) (auto simp: pg_def word_unat_eq_iff)

lemma unat_plus_off:
  assumes "pgaligned a" and "unat d < 4096"
  shows "unat (a + d) = unat a + unat d"
  using assms by (elim pgalignedE) (simp add: unat_word_ariths)

lemma pg_off:
  assumes "pgaligned a" and "unat d < 4096"
  shows "pg (a + d) = pg a"
proof -
  obtain k where k: "unat a = 4096 * k" using assms(1) by (rule pgalignedE)
  show ?thesis using unat_plus_off [OF assms] k assms(2) by (simp add: pg_def)
qed

lemma unat_waligned_plus:
  assumes "waligned a" and "unat d < 4"
  shows "unat (a + d) = unat a + unat d"
  using assms by (elim walignedE) (simp add: unat_word_ariths)

lemma div_4096: "(4 * k + d) div 4096 = k div 1024" if "d < 4" for k d :: nat
proof -
  have "(4 * k + d) div 4096 = (4 * k + d) div 4 div 1024"
    by (simp flip: div_mult2_eq)
  then show ?thesis using that by simp
qed

lemma pg_waligned_plus:
  assumes "waligned a" and "unat d < 4"
  shows "pg (a + d) = pg a"
proof -
  obtain k where k: "unat a = 4 * k" using assms(1) by (rule walignedE)
  show ?thesis
    using div_4096 [OF assms(2), of k] div_4096 [of 0 k] unat_waligned_plus [OF assms] k
    by (simp add: pg_def)
qed

lemma load32_page_cong:
  assumes "waligned a" and "\<And>x. pg x = pg a \<Longrightarrow> m x = m' x"
  shows "load32 m a = load32 m' a"
  using assms by (intro load32_cong) (auto simp: pg_waligned_plus)

lemma store32_other_page:
  assumes "waligned a" and "pg x \<noteq> pg a"
  shows "store32 m a v x = m x"
  using assms by (intro store32_other) (auto simp: pg_waligned_plus)

lemma waligned_plus_neq:
  assumes "waligned a" and "waligned b" and "a \<noteq> b" and "unat d < 4" and "unat e < 4"
  shows "a + d \<noteq> b + e"
proof
  assume eq: "a + d = b + e"
  obtain k l where k: "unat a = 4 * k" and l: "unat b = 4 * l"
    using assms(1,2) by (elim walignedE)
  have "4 * k + unat d = 4 * l + unat e"
    using unat_waligned_plus [OF assms(1,4)] unat_waligned_plus [OF assms(2,5)] eq k l by simp
  then have "k = l" using assms(4,5) by arith
  then show False using assms(3) k l by (simp add: word_unat_eq_iff)
qed

lemma store32_byte_other:
  assumes "waligned a" and "waligned b" and "a \<noteq> b" and "unat e < 4"
  shows "store32 m b v (a + e) = m (a + e)"
proof -
  have "a + e \<noteq> b" and "a + e \<noteq> b + 1" and "a + e \<noteq> b + 2" and "a + e \<noteq> b + 3"
    using waligned_plus_neq [OF assms(1-3,4), of 0] waligned_plus_neq [OF assms(1-3,4), of 1]
      waligned_plus_neq [OF assms(1-3,4), of 2] waligned_plus_neq [OF assms(1-3,4), of 3]
    by simp_all
  then show ?thesis by (rule store32_other)
qed

lemma load32_store32_other [memsimps]:
  assumes "waligned a" and "waligned b" and "a \<noteq> b"
  shows "load32 (store32 m b v) a = load32 m a"
  by (rule load32_cong)
    (use store32_byte_other [OF assms, of 0] store32_byte_other [OF assms, of 1]
       store32_byte_other [OF assms, of 2] store32_byte_other [OF assms, of 3] in simp_all)

lemma pg_lt: "pg a < 1048576"
  using unat_lt_2p32 [of a] by (simp add: pg_def)

lemma unat_entry: "pgaligned a \<Longrightarrow> unat i < 1024 \<Longrightarrow> unat (a + 4 * i) = unat a + 4 * unat i"
  using unat_plus_off [of a "4 * i"] by (simp add: unat_word_ariths)

lemma waligned_off: "pgaligned a \<Longrightarrow> unat i < 1024 \<Longrightarrow> waligned (a + 4 * i)"
  using unat_entry [of a i] pgaligned_waligned [of a]
  by (simp add: waligned_def mod_eq_0_iff_dvd)

lemma pg_entry: "pgaligned a \<Longrightarrow> unat i < 1024 \<Longrightarrow> pg (a + 4 * i) = pg a"
  using pg_off [of a "4 * i"] by (simp add: unat_word_ariths)

lemma entry_inj:
  assumes "pgaligned a" "unat i < 1024" "pgaligned b" "unat j < 1024"
  shows "a + 4 * i = b + 4 * j \<longleftrightarrow> a = b \<and> i = j"
proof
  assume eq: "a + 4 * i = b + 4 * j"
  obtain k l where k: "unat a = 4096 * k" and l: "unat b = 4096 * l"
    using assms by (elim pgalignedE)
  have sum: "1024 * k + unat i = 1024 * l + unat j"
    using unat_entry [OF assms(1,2)] unat_entry [OF assms(3,4)] eq k l by simp
  then have "(1024 * k + unat i) div 1024 = (1024 * l + unat j) div 1024"
    by simp
  then have kl: "k = l" using assms(2,4) by simp
  then have "unat i = unat j" using sum by simp
  then show "a = b \<and> i = j" using k l kl by (simp add: word_unat_eq_iff)
qed simp

end
