(* ===== verification/Mmu.thy ===== *)
theory Mmu
  imports Memory
begin

text \<open>
  The address-space constants of memlayout.h and the macros of mmu.h: page rounding, the
  three-part structure of a virtual address, page-table entries, segment and gate descriptors.
  The lemmas give the arithmetic meaning of the bit operations.
\<close>

section \<open>Constants of memlayout.h, mmu.h and param.h\<close>

abbreviation (input) EXTMEM :: u32 where "EXTMEM \<equiv> 0x100000"
abbreviation (input) PHYSTOP :: u32 where "PHYSTOP \<equiv> 0xE000000"
abbreviation (input) DEVSPACE :: u32 where "DEVSPACE \<equiv> 0xFE000000"
abbreviation (input) KERNBASE :: u32 where "KERNBASE \<equiv> 0x80000000"
abbreviation (input) KERNLINK :: u32 where "KERNLINK \<equiv> 0x80100000"
abbreviation (input) HEAPLIMIT :: u32 where "HEAPLIMIT \<equiv> 0x7F000000"
abbreviation (input) SHAREDREGIONS :: nat where "SHAREDREGIONS \<equiv> 64"

abbreviation (input) PGSIZE :: u32 where "PGSIZE \<equiv> 4096"
abbreviation (input) KSTACKSIZE :: u32 where "KSTACKSIZE \<equiv> 4096"
abbreviation (input) NPDENTRIES :: nat where "NPDENTRIES \<equiv> 1024"

abbreviation (input) PTE_P :: u32 where "PTE_P \<equiv> 1"
abbreviation (input) PTE_W :: u32 where "PTE_W \<equiv> 2"
abbreviation (input) PTE_U :: u32 where "PTE_U \<equiv> 4"

abbreviation (input) NPROC :: nat where "NPROC \<equiv> 64"
abbreviation (input) NCPU :: nat where "NCPU \<equiv> 8"
abbreviation (input) NOFILE :: nat where "NOFILE \<equiv> 16"

section \<open>Address macros\<close>

definition V2P :: "u32 \<Rightarrow> u32" where
  "V2P a = a - KERNBASE"

definition P2V :: "u32 \<Rightarrow> u32" where
  "P2V a = a + KERNBASE"

definition PDX :: "u32 \<Rightarrow> u32" where
  "PDX va = drop_bit 22 va AND 0x3FF"

definition PTX :: "u32 \<Rightarrow> u32" where
  "PTX va = drop_bit 12 va AND 0x3FF"

definition PGADDR :: "u32 \<Rightarrow> u32 \<Rightarrow> u32 \<Rightarrow> u32" where
  "PGADDR d t off = push_bit 22 d OR push_bit 12 t OR off"

definition PGROUNDUP :: "u32 \<Rightarrow> u32" where
  "PGROUNDUP sz = (sz + PGSIZE - 1) AND NOT (PGSIZE - 1)"

definition PGROUNDDOWN :: "u32 \<Rightarrow> u32" where
  "PGROUNDDOWN a = a AND NOT (PGSIZE - 1)"

definition PTE_ADDR :: "u32 \<Rightarrow> u32" where
  "PTE_ADDR pte = pte AND NOT 0xFFF"

definition PTE_FLAGS :: "u32 \<Rightarrow> u32" where
  "PTE_FLAGS pte = pte AND 0xFFF"

section \<open>Segment and gate descriptors\<close>

record segdesc =
  sd_lim_15_0 :: "16 word"
  sd_base_15_0 :: "16 word"
  sd_base_23_16 :: "8 word"
  sd_type :: "4 word"
  sd_s :: "1 word"
  sd_dpl :: "2 word"
  sd_p :: "1 word"
  sd_lim_19_16 :: "4 word"
  sd_avl :: "1 word"
  sd_rsv1 :: "1 word"
  sd_db :: "1 word"
  sd_g :: "1 word"
  sd_base_31_24 :: "8 word"

definition SEG :: "4 word \<Rightarrow> u32 \<Rightarrow> u32 \<Rightarrow> 2 word \<Rightarrow> segdesc" where
  "SEG type base lim dpl =
     \<lparr>sd_lim_15_0 = ucast (drop_bit 12 lim AND 0xffff), sd_base_15_0 = ucast (base AND 0xffff),
      sd_base_23_16 = ucast (drop_bit 16 base AND 0xff), sd_type = type, sd_s = 1, sd_dpl = dpl,
      sd_p = 1, sd_lim_19_16 = ucast (drop_bit 28 lim), sd_avl = 0, sd_rsv1 = 0, sd_db = 1,
      sd_g = 1, sd_base_31_24 = ucast (drop_bit 24 base)\<rparr>"

definition SEG16 :: "4 word \<Rightarrow> u32 \<Rightarrow> u32 \<Rightarrow> 2 word \<Rightarrow> segdesc" where
  "SEG16 type base lim dpl =
     \<lparr>sd_lim_15_0 = ucast (lim AND 0xffff), sd_base_15_0 = ucast (base AND 0xffff),
      sd_base_23_16 = ucast (drop_bit 16 base AND 0xff), sd_type = type, sd_s = 1, sd_dpl = dpl,
      sd_p = 1, sd_lim_19_16 = ucast (drop_bit 16 lim), sd_avl = 0, sd_rsv1 = 0, sd_db = 1,
      sd_g = 0, sd_base_31_24 = ucast (drop_bit 24 base)\<rparr>"

record gatedesc =
  gd_off_15_0 :: "16 word"
  gd_cs :: "16 word"
  gd_args :: "5 word"
  gd_rsv1 :: "3 word"
  gd_type :: "4 word"
  gd_s :: "1 word"
  gd_dpl :: "2 word"
  gd_p :: "1 word"
  gd_off_31_16 :: "16 word"

definition SETGATE :: "bool \<Rightarrow> 16 word \<Rightarrow> u32 \<Rightarrow> 2 word \<Rightarrow> gatedesc" where
  "SETGATE istrap sel off d =
     \<lparr>gd_off_15_0 = ucast (off AND 0xffff), gd_cs = sel, gd_args = 0, gd_rsv1 = 0,
      gd_type = (if istrap then 0xF else 0xE), gd_s = 0, gd_dpl = d, gd_p = 1,
      gd_off_31_16 = ucast (drop_bit 16 off)\<rparr>"

text \<open>What the processor reads back from a descriptor.\<close>

definition seg_base :: "segdesc \<Rightarrow> u32" where
  "seg_base d = push_bit 24 (ucast (sd_base_31_24 d)) OR push_bit 16 (ucast (sd_base_23_16 d))
     OR ucast (sd_base_15_0 d)"

definition seg_limit :: "segdesc \<Rightarrow> u32" where
  "seg_limit d =
     (let l = push_bit 16 (ucast (sd_lim_19_16 d)) OR ucast (sd_lim_15_0 d)
      in if sd_g d = 1 then push_bit 12 l OR 0xFFF else l)"

definition gate_offset :: "gatedesc \<Rightarrow> u32" where
  "gate_offset g = push_bit 16 (ucast (gd_off_31_16 g)) OR ucast (gd_off_15_0 g)"

section \<open>Arithmetic meaning of the macros\<close>

lemma PTE_ADDR_eq_PGROUNDDOWN: "PTE_ADDR a = PGROUNDDOWN a"
  by (simp add: PTE_ADDR_def PGROUNDDOWN_def)

lemma and_mask_take_bit:
  "(a :: 32 word) AND 0xFF = take_bit 8 a"
  "a AND 0x3FF = take_bit 10 a"
  "a AND 0xFFF = take_bit 12 a"
  "a AND 0xFFFF = take_bit 16 a"
  by (simp_all add: take_bit_eq_mask mask_numeral)

lemma unat_and_mask12: "unat (a AND 0xFFF :: u32) = unat a mod 4096"
  by (simp add: and_mask_take_bit unsigned_take_bit_eq take_bit_nat_def)

lemma plus_split12: "(a :: u32) = (a AND NOT 0xFFF) + (a AND 0xFFF)"
proof -
  have "(a AND NOT 0xFFF) + (a AND 0xFFF) = (a AND NOT 0xFFF) OR (a AND 0xFFF)"
    by (rule disjunctive_add) (auto simp: bit_simps)
  also have "\<dots> = a" by (rule bit_word_eqI) (auto simp: bit_simps)
  finally show ?thesis by simp
qed

lemma unat_PGROUNDDOWN: "unat (PGROUNDDOWN a) = unat a div 4096 * 4096"
proof -
  have e: "a AND NOT 0xFFF = a - (a AND 0xFFF)"
    using plus_split12 [of a] by (metis add_diff_cancel_right')
  have "(a AND 0xFFF) \<le> a" by (rule word_and_le2)
  then have "unat (a AND NOT 0xFFF) = unat a - unat a mod 4096"
    by (subst e) (simp add: unat_sub unat_and_mask12)
  then show ?thesis by (simp add: PGROUNDDOWN_def minus_mod_eq_div_mult)
qed

lemma pgaligned_PGROUNDDOWN [simp]: "pgaligned (PGROUNDDOWN a)"
  by (simp add: pgaligned_def unat_PGROUNDDOWN)

lemma pg_PGROUNDDOWN [simp]: "pg (PGROUNDDOWN a) = pg a"
  by (simp add: pg_def unat_PGROUNDDOWN)

lemma PGROUNDDOWN_aligned [simp]: "pgaligned a \<Longrightarrow> PGROUNDDOWN a = a"
  by (simp add: pgaligned_eq_pg)

lemma pgaligned_and_mask: "pgaligned a \<longleftrightarrow> a AND 0xFFF = 0"
  by (metis pgaligned_def unat_and_mask12 unat_eq_0)

lemma PTE_ADDR_or:
  assumes "pgaligned a" and "f AND NOT 0xFFF = 0"
  shows "PTE_ADDR (a OR f) = a"
proof -
  have "(a OR f) AND NOT 0xFFF = (a AND NOT 0xFFF) OR (f AND NOT 0xFFF)"
    by (rule bit.conj_disj_distrib2)
  also have "\<dots> = PGROUNDDOWN a" using assms(2) by (simp add: PGROUNDDOWN_def)
  finally show ?thesis using assms(1) by (simp add: PTE_ADDR_def)
qed

lemma PTE_FLAGS_or:
  assumes "pgaligned a"
  shows "PTE_FLAGS (a OR f) = f AND 0xFFF"
  using assms by (simp add: PTE_FLAGS_def pgaligned_and_mask bit.conj_disj_distrib2)

lemma unat_PDX: "unat (PDX va) = unat va div 4194304"
proof -
  have "drop_bit 22 va AND 0x3FF = drop_bit 22 va"
    by (rule bit_word_eqI)
      (auto simp: and_mask_take_bit bit_take_bit_iff bit_drop_bit_eq dest: bit_imp_le_length)
  then show ?thesis
    by (simp add: PDX_def unsigned_drop_bit_eq drop_bit_nat_def take_bit_nat_def
        mod_less [OF unat_lt_2p32])
qed

lemma unat_PTX: "unat (PTX va) = unat va div 4096 mod 1024"
  by (simp add: PTX_def and_mask_take_bit unsigned_take_bit_eq unsigned_drop_bit_eq
      take_bit_nat_def drop_bit_nat_def mod_less [OF unat_lt_2p32])

lemma PDX_lt [simp]: "unat (PDX va) < 1024"
  using unat_lt_2p32 [of va] by (simp add: unat_PDX)

lemma PTX_lt [simp]: "unat (PTX va) < 1024"
  by (simp add: unat_PTX)

lemma pg_PDX_PTX: "pg va = unat (PDX va) * 1024 + unat (PTX va)"
proof -
  have "unat va div 4194304 = unat va div 4096 div 1024"
    by (simp flip: div_mult2_eq)
  then show ?thesis by (simp add: pg_def unat_PDX unat_PTX)
qed

lemma PDX_PTX_eq_iff: "PDX a = PDX b \<and> PTX a = PTX b \<longleftrightarrow> pg a = pg b"
proof
  assume "pg a = pg b"
  then have "unat a div 4096 = unat b div 4096" by (simp add: pg_def)
  moreover have "unat a div 4194304 = unat a div 4096 div 1024" for a :: u32
    by (simp flip: div_mult2_eq)
  ultimately show "PDX a = PDX b \<and> PTX a = PTX b"
    by (simp add: word_unat_eq_iff unat_PDX unat_PTX)
qed (simp add: pg_PDX_PTX)

lemma P2V_V2P [simp]: "P2V (V2P a) = a"
  by (simp add: P2V_def V2P_def)

lemma V2P_P2V [simp]: "V2P (P2V a) = a"
  by (simp add: P2V_def V2P_def)

lemma pgaligned_plus_kernbase: "pgaligned (a + KERNBASE) \<longleftrightarrow> pgaligned a"
proof -
  have "unat (a + KERNBASE) mod 4096 = (unat a + 2147483648) mod 4294967296 mod 4096"
    by (simp add: unat_word_ariths)
  also have "\<dots> = (unat a + 2147483648) mod 4096"
    by (rule mod_mod_cancel) simp
  also have "\<dots> = unat a mod 4096"
    by (simp add: mod_add_right_eq [symmetric])
  finally show ?thesis by (simp add: pgaligned_def)
qed

lemma pgaligned_P2V [simp]: "pgaligned (P2V a) \<longleftrightarrow> pgaligned a"
  by (simp add: P2V_def pgaligned_plus_kernbase)

lemma pgaligned_V2P [simp]: "pgaligned (V2P a) \<longleftrightarrow> pgaligned a"
  using pgaligned_P2V [of "V2P a"] by simp

lemma unat_PGROUNDUP:
  assumes "unat a \<le> 4294963200"
  shows "unat (PGROUNDUP a) = (unat a + 4095) div 4096 * 4096"
proof -
  have "unat (a + 4095) = unat a + 4095" using assms by (simp add: unat_word_ariths)
  moreover have "PGROUNDUP a = PGROUNDDOWN (a + 4095)"
    by (simp add: PGROUNDUP_def PGROUNDDOWN_def add.commute)
  ultimately show ?thesis by (simp add: unat_PGROUNDDOWN)
qed

lemma pgaligned_PGROUNDUP [simp]: "pgaligned (PGROUNDUP a)"
proof -
  have "PGROUNDUP a = PGROUNDDOWN (a + 4095)"
    by (simp add: PGROUNDUP_def PGROUNDDOWN_def add.commute)
  then show ?thesis by simp
qed

section \<open>Descriptors round-trip\<close>

lemmas bitsplit =
  bit_or_iff bit_push_bit_iff bit_unsigned_iff bit_drop_bit_eq bit_take_bit_iff and_mask_take_bit

lemma join_base:
  "push_bit 24 (ucast (ucast (drop_bit 24 b) :: u8))
     OR push_bit 16 (ucast (ucast (drop_bit 16 b AND 0xff) :: u8))
     OR ucast (ucast (b AND 0xffff) :: u16) = (b :: u32)" (is "?l = b")
proof (rule bit_word_eqI)
  fix n
  assume n: "n < LENGTH(32)"
  have *: "bit ?l n = (n < 16 \<and> bit b n \<or> 16 \<le> n \<and> n < 24 \<and> bit b n \<or> 24 \<le> n \<and> bit b n)"
    using n by (auto simp: bitsplit)
  show "bit ?l n = bit b n" unfolding * using n by auto
qed

lemma seg_base_SEG: "seg_base (SEG t b l d) = b"
  by (simp add: seg_base_def SEG_def join_base)

lemma seg_base_SEG16: "seg_base (SEG16 t b l d) = b"
  by (simp add: seg_base_def SEG16_def join_base)

lemma seg_limit_SEG: "seg_limit (SEG t b l d) = l OR 0xFFF"
proof -
  let ?l = "push_bit 12 (push_bit 16 (ucast (ucast (drop_bit 28 l) :: 4 word))
    OR ucast (ucast (drop_bit 12 l AND 0xffff) :: u16)) OR 0xFFF :: u32"
  have mask: "0xFFF = (mask 12 :: u32)" by (simp add: mask_numeral)
  have "?l = l OR 0xFFF"
  proof (rule bit_word_eqI)
    fix n
    assume n: "n < LENGTH(32)"
    have *: "bit ?l n = (n < 12 \<or> 12 \<le> n \<and> n < 28 \<and> bit l n \<or> 28 \<le> n \<and> bit l n)"
      using n unfolding mask by (auto simp: bitsplit bit_mask_iff)
    show "bit ?l n = bit (l OR 0xFFF) n"
      unfolding * unfolding mask using n by (auto simp: bit_or_iff bit_mask_iff)
  qed
  then show ?thesis by (simp add: seg_limit_def SEG_def)
qed

lemma gate_offset_SETGATE: "gate_offset (SETGATE t sel off d) = off"
proof -
  let ?l = "push_bit 16 (ucast (ucast (drop_bit 16 off) :: u16)) OR
    ucast (ucast (off AND 0xffff) :: u16) :: u32"
  have "?l = off"
  proof (rule bit_word_eqI)
    fix n
    assume n: "n < LENGTH(32)"
    have *: "bit ?l n = (n < 16 \<and> bit off n \<or> 16 \<le> n \<and> bit off n)"
      using n by (auto simp: bitsplit)
    show "bit ?l n = bit off n" unfolding * using n by auto
  qed
  then show ?thesis by (simp add: gate_offset_def SETGATE_def)
qed

end
