(* ===== verification/Machine.thy ===== *)
theory Machine
  imports Mmu
begin

text \<open>
  The processor side of the kernel: the per-CPU structures of proc.h, the interrupt flag, the
  lookup of the executing CPU (\<open>mycpu\<close>, \<open>cpuid\<close> of proc.c) and the spin locks of spinlock.c with
  \<open>pushcli\<close> and \<open>popcli\<close>.

  The model runs one kernel thread. What other CPUs do shows only in the state they leave: a lock
  that is held by another CPU makes \<open>acquire\<close> spin, which is the fault \<open>Spins\<close>.
\<close>

section \<open>State\<close>

text \<open>An argument of \<open>cprintf\<close>: an integer, a string literal, or a character array.\<close>

datatype karg = AInt int | AWord u32 | AStr string | AChars "u8 list"

record taskstate =
  ts_esp0 :: u32
  ts_ss0 :: u16
  ts_iomb :: u16

record cpu =
  c_apicid :: u8
  c_scheduler :: u32
  c_ts :: taskstate
  c_gdt :: "segdesc list"
  c_started :: u32
  c_ncli :: int
  c_intena :: bool
  c_proc :: "nat option"

record spinlock =
  lk_locked :: u32
  lk_name :: string
  lk_cpu :: "nat option"
  lk_pcs :: "u32 list"

text \<open>
  \<open>lapicid\<close> is what the local APIC of the executing CPU reports, \<open>eflags_IF\<close> its interrupt flag,
  \<open>cr3\<close> its page-table register, \<open>tr\<close> its task register and \<open>gdtr\<close> the descriptor table it uses
  (the CPU structure that holds it, and its limit). \<open>klog\<close> collects the format strings given to
  \<open>cprintf\<close> with their arguments; the console itself is not part of this state.
  \<open>argp\<close> is the stack address of the argument of the call in progress, from which
  \<open>getcallerpcs\<close> follows the saved frame pointers; \<open>kend\<close> and \<open>kdata\<close> are the linker symbols
  \<open>end\<close> and \<open>data\<close>. A pointer to an element of \<open>cpus\<close> or of the process table is its index.
\<close>

record machine =
  mem :: bytes
  eflags_IF :: bool
  lapicid :: u8
  cpus :: "cpu list"
  ncpu :: nat
  cr3 :: u32
  tr :: u16
  gdtr :: "(nat \<times> u16) option"
  klog :: "(string \<times> karg list) list"
  locks :: "lockid \<Rightarrow> spinlock"
  argp :: u32
  kend :: u32
  kdata :: u32

section \<open>Executing CPU\<close>

definition panic :: "string \<Rightarrow> ('s, 'a) kmon" where
  "panic msg = fail (Panic msg)"

definition cprintfa :: "string \<Rightarrow> karg list \<Rightarrow> ('x machine_scheme, unit) kmon" where
  "cprintfa fmt args = modify (\<lambda>s. s\<lparr>klog := klog s @ [(fmt, args)]\<rparr>)"

definition cprintf :: "string \<Rightarrow> ('x machine_scheme, unit) kmon" where
  "cprintf fmt = cprintfa fmt []"

definition cli :: "('x machine_scheme, unit) kmon" where
  "cli = modify (\<lambda>s. s\<lparr>eflags_IF := False\<rparr>)"

definition sti :: "('x machine_scheme, unit) kmon" where
  "sti = modify (\<lambda>s. s\<lparr>eflags_IF := True\<rparr>)"

definition cpu_index :: "'x machine_scheme \<Rightarrow> nat option" where
  "cpu_index s = first_index (\<lambda>i. c_apicid (cpus s ! i) = lapicid s) (ncpu s)"

definition mycpu :: "('x machine_scheme, nat) kmon" where
  "mycpu =
     bnd (gets eflags_IF) (\<lambda>fl.
     if fl then panic ''mycpu called with interrupts enabled\<newline>''
     else bnd (gets cpu_index) (\<lambda>i.
       case i of Some i \<Rightarrow> ret i | None \<Rightarrow> panic ''unknown apicid\<newline>''))"

definition cpuid :: "('x machine_scheme, nat) kmon" where
  "cpuid = mycpu"

definition upd_cpu :: "nat \<Rightarrow> (cpu \<Rightarrow> cpu) \<Rightarrow> ('x machine_scheme, unit) kmon" where
  "upd_cpu i f = modify (\<lambda>s. s\<lparr>cpus := (cpus s)[i := f (cpus s ! i)]\<rparr>)"

definition upd_lock :: "lockid \<Rightarrow> (spinlock \<Rightarrow> spinlock) \<Rightarrow> ('x machine_scheme, unit) kmon" where
  "upd_lock l f = modify (\<lambda>s. s\<lparr>locks := (locks s)(l := f (locks s l))\<rparr>)"

section \<open>spinlock.c\<close>

definition initlock :: "lockid \<Rightarrow> string \<Rightarrow> ('x machine_scheme, unit) kmon" where
  "initlock l nm = upd_lock l (\<lambda>lk. lk\<lparr>lk_name := nm, lk_locked := 0, lk_cpu := None\<rparr>)"

text \<open>The chain of saved frame pointers, at most \<open>n\<close> links, padded with zeros.\<close>

primrec callerpcs :: "bytes \<Rightarrow> u32 \<Rightarrow> nat \<Rightarrow> u32 list" where
  "callerpcs m ebp 0 = []"
| "callerpcs m ebp (Suc n) =
     (if ebp = 0 \<or> ebp < KERNBASE \<or> ebp = 0xffffffff then replicate (Suc n) 0
      else load32 m (ebp + 4) # callerpcs m (load32 m ebp) n)"

definition getcallerpcs :: "bytes \<Rightarrow> u32 \<Rightarrow> u32 list" where
  "getcallerpcs m v = callerpcs m (v - 8) 10"

definition pushcli :: "('x machine_scheme, unit) kmon" where
  "pushcli =
     bnd (gets eflags_IF) (\<lambda>fl.
     sq cli (
     bnd mycpu (\<lambda>c.
     bnd (gets cpus) (\<lambda>cs.
     sq (whenk (c_ncli (cs ! c) = 0) (upd_cpu c (\<lambda>p. p\<lparr>c_intena := fl\<rparr>)))
        (upd_cpu c (\<lambda>p. p\<lparr>c_ncli := c_ncli p + 1\<rparr>))))))"

definition popcli :: "('x machine_scheme, unit) kmon" where
  "popcli =
     bnd (gets eflags_IF) (\<lambda>fl.
     if fl then panic ''popcli - interruptible''
     else bnd mycpu (\<lambda>c.
       sq (upd_cpu c (\<lambda>p. p\<lparr>c_ncli := c_ncli p - 1\<rparr>)) (
       bnd (gets cpus) (\<lambda>cs.
       if c_ncli (cs ! c) < 0 then panic ''popcli''
       else whenk (c_ncli (cs ! c) = 0 \<and> c_intena (cs ! c)) sti))))"

definition holding :: "lockid \<Rightarrow> ('x machine_scheme, bool) kmon" where
  "holding l =
     sq pushcli (
     bnd mycpu (\<lambda>c.
     bnd (gets (\<lambda>s. lk_locked (locks s l) \<noteq> 0 \<and> lk_cpu (locks s l) = Some c)) (\<lambda>r.
     sq popcli (ret r))))"

definition acquire :: "lockid \<Rightarrow> ('x machine_scheme, unit) kmon" where
  "acquire l =
     sq pushcli (
     bnd (holding l) (\<lambda>h.
     if h then panic ''acquire''
     else bnd (gets (\<lambda>s. lk_locked (locks s l))) (\<lambda>old.
       if old \<noteq> 0 then fail (Spins l)
       else sq (upd_lock l (\<lambda>lk. lk\<lparr>lk_locked := 1\<rparr>)) (
         bnd mycpu (\<lambda>c.
         sq (upd_lock l (\<lambda>lk. lk\<lparr>lk_cpu := Some c\<rparr>))
            (modify (\<lambda>s. s\<lparr>locks := (locks s)(l := (locks s l)
                \<lparr>lk_pcs := getcallerpcs (mem s) (argp s)\<rparr>)\<rparr>)))))))"

definition release :: "lockid \<Rightarrow> ('x machine_scheme, unit) kmon" where
  "release l =
     bnd (holding l) (\<lambda>h.
     if \<not> h then panic ''release''
     else sq (upd_lock l (\<lambda>lk. lk\<lparr>lk_pcs := (lk_pcs lk)[0 := 0], lk_cpu := None\<rparr>)) (
          sq (upd_lock l (\<lambda>lk. lk\<lparr>lk_locked := 0\<rparr>))
             popcli))"

section \<open>Interrupt nesting\<close>

text \<open>
  The executing CPU is listed in \<open>cpus\<close>, its nesting depth is not negative, and interrupts are off
  inside a \<open>pushcli\<close>.
\<close>

definition cur_cpu :: "'x machine_scheme \<Rightarrow> cpu" where
  "cur_cpu s = cpus s ! the (cpu_index s)"

definition cpu_ok :: "'x machine_scheme \<Rightarrow> bool" where
  "cpu_ok s \<longleftrightarrow>
     cpu_index s \<noteq> None \<and> the (cpu_index s) < length (cpus s) \<and> 0 \<le> c_ncli (cur_cpu s)
       \<and> (0 < c_ncli (cur_cpu s) \<longrightarrow> \<not> eflags_IF s)"

definition pushed :: "'x machine_scheme \<Rightarrow> 'x machine_scheme" where
  "pushed s =
     s\<lparr>eflags_IF := False,
       cpus := (cpus s)[the (cpu_index s) := (cur_cpu s)
         \<lparr>c_intena := (if c_ncli (cur_cpu s) = 0 then eflags_IF s else c_intena (cur_cpu s)),
          c_ncli := c_ncli (cur_cpu s) + 1\<rparr>]\<rparr>"

definition popped :: "'x machine_scheme \<Rightarrow> 'x machine_scheme" where
  "popped s =
     s\<lparr>eflags_IF := (if c_ncli (cur_cpu s) = 1 \<and> c_intena (cur_cpu s) then True else eflags_IF s),
       cpus := (cpus s)[the (cpu_index s) := (cur_cpu s)\<lparr>c_ncli := c_ncli (cur_cpu s) - 1\<rparr>]\<rparr>"

lemma cpu_index_upd:
  assumes "c_apicid p = c_apicid (cs ! i)"
  shows "first_index (\<lambda>j. c_apicid (cs[i := p] ! j) = a) n =
    first_index (\<lambda>j. c_apicid (cs ! j) = a) n"
proof (rule first_index_cong)
  fix j
  show "(c_apicid (cs[i := p] ! j) = a) = (c_apicid (cs ! j) = a)"
    by (cases "i = j"; cases "i < length cs") (auto simp: assms list_update_beyond)
qed

lemma cpu_index_pushed [simp]: "cpu_index (pushed s) = cpu_index s"
  unfolding pushed_def cpu_index_def cur_cpu_def
  by (simp add: cpu_index_upd)

lemma cpu_index_popped [simp]: "cpu_index (popped s) = cpu_index s"
  unfolding popped_def cpu_index_def cur_cpu_def
  by (simp add: cpu_index_upd)

lemma cpu_index_cong:
  "cpus s' = cpus s \<Longrightarrow> lapicid s' = lapicid s \<Longrightarrow> ncpu s' = ncpu s \<Longrightarrow> cpu_index s' = cpu_index s"
  by (simp add: cpu_index_def)

lemma cpu_ok_cong:
  "cpus s' = cpus s \<Longrightarrow> lapicid s' = lapicid s \<Longrightarrow> ncpu s' = ncpu s \<Longrightarrow> eflags_IF s' = eflags_IF s
    \<Longrightarrow> cpu_ok s' = cpu_ok s"
  by (simp add: cpu_ok_def cur_cpu_def cpu_index_def)

lemma cpu_upd_frame [simp]:
  "cpu_index (s\<lparr>locks := lk\<rparr>) = cpu_index s"
  "cpu_index (s\<lparr>mem := m\<rparr>) = cpu_index s"
  "cur_cpu (s\<lparr>locks := lk\<rparr>) = cur_cpu s"
  "cur_cpu (s\<lparr>mem := m\<rparr>) = cur_cpu s"
  "cpu_ok (s\<lparr>locks := lk\<rparr>) = cpu_ok s"
  "cpu_ok (s\<lparr>mem := m\<rparr>) = cpu_ok s"
  by (simp_all add: cpu_ok_def cur_cpu_def cpu_index_def)

lemma cur_cpu_pushed:
  "cpu_ok s \<Longrightarrow> cur_cpu (pushed s) = (cur_cpu s)
     \<lparr>c_intena := (if c_ncli (cur_cpu s) = 0 then eflags_IF s else c_intena (cur_cpu s)),
      c_ncli := c_ncli (cur_cpu s) + 1\<rparr>"
  by (simp add: cur_cpu_def cpu_ok_def) (simp add: pushed_def cur_cpu_def)

lemma cur_cpu_popped:
  "cpu_ok s \<Longrightarrow> cur_cpu (popped s) = (cur_cpu s)\<lparr>c_ncli := c_ncli (cur_cpu s) - 1\<rparr>"
  by (simp add: cur_cpu_def cpu_ok_def) (simp add: popped_def cur_cpu_def)

lemma pushed_simps [simp]:
  "mem (pushed s) = mem s" "argp (pushed s) = argp s" "locks (pushed s) = locks s"
  "kend (pushed s) = kend s" "kdata (pushed s) = kdata s" "cr3 (pushed s) = cr3 s"
  "eflags_IF (pushed s) = False" "length (cpus (pushed s)) = length (cpus s)"
  "ncpu (pushed s) = ncpu s" "lapicid (pushed s) = lapicid s"
  by (simp_all add: pushed_def)

lemma popped_simps [simp]:
  "mem (popped s) = mem s" "argp (popped s) = argp s" "locks (popped s) = locks s"
  "kend (popped s) = kend s" "kdata (popped s) = kdata s" "cr3 (popped s) = cr3 s"
  "length (cpus (popped s)) = length (cpus s)"
  "ncpu (popped s) = ncpu s" "lapicid (popped s) = lapicid s"
  by (simp_all add: popped_def)

lemma cpu_ok_pushed: "cpu_ok s \<Longrightarrow> cpu_ok (pushed s)"
  by (simp add: cpu_ok_def [of "pushed s"] cur_cpu_pushed) (simp add: cpu_ok_def)

lemma ncli_pushed: "cpu_ok s \<Longrightarrow> 0 < c_ncli (cur_cpu (pushed s))"
  by (simp add: cur_cpu_pushed) (simp add: cpu_ok_def)

lemma mycpu_eq: "cpu_ok s \<Longrightarrow> \<not> eflags_IF s \<Longrightarrow> mycpu s = Inr (the (cpu_index s), s)"
  by (auto simp: mycpu_def bnd_def gets_def ret_def cpu_ok_def)

lemma pushcli_eq:
  assumes "cpu_ok s"
  shows "pushcli s = Inr ((), pushed s)"
proof -
  have "mycpu (s\<lparr>eflags_IF := False\<rparr>) = Inr (the (cpu_index s), s\<lparr>eflags_IF := False\<rparr>)"
    using assms by (auto simp: mycpu_def bnd_def gets_def ret_def cpu_ok_def cpu_index_def)
  then show ?thesis
    using assms
    by (simp add: pushcli_def bnd_def sq_def gets_def cli_def modify_def ret_def cpu_ok_def
        whenk_def upd_cpu_def pushed_def cur_cpu_def)
qed

lemma popcli_eq:
  assumes "cpu_ok s" and "0 < c_ncli (cur_cpu s)"
  shows "popcli s = Inr ((), popped s)"
proof -
  have "\<not> eflags_IF s" using assms by (simp add: cpu_ok_def)
  then show ?thesis
    using assms mycpu_eq [OF assms(1)]
    by (auto simp: popcli_def bnd_def sq_def gets_def sti_def modify_def ret_def cpu_ok_def
        whenk_def upd_cpu_def popped_def cur_cpu_def)
qed

lemma eflags_popped_pushed: "cpu_ok s \<Longrightarrow> eflags_IF (popped (pushed s)) = eflags_IF s"
  by (simp add: popped_def cur_cpu_pushed) (auto simp: cpu_ok_def)

lemma popped_pushed:
  assumes "cpu_ok s" and "0 < c_ncli (cur_cpu s)"
  shows "popped (pushed s) = s"
proof (rule machine.equality)
  show "cpus (popped (pushed s)) = cpus s"
    using assms
    by (simp add: popped_def cur_cpu_pushed) (simp add: pushed_def cur_cpu_def)
  show "eflags_IF (popped (pushed s)) = eflags_IF s"
    using assms(1) by (rule eflags_popped_pushed)
qed (simp_all add: popped_def pushed_def)

section \<open>Locks\<close>

definition held :: "lockid \<Rightarrow> 'x machine_scheme \<Rightarrow> bool" where
  "held l s \<longleftrightarrow> lk_locked (locks s l) \<noteq> 0 \<and> lk_cpu (locks s l) = cpu_index s"

definition acquired :: "lockid \<Rightarrow> 'x machine_scheme \<Rightarrow> 'x machine_scheme" where
  "acquired l s = (pushed s)\<lparr>locks := (locks s)(l := (locks s l)
     \<lparr>lk_locked := 1, lk_cpu := cpu_index s, lk_pcs := getcallerpcs (mem s) (argp s)\<rparr>)\<rparr>"

definition released :: "lockid \<Rightarrow> 'x machine_scheme \<Rightarrow> 'x machine_scheme" where
  "released l s = popped (s\<lparr>locks := (locks s)(l := (locks s l)
     \<lparr>lk_pcs := (lk_pcs (locks s l))[0 := 0], lk_cpu := None, lk_locked := 0\<rparr>)\<rparr>)"

text \<open>What a critical section on \<open>l\<close> leaves behind: the saved interrupt flag and the debugging trace.\<close>

definition bracket :: "lockid \<Rightarrow> 'x machine_scheme \<Rightarrow> 'x machine_scheme" where
  "bracket l s = released l (acquired l s)"

lemma holding_eq:
  assumes "cpu_ok s" and "0 < c_ncli (cur_cpu s)"
  shows "holding l s = Inr (held l s, s)"
proof -
  have ok: "cpu_ok (pushed s)" and n: "0 < c_ncli (cur_cpu (pushed s))"
    using assms(1) by (simp_all add: cpu_ok_pushed ncli_pushed)
  have "cpu_index s = Some (the (cpu_index s))" using assms(1) by (simp add: cpu_ok_def)
  then show ?thesis
    by (simp add: holding_def sq_def bnd_def pushcli_eq assms gets_def ret_def held_def
        mycpu_eq ok popcli_eq n popped_pushed)
qed

lemma acquire_eq:
  assumes "cpu_ok s" and "lk_locked (locks s l) = 0"
  shows "acquire l s = Inr ((), acquired l s)"
proof -
  have ok: "cpu_ok (pushed s)" and n: "0 < c_ncli (cur_cpu (pushed s))"
    using assms(1) by (simp_all add: cpu_ok_pushed ncli_pushed)
  have c: "cpu_index s = Some (the (cpu_index s))" using assms(1) by (simp add: cpu_ok_def)
  show ?thesis
    using assms(2) c
    by (simp add: acquire_def sq_def bnd_def pushcli_eq assms(1) holding_eq [OF ok n] gets_def
        held_def upd_lock_def modify_def mycpu_eq ok acquired_def)
qed

lemma acquire_spins:
  assumes "cpu_ok s" and "lk_locked (locks s l) \<noteq> 0" and "lk_cpu (locks s l) \<noteq> cpu_index s"
  shows "acquire l s = Inl (Spins l, pushed s)"
proof -
  have ok: "cpu_ok (pushed s)" and n: "0 < c_ncli (cur_cpu (pushed s))"
    using assms(1) by (simp_all add: cpu_ok_pushed ncli_pushed)
  then show ?thesis
    using assms(2,3)
    by (simp add: acquire_def sq_def bnd_def pushcli_eq assms(1) holding_eq [OF ok n] gets_def
        held_def fail_def)
qed

lemma acquire_twice_panics:
  assumes "cpu_ok s" and "held l s"
  shows "acquire l s = Inl (Panic ''acquire'', pushed s)"
proof -
  have ok: "cpu_ok (pushed s)" and n: "0 < c_ncli (cur_cpu (pushed s))"
    using assms(1) by (simp_all add: cpu_ok_pushed ncli_pushed)
  then show ?thesis
    using assms(2)
    by (simp add: acquire_def sq_def bnd_def pushcli_eq assms(1) holding_eq [OF ok n] panic_def
        fail_def held_def)
qed

lemma release_eq:
  assumes "cpu_ok s" and "0 < c_ncli (cur_cpu s)" and "held l s"
  shows "release l s = Inr ((), released l s)"
  using assms
  by (simp add: release_def bnd_def sq_def holding_eq upd_lock_def modify_def released_def
      popcli_eq)

lemma release_not_held_panics:
  assumes "cpu_ok s" and "0 < c_ncli (cur_cpu s)" and "\<not> held l s"
  shows "release l s = Inl (Panic ''release'', s)"
  using assms by (simp add: release_def bnd_def holding_eq panic_def fail_def)

section \<open>Critical sections\<close>

text \<open>
  What the rest of the kernel can observe of the locking state: the interrupt flag, the nesting
  depth and, for each lock, whether and by whom it is held.
\<close>

definition lockview :: "'x machine_scheme \<Rightarrow> bool \<times> int \<times> (lockid \<Rightarrow> u32 \<times> nat option)" where
  "lockview s =
     (eflags_IF s, c_ncli (cur_cpu s), (\<lambda>l. (lk_locked (locks s l), lk_cpu (locks s l))))"

text \<open>The state in which a thread may take lock \<open>l\<close> without waiting.\<close>

definition can_lock :: "lockid \<Rightarrow> 'x machine_scheme \<Rightarrow> bool" where
  "can_lock l s \<longleftrightarrow> cpu_ok s \<and> lk_locked (locks s l) = 0 \<and> lk_cpu (locks s l) = None"

text \<open>The state inside a critical section on \<open>l\<close>.\<close>

definition in_lock :: "lockid \<Rightarrow> 'x machine_scheme \<Rightarrow> bool" where
  "in_lock l s \<longleftrightarrow> cpu_ok s \<and> 0 < c_ncli (cur_cpu s) \<and> held l s"

lemma acquired_simps [simp]:
  "mem (acquired l s) = mem s" "argp (acquired l s) = argp s"
  "kend (acquired l s) = kend s" "kdata (acquired l s) = kdata s" "cr3 (acquired l s) = cr3 s"
  "eflags_IF (acquired l s) = False" "length (cpus (acquired l s)) = length (cpus s)"
  "ncpu (acquired l s) = ncpu s" "lapicid (acquired l s) = lapicid s"
  "cpu_index (acquired l s) = cpu_index s" "cur_cpu (acquired l s) = cur_cpu (pushed s)"
  by (simp_all add: acquired_def)

lemma released_simps [simp]:
  "mem (released l s) = mem s" "argp (released l s) = argp s"
  "kend (released l s) = kend s" "kdata (released l s) = kdata s" "cr3 (released l s) = cr3 s"
  "length (cpus (released l s)) = length (cpus s)"
  "ncpu (released l s) = ncpu s" "lapicid (released l s) = lapicid s"
  "cpu_index (released l s) = cpu_index s"
  by (simp_all add: released_def)

lemma locks_acquired [simp]:
  "k \<noteq> l \<Longrightarrow> locks (acquired l s) k = locks s k"
  "lk_locked (locks (acquired l s) l) = 1" "lk_cpu (locks (acquired l s) l) = cpu_index s"
  by (simp_all add: acquired_def)

lemma locks_released [simp]:
  "k \<noteq> l \<Longrightarrow> locks (released l s) k = locks s k"
  "lk_locked (locks (released l s) l) = 0" "lk_cpu (locks (released l s) l) = None"
  by (simp_all add: released_def)

lemma in_lock_acquired: "can_lock l s \<Longrightarrow> in_lock l (acquired l s)"
  by (simp add: in_lock_def can_lock_def held_def ncli_pushed)
    (simp add: acquired_def cpu_ok_pushed)

lemma eflags_bracket: "cpu_ok s \<Longrightarrow> eflags_IF (released l (acquired l s)) = eflags_IF s"
  by (simp add: released_def acquired_def popped_def cur_cpu_pushed) (auto simp: cpu_ok_def)

lemma cur_cpu_released:
  "cpu_ok s \<Longrightarrow> cur_cpu (released l s) = (cur_cpu s)\<lparr>c_ncli := c_ncli (cur_cpu s) - 1\<rparr>"
  by (simp add: released_def cur_cpu_popped)

lemma cpu_ok_released:
  assumes "cpu_ok s" and "0 < c_ncli (cur_cpu s)"
  shows "cpu_ok (released l s)"
  using assms by (simp add: cpu_ok_def cur_cpu_released) (auto simp: released_def popped_def)

lemma wpe_acquire:
  "can_lock l s \<Longrightarrow> wpe (acquire l) E Q s \<longleftrightarrow> Q () (acquired l s)"
  by (simp add: wpe_def acquire_eq can_lock_def)

lemma wpe_release:
  "in_lock l s \<Longrightarrow> wpe (release l) E Q s \<longleftrightarrow> Q () (released l s)"
  by (simp add: wpe_def release_eq in_lock_def)

lemma run_locking [run]:
  "can_lock l s \<Longrightarrow> sq (acquire l) n s = n (acquired l s)"
  "in_lock l s \<Longrightarrow> sq (release l) n s = n (released l s)"
  by (simp_all add: sq_def bnd_def acquire_eq can_lock_def release_eq in_lock_def)

text \<open>
  A critical section restores the locking state, whatever the body does to memory and to the
  protected data, as long as it leaves the interrupt state and the locks as it found them.
\<close>

lemma lockview_released:
  assumes "can_lock l s" and "lockview t = lockview (acquired l s)"
    and "cpu_index t = cpu_index s" and "cpu_ok t"
    and "c_intena (cur_cpu t) = c_intena (cur_cpu (acquired l s))"
  shows "lockview (released l t) = lockview s"
proof -
  have ok: "cpu_ok s" using assms(1) by (simp add: can_lock_def)
  have v: "eflags_IF t = False" "c_ncli (cur_cpu t) = c_ncli (cur_cpu s) + 1"
    "\<And>k. lk_locked (locks t k) = lk_locked (locks (acquired l s) k)"
    "\<And>k. lk_cpu (locks t k) = lk_cpu (locks (acquired l s) k)"
    using assms(2) ok
    by (simp_all add: lockview_def cur_cpu_pushed) (metis prod.inject)+
  have e: "eflags_IF (released l t) = eflags_IF s"
    using v(1,2) assms(5) ok
    by (simp add: released_def popped_def cur_cpu_pushed) (auto simp: cpu_ok_def)
  have "lk_locked (locks (released l t) k) = lk_locked (locks s k) \<and>
      lk_cpu (locks (released l t) k) = lk_cpu (locks s k)" for k
    using assms(1) v(3,4) [of k] by (cases "k = l") (simp_all add: can_lock_def)
  then show ?thesis
    using e v(2) by (simp add: lockview_def cur_cpu_released assms(4))
qed

section \<open>Locking takes a bounded number of steps\<close>

lemma converges_locking [intro, simp, cv]:
  "converges mycpu" "converges pushcli" "converges popcli" "converges (holding l)"
  "converges (acquire l)" "converges (release l)"
proof -
  show my: "converges (mycpu :: ('x machine_scheme, nat) kmon)"
    unfolding mycpu_def panic_def by (intro converges_bnd converges_if converges_option) auto
  have cpu: "converges (upd_cpu i f)" and lock: "converges (upd_lock l g)" for i f l g
    by (simp_all add: upd_cpu_def upd_lock_def)
  show push: "converges (pushcli :: ('x machine_scheme, unit) kmon)"
    unfolding pushcli_def cli_def by (intro converges_bnd converges_sq converges_whenk my cpu) auto
  show pop: "converges (popcli :: ('x machine_scheme, unit) kmon)"
    unfolding popcli_def panic_def sti_def
    by (intro converges_bnd converges_sq converges_if converges_whenk my cpu) auto
  show hold: "converges (holding l :: ('x machine_scheme, bool) kmon)"
    unfolding holding_def by (intro converges_bnd converges_sq my push pop) auto
  show "converges (acquire l :: ('x machine_scheme, unit) kmon)"
    unfolding acquire_def panic_def
    by (intro converges_bnd converges_sq converges_if my push hold lock) auto
  show "converges (release l :: ('x machine_scheme, unit) kmon)"
    unfolding release_def panic_def
    by (intro converges_bnd converges_sq converges_if hold pop lock) auto
qed

end
