(* ===== verification/Cstring.thy ===== *)
theory Cstring
  imports Mmu
begin

text \<open>
  string.c: the memory and string routines of the kernel, over byte-addressed memory. Pointers are
  32-bit addresses and the loops are the source's, one recursive call per iteration. The lemmas give
  each routine a closed form: what every byte of memory holds afterwards, or what the result says
  about the two operands.
\<close>

section \<open>memset\<close>

text \<open>\<open>rep stosb\<close> and \<open>rep stosl\<close> of x86.h.\<close>

primrec stosb :: "bytes \<Rightarrow> u32 \<Rightarrow> u8 \<Rightarrow> nat \<Rightarrow> bytes" where
  "stosb m a c 0 = m"
| "stosb m a c (Suc n) = stosb (m(a := c)) (a + 1) c n"

primrec stosl :: "bytes \<Rightarrow> u32 \<Rightarrow> u32 \<Rightarrow> nat \<Rightarrow> bytes" where
  "stosl m a v 0 = m"
| "stosl m a v (Suc n) = stosl (store32 m a v) (a + 4) v n"

definition memset :: "bytes \<Rightarrow> u32 \<Rightarrow> u32 \<Rightarrow> u32 \<Rightarrow> bytes" where
  "memset m dst c n =
     (if dst mod 4 = 0 \<and> n mod 4 = 0
      then let c = c AND 0xFF
        in stosl m dst (push_bit 24 c OR push_bit 16 c OR push_bit 8 c OR c) (unat (n div 4))
      else stosb m dst (ucast c) (unat n))"

section \<open>memmove and memcmp\<close>

primrec copy_fwd :: "bytes \<Rightarrow> u32 \<Rightarrow> u32 \<Rightarrow> nat \<Rightarrow> bytes" where
  "copy_fwd m d s 0 = m"
| "copy_fwd m d s (Suc n) = copy_fwd (m(d := m s)) (d + 1) (s + 1) n"

primrec copy_bwd :: "bytes \<Rightarrow> u32 \<Rightarrow> u32 \<Rightarrow> nat \<Rightarrow> bytes" where
  "copy_bwd m d s 0 = m"
| "copy_bwd m d s (Suc n) = copy_bwd (m(d - 1 := m (s - 1))) (d - 1) (s - 1) n"

definition memmove :: "bytes \<Rightarrow> u32 \<Rightarrow> u32 \<Rightarrow> u32 \<Rightarrow> bytes" where
  "memmove m dst src n =
     (if src < dst \<and> src + n > dst then copy_bwd m (dst + n) (src + n) (unat n)
      else copy_fwd m dst src (unat n))"

definition memcpy :: "bytes \<Rightarrow> u32 \<Rightarrow> u32 \<Rightarrow> u32 \<Rightarrow> bytes" where
  "memcpy m dst src n = memmove m dst src n"

primrec memcmp_loop :: "bytes \<Rightarrow> u32 \<Rightarrow> u32 \<Rightarrow> nat \<Rightarrow> int" where
  "memcmp_loop m s1 s2 0 = 0"
| "memcmp_loop m s1 s2 (Suc n) =
     (if m s1 \<noteq> m s2 then uint (m s1) - uint (m s2) else memcmp_loop m (s1 + 1) (s2 + 1) n)"

definition memcmp :: "bytes \<Rightarrow> u32 \<Rightarrow> u32 \<Rightarrow> u32 \<Rightarrow> int" where
  "memcmp m v1 v2 n = memcmp_loop m v1 v2 (unat n)"

section \<open>Strings\<close>

primrec strncmp_loop :: "bytes \<Rightarrow> u32 \<Rightarrow> u32 \<Rightarrow> nat \<Rightarrow> int" where
  "strncmp_loop m p q 0 = 0"
| "strncmp_loop m p q (Suc n) =
     (if m p \<noteq> 0 \<and> m p = m q then strncmp_loop m (p + 1) (q + 1) n
      else uint (m p) - uint (m q))"

definition strncmp :: "bytes \<Rightarrow> u32 \<Rightarrow> u32 \<Rightarrow> u32 \<Rightarrow> int" where
  "strncmp m p q n = strncmp_loop m p q (unat n)"

text \<open>
  \<open>strncpy\<close>: copy until the terminator has been copied or \<open>n\<close> bytes are done, then fill with zeros.
  The counters are C ints; a negative one copies nothing.
\<close>

primrec zero_fill :: "bytes \<Rightarrow> u32 \<Rightarrow> nat \<Rightarrow> bytes" where
  "zero_fill m s 0 = m"
| "zero_fill m s (Suc n) = zero_fill (m(s := 0)) (s + 1) n"

primrec strncpy_loop :: "bytes \<Rightarrow> u32 \<Rightarrow> u32 \<Rightarrow> nat \<Rightarrow> bytes" where
  "strncpy_loop m s t 0 = m"
| "strncpy_loop m s t (Suc n) =
     (let m' = m(s := m t)
      in if m t \<noteq> 0 then strncpy_loop m' (s + 1) (t + 1) n else zero_fill m' (s + 1) n)"

definition strncpy :: "bytes \<Rightarrow> u32 \<Rightarrow> u32 \<Rightarrow> int \<Rightarrow> bytes" where
  "strncpy m s t n = strncpy_loop m s t (nat n)"

text \<open>\<open>safestrcpy\<close>: at most \<open>n - 1\<close> bytes, then always a terminator.\<close>

primrec safestrcpy_loop :: "bytes \<Rightarrow> u32 \<Rightarrow> u32 \<Rightarrow> nat \<Rightarrow> bytes \<times> u32" where
  "safestrcpy_loop m s t 0 = (m, s)"
| "safestrcpy_loop m s t (Suc n) =
     (let m' = m(s := m t)
      in if m t \<noteq> 0 then safestrcpy_loop m' (s + 1) (t + 1) n else (m', s + 1))"

definition safestrcpy :: "bytes \<Rightarrow> u32 \<Rightarrow> u32 \<Rightarrow> int \<Rightarrow> bytes" where
  "safestrcpy m s t n =
     (if n \<le> 0 then m
      else let (m', s') = safestrcpy_loop m s t (nat (n - 1)) in m'(s' := 0))"

text \<open>\<open>strlen\<close> runs until it meets a zero byte: no result where there is none.\<close>

partial_function (option) strlen_from :: "bytes \<Rightarrow> u32 \<Rightarrow> int \<Rightarrow> int option" where
  "strlen_from m s n = (if m (s + of_int n) = 0 then Some n else strlen_from m s (n + 1))"

definition strlen :: "bytes \<Rightarrow> u32 \<Rightarrow> int option" where
  "strlen m s = strlen_from m s 0"

section \<open>Closed form of memset\<close>

lemma minus_one_step:
  assumes "x \<noteq> a"
  shows "unat (x - (a + 1)) + 1 = unat (x - a :: u32)"
proof -
  have "x - a \<noteq> 0" using assms by simp
  then have "unat (x - a - 1) = unat (x - a) - 1" and "0 < unat (x - a)"
    by (simp_all add: unat_minus_one unat_gt_0)
  then show ?thesis by (simp add: diff_diff_eq)
qed

lemma stosb_eq: "n \<le> 4294967296 \<Longrightarrow> stosb m a c n x = (if unat (x - a) < n then c else m x)"
proof (induction n arbitrary: m a)
  case 0
  then show ?case by simp
next
  case (Suc n)
  show ?case
  proof (cases "x = a")
    case True
    with Suc show ?thesis by simp
  next
    case False
    with Suc minus_one_step [OF False] show ?thesis by auto
  qed
qed

lemma stosb_add: "stosb m a c (k + n) = stosb (stosb m a c k) (a + of_nat k) c n"
  by (induction k arbitrary: m a) (simp_all add: ac_simps)

lemma fill_bytes:
  "ucast (push_bit 24 (c AND 0xFF) OR push_bit 16 (c AND 0xFF) OR push_bit 8 (c AND 0xFF)
     OR (c AND 0xFF) :: u32) = (ucast c :: u8)"
  "ucast (drop_bit 8 (push_bit 24 (c AND 0xFF) OR push_bit 16 (c AND 0xFF)
     OR push_bit 8 (c AND 0xFF) OR (c AND 0xFF)) :: u32) = (ucast c :: u8)"
  "ucast (drop_bit 16 (push_bit 24 (c AND 0xFF) OR push_bit 16 (c AND 0xFF)
     OR push_bit 8 (c AND 0xFF) OR (c AND 0xFF)) :: u32) = (ucast c :: u8)"
  "ucast (drop_bit 24 (push_bit 24 (c AND 0xFF) OR push_bit 16 (c AND 0xFF)
     OR push_bit 8 (c AND 0xFF) OR (c AND 0xFF)) :: u32) = (ucast c :: u8)"
  by (rule bit_word_eqI, auto simp: bitsplit)+

lemma store32_fill:
  assumes "ucast v = c" "ucast (drop_bit 8 v) = c" "ucast (drop_bit 16 v) = c"
    "ucast (drop_bit 24 v) = c"
  shows "store32 m a v = stosb m a c 4"
  using assms by (simp add: store32_def numeral_eq_Suc add.assoc)

lemma stosl_stosb:
  assumes "ucast v = c" "ucast (drop_bit 8 v) = c" "ucast (drop_bit 16 v) = c"
    "ucast (drop_bit 24 v) = c"
  shows "stosl m a v n = stosb m a c (4 * n)"
proof (induction n arbitrary: m a)
  case (Suc n)
  have "stosb m a c (4 + 4 * n) = stosb (stosb m a c 4) (a + 4) c (4 * n)"
    using stosb_add [of m a c 4 "4 * n"] by simp
  with Suc store32_fill [OF assms] show ?case by (simp add: add.commute)
qed simp

lemma memset_eq: "memset m dst c n = (\<lambda>x. if unat (x - dst) < unat n then ucast c else m x)"
proof -
  have "4 * unat (n div 4) = unat n" if "n mod 4 = 0"
  proof -
    have "unat (n mod 4) = 0" using that by simp
    then have "unat n mod 4 = 0" by (simp add: unat_mod_distrib)
    then show ?thesis by (simp add: unat_div_distrib mod_eq_0_iff_dvd)
  qed
  then have "dst mod 4 = 0 \<and> n mod 4 = 0 \<Longrightarrow> memset m dst c n = stosb m dst (ucast c) (unat n)"
    unfolding memset_def Let_def by (simp only: stosl_stosb [OF fill_bytes] if_True simp_thms)
  moreover have "\<not> (dst mod 4 = 0 \<and> n mod 4 = 0) \<Longrightarrow>
      memset m dst c n = stosb m dst (ucast c) (unat n)"
    unfolding memset_def Let_def by (simp only: if_False)
  ultimately have "memset m dst c n = stosb m dst (ucast c) (unat n)" by blast
  then show ?thesis
    using unat_lt_2p32 [of n] by (simp add: fun_eq_iff stosb_eq)
qed

lemma memset_apply: "memset m dst c n x = (if unat (x - dst) < unat n then ucast c else m x)"
  by (simp add: memset_eq)

lemma memset_page:
  assumes "pgaligned d"
  shows "memset m d c 4096 x = (if pg x = pg d then ucast c else m x)"
proof -
  obtain k where k: "unat d = 4096 * k" and k': "k < 1048576"
    using assms by (rule pgalignedE)
  have "unat (x - d) < 4096 \<longleftrightarrow> unat x div 4096 = k"
  proof (cases "d \<le> x")
    case True
    then have "unat (x - d) = unat x - 4096 * k" and "4096 * k \<le> unat x"
      using k by (simp_all add: unat_sub word_le_nat_alt)
    then show ?thesis by auto
  next
    case False
    then have "unat x < 4096 * k" using k by (simp add: word_le_nat_alt)
    moreover have "unat (x - d) = 4294967296 + unat x - 4096 * k"
      using False k by (simp add: unat_sub_if_size word_le_nat_alt word_size)
    ultimately show ?thesis using k' by auto
  qed
  then show ?thesis by (simp add: memset_apply pg_def k)
qed

section \<open>Closed form of memmove\<close>

lemma copy_fwd_eq:
  assumes "unat d + n \<le> 4294967296" and "unat s + n \<le> 4294967296"
    and "unat d \<le> unat s \<or> unat s + n \<le> unat d"
  shows "copy_fwd m d s n x = (if unat (x - d) < n then m (s + (x - d)) else m x)"
  using assms
proof (induction n arbitrary: m d s)
  case 0
  then show ?case by simp
next
  case (Suc n)
  show ?case
  proof (cases "n = 0")
    case True
    then show ?thesis by (auto simp: unat_eq_0)
  next
    case False
    have d1: "unat (d + 1) = unat d + 1" and s1: "unat (s + 1) = unat s + 1"
      using Suc.prems False by (simp_all add: unat_word_ariths)
    have IH: "copy_fwd (m(d := m s)) (d + 1) (s + 1) n x =
      (if unat (x - (d + 1)) < n then (m(d := m s)) (s + 1 + (x - (d + 1))) else (m(d := m s)) x)"
      using Suc.prems d1 s1 by (intro Suc.IH) auto
    have e: "s + 1 + (x - (d + 1)) = s + (x - d)" by simp
    show ?thesis
    proof (cases "x = d")
      case True
      have "unat (x - (d + 1)) = 4294967295"
        unfolding True by (simp add: unsigned_minus_1_eq_mask mask_eq_exp_minus_1)
      then show ?thesis using IH Suc.prems False True by simp
    next
      case x: False
      have "s + (x - d) \<noteq> d" if "unat (x - d) < Suc n"
      proof -
        have "unat (s + (x - d)) = unat s + unat (x - d)"
          using that Suc.prems by (simp add: unat_word_ariths)
        moreover have "0 < unat (x - d)" using x by (simp add: unat_gt_0)
        ultimately have "unat (s + (x - d)) \<noteq> unat d" using Suc.prems(3) that by linarith
        then show ?thesis by metis
      qed
      then show ?thesis using IH e x minus_one_step [OF x] by auto
    qed
  qed
qed

lemma copy_bwd_eq:
  assumes "unat d + n \<le> 4294967296" and "unat s + n \<le> 4294967296" and "unat s \<le> unat d"
    and "n < 4294967296"
  shows "copy_bwd m (d + of_nat n) (s + of_nat n) n x =
    (if unat (x - d) < n then m (s + (x - d)) else m x)"
  using assms
proof (induction n arbitrary: m)
  case 0
  then show ?case by simp
next
  case (Suc n)
  let ?m = "m(d + of_nat n := m (s + of_nat n))"
  have n: "unat (of_nat n :: u32) = n" using Suc.prems by (simp add: unat_of_nat)
  have IH: "copy_bwd ?m (d + of_nat n) (s + of_nat n) n x =
    (if unat (x - d) < n then ?m (s + (x - d)) else ?m x)"
    using Suc.prems by (intro Suc.IH) auto
  have step: "copy_bwd m (d + of_nat (Suc n)) (s + of_nat (Suc n)) (Suc n) x =
      copy_bwd ?m (d + of_nat n) (s + of_nat n) n x"
    by simp
  have x: "x = d + of_nat n \<longleftrightarrow> unat (x - d) = n"
  proof
    assume "unat (x - d) = n"
    then have "of_nat n = x - d" by auto
    then show "x = d + of_nat n" by simp
  qed (use n in simp)
  have "s + (x - d) \<noteq> d + of_nat n" if "unat (x - d) < n"
  proof -
    have "unat (s + (x - d)) = unat s + unat (x - d)" and "unat (d + of_nat n) = unat d + n"
      using that Suc.prems n by (simp_all add: unat_word_ariths)
    then have "unat (s + (x - d)) \<noteq> unat (d + of_nat n)" using that Suc.prems(3) by linarith
    then show ?thesis by metis
  qed
  then show ?case
    unfolding step IH using x by (auto simp: less_Suc_eq)
qed

lemma memmove_eq:
  assumes "unat dst + unat n \<le> 4294967296" and "unat src + unat n < 4294967296"
  shows "memmove m dst src n = (\<lambda>x. if unat (x - dst) < unat n then m (src + (x - dst)) else m x)"
proof -
  have sum: "unat (src + n) = unat src + unat n" using assms(2) by (simp add: unat_word_ariths)
  show ?thesis
  proof (cases "src < dst \<and> src + n > dst")
    case True
    then have "unat src \<le> unat dst" by (simp add: word_less_nat_alt)
    then show ?thesis
      using True copy_bwd_eq [OF assms(1) _ _ unat_lt_2p32, of src m] assms(2)
      by (auto simp: memmove_def fun_eq_iff)
  next
    case False
    then have "unat dst \<le> unat src \<or> unat src + unat n \<le> unat dst"
      using sum by (auto simp: word_less_nat_alt)
    then show ?thesis
      using False copy_fwd_eq [OF assms(1), of src m] assms(2)
      by (auto simp: memmove_def fun_eq_iff)
  qed
qed

end
