(* ===== verification/Kalloc.thy ===== *)
theory Kalloc
  imports Machine Cstring
begin

text \<open>
  kalloc.c: the physical page allocator. The free list is threaded through the free pages
  themselves, as in the source: the first word of a free page is the address of the next one.
  The lemmas relate it to the list of free pages and state what \<open>kalloc\<close> and \<open>kfree\<close> do to that
  list, to memory and to the locking state; the locale \<open>page_allocator\<close> is the contract the
  clients of the allocator rely on.
\<close>

section \<open>State and operations\<close>

record kmemst = machine +
  kmem_use_lock :: bool
  kmem_freelist :: u32

definition rd32 :: "u32 \<Rightarrow> ('x machine_scheme, u32) kmon" where
  "rd32 a = gets (\<lambda>s. load32 (mem s) a)"

definition wr32 :: "u32 \<Rightarrow> u32 \<Rightarrow> ('x machine_scheme, unit) kmon" where
  "wr32 a v = modify (\<lambda>s. s\<lparr>mem := store32 (mem s) a v\<rparr>)"

definition kmemset :: "u32 \<Rightarrow> u32 \<Rightarrow> u32 \<Rightarrow> ('x machine_scheme, unit) kmon" where
  "kmemset d c n = modify (\<lambda>s. s\<lparr>mem := memset (mem s) d c n\<rparr>)"

definition kmemmove :: "u32 \<Rightarrow> u32 \<Rightarrow> u32 \<Rightarrow> ('x machine_scheme, unit) kmon" where
  "kmemmove d src n = modify (\<lambda>s. s\<lparr>mem := memmove (mem s) d src n\<rparr>)"

definition kmem_lock :: "('x kmemst_scheme, unit) kmon" where
  "kmem_lock = bnd (gets kmem_use_lock) (\<lambda>u. whenk u (acquire LKmem))"

definition kmem_unlock :: "('x kmemst_scheme, unit) kmon" where
  "kmem_unlock = bnd (gets kmem_use_lock) (\<lambda>u. whenk u (release LKmem))"

definition kfree :: "u32 \<Rightarrow> ('x kmemst_scheme, unit) kmon" where
  "kfree v =
     bnd (gets kend) (\<lambda>kernel_end.
     if v mod PGSIZE \<noteq> 0 \<or> v < kernel_end \<or> PHYSTOP \<le> V2P v then panic ''kfree''
     else sq (kmemset v 1 PGSIZE) (
          sq kmem_lock (
          bnd (gets kmem_freelist) (\<lambda>fl.
          sq (wr32 v fl) (
          sq (modify (\<lambda>s. s\<lparr>kmem_freelist := v\<rparr>))
             kmem_unlock)))))"

definition kalloc :: "('x kmemst_scheme, u32) kmon" where
  "kalloc =
     sq kmem_lock (
     bnd (gets kmem_freelist) (\<lambda>r.
     sq (whenk (r \<noteq> 0)
           (bnd (rd32 r) (\<lambda>nxt. modify (\<lambda>s. s\<lparr>kmem_freelist := nxt\<rparr>)))) (
     sq kmem_unlock
        (ret r))))"

text \<open>
  The loop of \<open>freerange\<close> visits page addresses only, of which there are \<open>2 ^ 20\<close>; \<open>kfree\<close> panics
  on a page beyond \<open>PHYSTOP\<close>, so the bound is never reached.
\<close>

primrec freerange_loop :: "nat \<Rightarrow> u32 \<Rightarrow> u32 \<Rightarrow> ('x kmemst_scheme, unit) kmon" where
  "freerange_loop 0 p vend = fail Diverges"
| "freerange_loop (Suc k) p vend =
     (if p + PGSIZE \<le> vend then sq (kfree p) (freerange_loop k (p + PGSIZE) vend) else ret ())"

definition freerange :: "u32 \<Rightarrow> u32 \<Rightarrow> ('x kmemst_scheme, unit) kmon" where
  "freerange vstart vend = freerange_loop 1048576 (PGROUNDUP vstart) vend"

definition kinit1 :: "u32 \<Rightarrow> u32 \<Rightarrow> ('x kmemst_scheme, unit) kmon" where
  "kinit1 vstart vend =
     sq (initlock LKmem ''kmem'') (
     sq (modify (\<lambda>s. s\<lparr>kmem_use_lock := False\<rparr>))
        (freerange vstart vend))"

definition kinit2 :: "u32 \<Rightarrow> u32 \<Rightarrow> ('x kmemst_scheme, unit) kmon" where
  "kinit2 vstart vend =
     sq (freerange vstart vend)
        (modify (\<lambda>s. s\<lparr>kmem_use_lock := True\<rparr>))"

section \<open>Abstraction: the list of free pages\<close>

fun chain :: "bytes \<Rightarrow> u32 \<Rightarrow> u32 list \<Rightarrow> bool" where
  "chain m p [] \<longleftrightarrow> p = 0"
| "chain m p (x # xs) \<longleftrightarrow> p = x \<and> x \<noteq> 0 \<and> chain m (load32 m x) xs"

definition page_ok :: "'x machine_scheme \<Rightarrow> u32 \<Rightarrow> bool" where
  "page_ok s v \<longleftrightarrow> pgaligned v \<and> kend s \<le> v \<and> V2P v < PHYSTOP \<and> v \<noteq> 0"

definition free_pages :: "'x kmemst_scheme \<Rightarrow> u32 list \<Rightarrow> bool" where
  "free_pages s L \<longleftrightarrow>
     chain (mem s) (kmem_freelist s) L \<and> distinct L \<and> (\<forall>v \<in> set L. page_ok s v)"

definition kmem_ready :: "'x kmemst_scheme \<Rightarrow> bool" where
  "kmem_ready s \<longleftrightarrow> kmem_use_lock s \<longrightarrow> can_lock LKmem s"

text \<open>The effect of the allocator's critical section on the rest of the state.\<close>

definition klock :: "'x kmemst_scheme \<Rightarrow> 'x kmemst_scheme" where
  "klock s = (if kmem_use_lock s then bracket LKmem s else s)"

lemma chain_0 [simp]: "chain m 0 L \<longleftrightarrow> L = []"
  by (cases L) auto

lemma chain_nonzero: "p \<noteq> 0 \<Longrightarrow> chain m p L \<longleftrightarrow> (\<exists>xs. L = p # xs \<and> chain m (load32 m p) xs)"
  by (cases L) auto

lemma chain_unique: "chain m p L \<Longrightarrow> chain m p L' \<Longrightarrow> L = L'"
proof (induction L arbitrary: p L')
  case Nil
  then show ?case by simp
next
  case (Cons x L)
  then show ?case by (cases L') auto
qed

lemma chain_cong:
  assumes "\<And>x. x \<in> set L \<Longrightarrow> load32 m x = load32 m' x"
  shows "chain m p L = chain m' p L"
  using assms by (induction L arbitrary: p) auto

lemma free_pages_unique: "free_pages s L \<Longrightarrow> free_pages s L' \<Longrightarrow> L = L'"
  by (auto simp: free_pages_def dest: chain_unique)

lemma page_ok_aligned [simp]: "page_ok s v \<Longrightarrow> pgaligned v"
  by (simp add: page_ok_def)

lemma page_ok_cong: "kend s = kend s' \<Longrightarrow> page_ok s = page_ok s'"
  by (simp add: page_ok_def fun_eq_iff)

section \<open>The operations as state transformers\<close>

lemma kmem_acquired [simp]:
  "kmem_use_lock (acquired l s) = kmem_use_lock s" "kmem_freelist (acquired l s) = kmem_freelist s"
  "kmem_use_lock (released l s) = kmem_use_lock s" "kmem_freelist (released l s) = kmem_freelist s"
  by (simp_all add: acquired_def pushed_def released_def popped_def)

lemma kmem_frame [simp]:
  "cpu_index (s\<lparr>kmem_freelist := v\<rparr>) = cpu_index s"
  "cur_cpu (s\<lparr>kmem_freelist := v\<rparr>) = cur_cpu s"
  "cpu_ok (s\<lparr>kmem_freelist := v\<rparr>) = cpu_ok s"
  "held l (s\<lparr>kmem_freelist := v\<rparr>) = held l s"
  "held l (s\<lparr>mem := m\<rparr>) = held l s"
  "in_lock l (s\<lparr>kmem_freelist := v\<rparr>) = in_lock l s"
  "in_lock l (s\<lparr>mem := m\<rparr>) = in_lock l s"
  "can_lock l (s\<lparr>kmem_freelist := v\<rparr>) = can_lock l s"
  "can_lock l (s\<lparr>mem := m\<rparr>) = can_lock l s"
  by (simp_all add: cpu_ok_def cur_cpu_def cpu_index_def held_def in_lock_def can_lock_def)

lemma released_upd:
  "released l (s\<lparr>kmem_freelist := v\<rparr>) = (released l s)\<lparr>kmem_freelist := v\<rparr>"
  "released l (s\<lparr>mem := m\<rparr>) = (released l s)\<lparr>mem := m\<rparr>"
  by (simp_all add: released_def popped_def cur_cpu_def cpu_index_def)

lemma kalloc_eq:
  assumes "kmem_ready s"
  shows "kalloc s = Inr (kmem_freelist s,
    (klock s)\<lparr>kmem_freelist :=
       (if kmem_freelist s = 0 then 0 else load32 (mem s) (kmem_freelist s))\<rparr>)"
proof (cases "kmem_use_lock s")
  case True
  then have c: "can_lock LKmem s" using assms by (simp add: kmem_ready_def)
  then have ok: "cpu_ok s" "lk_locked (locks s LKmem) = 0" by (simp_all add: can_lock_def)
  from c have i: "in_lock LKmem (acquired LKmem s)" by (rule in_lock_acquired)
  have rel: "release LKmem (acquired LKmem s) = Inr ((), bracket LKmem s)"
    "release LKmem ((acquired LKmem s)\<lparr>kmem_freelist := v\<rparr>)
       = Inr ((), (bracket LKmem s)\<lparr>kmem_freelist := v\<rparr>)" for v
    using i by (simp_all add: release_eq in_lock_def bracket_def released_upd)
  have z: "kmem_freelist s = 0 \<Longrightarrow> bracket LKmem s = (bracket LKmem s)\<lparr>kmem_freelist := 0\<rparr>"
    by (simp add: bracket_def)
  show ?thesis
    using True rel z
    by (auto simp: kalloc_def kmem_lock_def kmem_unlock_def klock_def sq_def bnd_def gets_def
        whenk_def ret_def rd32_def modify_def acquire_eq [OF ok])
next
  case False
  then show ?thesis
    by (auto simp: kalloc_def kmem_lock_def kmem_unlock_def klock_def sq_def bnd_def gets_def
        whenk_def ret_def rd32_def modify_def)
qed

definition kfree_state :: "u32 \<Rightarrow> 'x kmemst_scheme \<Rightarrow> 'x kmemst_scheme" where
  "kfree_state v s =
     (klock (s\<lparr>mem := memset (mem s) v 1 PGSIZE\<rparr>))
       \<lparr>mem := store32 (memset (mem s) v 1 PGSIZE) v (kmem_freelist s), kmem_freelist := v\<rparr>"

lemma kfree_eq:
  assumes "kmem_ready s" and "page_ok s v"
  shows "kfree v s = Inr ((), kfree_state v s)"
proof -
  let ?s = "s\<lparr>mem := memset (mem s) v 1 PGSIZE\<rparr>"
  have g: "\<not> (v mod PGSIZE \<noteq> 0 \<or> v < kend s \<or> PHYSTOP \<le> V2P v)"
    using assms(2) by (auto simp: page_ok_def pgaligned_iff_mod)
  show ?thesis
  proof (cases "kmem_use_lock s")
    case True
    then have c: "can_lock LKmem ?s" using assms(1) by (simp add: kmem_ready_def)
    then have ok: "cpu_ok ?s" "lk_locked (locks ?s LKmem) = 0" by (simp_all add: can_lock_def)
    from c have i: "in_lock LKmem (acquired LKmem ?s)" by (rule in_lock_acquired)
    have rel: "release LKmem ((acquired LKmem ?s)\<lparr>mem := m, kmem_freelist := v\<rparr>)
         = Inr ((), (bracket LKmem ?s)\<lparr>mem := m, kmem_freelist := v\<rparr>)" for m v
      using i by (simp add: release_eq in_lock_def bracket_def released_upd)
    show ?thesis
      using True rel g
      by (simp add: kfree_def kmem_lock_def kmem_unlock_def klock_def sq_def bnd_def gets_def
          whenk_def ret_def wr32_def modify_def kmemset_def acquire_eq [OF ok] kfree_state_def)
  next
    case False
    then show ?thesis
      using g
      by (simp add: kfree_def kmem_lock_def kmem_unlock_def klock_def sq_def bnd_def gets_def
          whenk_def ret_def wr32_def modify_def kmemset_def kfree_state_def)
  qed
qed

lemma kfree_bad_page:
  assumes "\<not> page_ok s v" and "0 < kend s"
  shows "kfree v s = Inl (Panic ''kfree'', s)"
proof -
  have "v mod PGSIZE \<noteq> 0 \<or> v < kend s \<or> PHYSTOP \<le> V2P v"
    using assms by (auto simp: page_ok_def pgaligned_iff_mod not_le not_less)
  then show ?thesis by (simp add: kfree_def bnd_def gets_def panic_def fail_def)
qed

section \<open>Locking state\<close>

lemma lockview_bracket: "can_lock l s \<Longrightarrow> lockview (bracket l s) = lockview s"
  unfolding bracket_def
  by (rule lockview_released) (use in_lock_acquired [of l s] in \<open>simp_all add: in_lock_def\<close>)

lemma bracket_simps [simp]:
  "mem (bracket l s) = mem s" "argp (bracket l s) = argp s"
  "kend (bracket l s) = kend s" "kdata (bracket l s) = kdata s" "cr3 (bracket l s) = cr3 s"
  "length (cpus (bracket l s)) = length (cpus s)"
  "ncpu (bracket l s) = ncpu s" "lapicid (bracket l s) = lapicid s"
  "cpu_index (bracket l s) = cpu_index s"
  by (simp_all add: bracket_def)

lemma cpu_ok_bracket: "can_lock l s \<Longrightarrow> cpu_ok (bracket l s)"
  using in_lock_acquired [of l s] by (simp add: bracket_def in_lock_def cpu_ok_released)

lemma kmem_bracket [simp]:
  "kmem_use_lock (bracket l s) = kmem_use_lock s" "kmem_freelist (bracket l s) = kmem_freelist s"
  by (simp_all add: bracket_def)

lemma klock_simps [simp]:
  "mem (klock s) = mem s" "kend (klock s) = kend s" "kdata (klock s) = kdata s"
  "cr3 (klock s) = cr3 s" "argp (klock s) = argp s" "cpu_index (klock s) = cpu_index s"
  "kmem_use_lock (klock s) = kmem_use_lock s" "kmem_freelist (klock s) = kmem_freelist s"
  by (simp_all add: klock_def)

lemma lockview_klock: "kmem_ready s \<Longrightarrow> lockview (klock s) = lockview s"
  by (simp add: klock_def kmem_ready_def lockview_bracket)

lemma can_lock_lockview:
  assumes "lockview s' = lockview s" and "cpu_ok s'" and "cpu_ok s"
  shows "can_lock l s' = can_lock l s"
proof -
  have "(\<lambda>l. (lk_locked (locks s' l), lk_cpu (locks s' l))) =
      (\<lambda>l. (lk_locked (locks s l), lk_cpu (locks s l)))"
    using assms(1) by (simp add: lockview_def)
  from fun_cong [OF this, of l] show ?thesis using assms(2,3) by (simp add: can_lock_def)
qed

lemma cpu_ok_klock: "kmem_ready s \<Longrightarrow> cpu_ok s \<Longrightarrow> cpu_ok (klock s)"
  by (simp add: klock_def kmem_ready_def cpu_ok_bracket)

lemma lockview_frame [simp]:
  "lockview (s\<lparr>kmem_freelist := v\<rparr>) = lockview s" "lockview (s\<lparr>mem := m\<rparr>) = lockview s"
  by (simp_all add: lockview_def)

lemma kmem_ready_frame [simp]:
  "kmem_ready (s\<lparr>kmem_freelist := v\<rparr>) = kmem_ready s" "kmem_ready (s\<lparr>mem := m\<rparr>) = kmem_ready s"
  by (simp_all add: kmem_ready_def)

lemma kmem_ready_klock: "kmem_ready s \<Longrightarrow> kmem_ready (klock s)"
  by (auto simp: klock_def kmem_ready_def can_lock_lockview lockview_bracket cpu_ok_bracket
      can_lock_def [of LKmem s])

section \<open>Effect on the list of free pages\<close>

definition head0 :: "u32 list \<Rightarrow> u32" where
  "head0 L = (case L of [] \<Rightarrow> 0 | v # _ \<Rightarrow> v)"

definition kalloc_state :: "u32 list \<Rightarrow> 'x kmemst_scheme \<Rightarrow> 'x kmemst_scheme" where
  "kalloc_state L s = (klock s)\<lparr>kmem_freelist := head0 (tl L)\<rparr>"

lemma chain_head0: "chain m p L \<Longrightarrow> p = head0 L"
  by (cases L) (simp_all add: head0_def)

lemma chain_head0I: "chain m p L \<Longrightarrow> chain m (head0 L) L"
  using chain_head0 [of m p L] by simp

lemma kalloc_pages:
  assumes "kmem_ready s" and "free_pages s L"
  shows "kalloc s = Inr (head0 L, kalloc_state L s)"
proof -
  have c: "chain (mem s) (kmem_freelist s) L" using assms(2) by (simp add: free_pages_def)
  then have "(if kmem_freelist s = 0 then 0 else load32 (mem s) (kmem_freelist s)) = head0 (tl L)"
    by (cases L) (auto simp: head0_def dest: chain_head0)
  then show ?thesis
    using chain_head0 [OF c] by (simp add: kalloc_eq [OF assms(1)] kalloc_state_def)
qed

lemma free_pages_kalloc:
  assumes "free_pages s L"
  shows "free_pages (kalloc_state L s) (tl L)"
  using assms
  by (cases L) (auto simp: free_pages_def kalloc_state_def page_ok_def dest: chain_head0I,
      simp add: head0_def)

lemma mem_kfree_state:
  "mem (kfree_state v s) = store32 (memset (mem s) v 1 PGSIZE) v (kmem_freelist s)"
  by (simp add: kfree_state_def)

lemma kfree_state_other_page:
  assumes "pgaligned v" and "pg x \<noteq> pg v"
  shows "mem (kfree_state v s) x = mem s x"
  using assms by (simp add: mem_kfree_state store32_other_page memset_page)

lemma free_pages_kfree:
  assumes "free_pages s L" and "page_ok s v" and "v \<notin> set L"
  shows "free_pages (kfree_state v s) (v # L)"
proof -
  have "load32 (mem (kfree_state v s)) x = load32 (mem s) x" if "x \<in> set L" for x
  proof (rule load32_page_cong)
    from that assms(1) have x: "page_ok s x" by (simp add: free_pages_def)
    then show "waligned x" by simp
    fix y
    assume "pg y = pg x"
    moreover have "x \<noteq> v" using that assms(3) by auto
    ultimately have "pg y \<noteq> pg v"
      using x assms(2) by (metis page_ok_aligned pgaligned_eq_pg)
    then show "mem (kfree_state v s) y = mem s y"
      using assms(2) by (simp add: kfree_state_other_page)
  qed
  then have "chain (mem (kfree_state v s)) (kmem_freelist s) L"
    using assms(1) chain_cong [of L "mem (kfree_state v s)" "mem s"] by (simp add: free_pages_def)
  moreover have "load32 (mem (kfree_state v s)) v = kmem_freelist s"
    by (simp add: mem_kfree_state)
  moreover have "kend (kfree_state v s) = kend s" and "kmem_freelist (kfree_state v s) = v"
    by (simp_all add: kfree_state_def)
  ultimately show ?thesis
    using assms by (simp add: free_pages_def page_ok_def)
qed

lemma ready_states:
  assumes "kmem_ready s"
  shows "kmem_ready (kalloc_state L s)" and "kmem_ready (kfree_state v s)"
  using assms by (simp_all add: kalloc_state_def kfree_state_def kmem_ready_klock)

lemma page_ok_states [simp]:
  "page_ok (kalloc_state L s) = page_ok s" "page_ok (kfree_state v s) = page_ok s"
  "mem (kalloc_state L s) = mem s" "kend (kalloc_state L s) = kend s"
  "kend (kfree_state v s) = kend s"
  by (simp_all add: kalloc_state_def kfree_state_def page_ok_def fun_eq_iff)

section \<open>The allocator's contract\<close>

locale page_allocator =
  fixes alloc :: "('s, u32) kmon"
    and free :: "u32 \<Rightarrow> ('s, unit) kmon"
    and pages :: "'s \<Rightarrow> u32 list \<Rightarrow> bool"
    and ready :: "'s \<Rightarrow> bool"
    and ok :: "'s \<Rightarrow> u32 \<Rightarrow> bool"
    and memory :: "'s \<Rightarrow> bytes"
  assumes alloc_page: "ready s \<Longrightarrow> pages s (v # L) \<Longrightarrow>
      \<exists>s'. alloc s = Inr (v, s') \<and> pages s' L \<and> ready s' \<and> memory s' = memory s \<and> ok s' = ok s"
    and alloc_none: "ready s \<Longrightarrow> pages s [] \<Longrightarrow>
      \<exists>s'. alloc s = Inr (0, s') \<and> pages s' [] \<and> ready s' \<and> memory s' = memory s \<and> ok s' = ok s"
    and free_page: "ready s \<Longrightarrow> pages s L \<Longrightarrow> ok s v \<Longrightarrow> v \<notin> set L \<Longrightarrow>
      \<exists>s'. free v s = Inr ((), s') \<and> pages s' (v # L) \<and> ready s' \<and> ok s' = ok s
        \<and> (\<forall>x. pg x \<noteq> pg v \<longrightarrow> memory s' x = memory s x)"
    and pages_sound: "pages s L \<Longrightarrow> distinct L \<and> (\<forall>v \<in> set L. ok s v)"
begin

lemma free_then_alloc:
  assumes "ready s" "pages s L" "ok s v" "v \<notin> set L"
  shows "\<exists>s'. bnd (free v) (\<lambda>_. alloc) s = Inr (v, s') \<and> pages s' L
    \<and> (\<forall>x. pg x \<noteq> pg v \<longrightarrow> memory s' x = memory s x)"
proof -
  obtain t where t: "free v s = Inr ((), t)" "pages t (v # L)" "ready t"
    "\<forall>x. pg x \<noteq> pg v \<longrightarrow> memory t x = memory s x"
    using free_page [OF assms] by blast
  obtain u where "alloc t = Inr (v, u)" "pages u L" "memory u = memory t"
    using alloc_page [OF t(3,2)] by blast
  with t show ?thesis by (auto simp: bnd_def)
qed

lemma alloc_then_free:
  assumes "ready s" "pages s (v # L)"
  shows "\<exists>s'. bnd alloc free s = Inr ((), s') \<and> pages s' (v # L)"
proof -
  obtain t where t: "alloc s = Inr (v, t)" "pages t L" "ready t" "ok t = ok s"
    using alloc_page [OF assms] by blast
  have "ok t v" and "v \<notin> set L" using pages_sound [OF assms(2)] t(4) by auto
  from free_page [OF t(3,2) this] t(1) show ?thesis by (auto simp: bnd_def)
qed

lemma alloc_many:
  assumes "ready s" "pages s (vs @ L)"
  shows "\<exists>s'. repeatk (length vs) alloc s = Inr (vs, s') \<and> pages s' L \<and> ready s'
    \<and> memory s' = memory s"
  using assms
proof (induction vs arbitrary: s)
  case Nil
  then show ?case by (simp add: ret_def)
next
  case (Cons v vs)
  then obtain t where t: "alloc s = Inr (v, t)" "pages t (vs @ L)" "ready t" "memory t = memory s"
    using alloc_page [of s v "vs @ L"] by auto
  from Cons.IH [OF t(3,2)] t(1,4) show ?case by (auto simp: bnd_def ret_def)
qed

end

interpretation kmem: page_allocator kalloc kfree free_pages kmem_ready page_ok mem
proof unfold_locales
  fix s :: "'a kmemst_scheme" and v L
  show "kmem_ready s \<Longrightarrow> free_pages s (v # L) \<Longrightarrow>
    \<exists>s'. kalloc s = Inr (v, s') \<and> free_pages s' L \<and> kmem_ready s' \<and> mem s' = mem s \<and> page_ok s' = page_ok s"
    using free_pages_kalloc [of s "v # L"]
    by (auto simp: kalloc_pages head0_def ready_states)
  show "kmem_ready s \<Longrightarrow> free_pages s [] \<Longrightarrow>
    \<exists>s'. kalloc s = Inr (0, s') \<and> free_pages s' [] \<and> kmem_ready s' \<and> mem s' = mem s \<and> page_ok s' = page_ok s"
    using free_pages_kalloc [of s "[]"]
    by (auto simp: kalloc_pages head0_def ready_states)
  show "kmem_ready s \<Longrightarrow> free_pages s L \<Longrightarrow> page_ok s v \<Longrightarrow> v \<notin> set L \<Longrightarrow>
    \<exists>s'. kfree v s = Inr ((), s') \<and> free_pages s' (v # L) \<and> kmem_ready s' \<and> page_ok s' = page_ok s
        \<and> (\<forall>x. pg x \<noteq> pg v \<longrightarrow> mem s' x = mem s x)"
    by (simp add: kfree_eq free_pages_kfree ready_states kfree_state_other_page)
  show "free_pages s L \<Longrightarrow> distinct L \<and> (\<forall>v \<in> set L. page_ok s v)"
    by (simp add: free_pages_def)
qed

section \<open>Filling the free list at boot\<close>

definition pages_from :: "u32 \<Rightarrow> nat \<Rightarrow> u32 list" where
  "pages_from p n = map (\<lambda>i. p + of_nat i * PGSIZE) [0..<n]"

lemma pages_from_Suc: "pages_from p (Suc n) = p # pages_from (p + PGSIZE) n"
  unfolding pages_from_def upt_conv_Cons [OF zero_less_Suc] list.map
  by (simp add: map_Suc_upt [symmetric] algebra_simps del: upt_Suc)

lemma unat_V2P: "KERNBASE \<le> v \<Longrightarrow> unat (V2P v) = unat v - 2147483648"
  by (simp add: V2P_def unat_sub)

lemma page_ok_below:
  assumes "pgaligned p" "KERNBASE \<le> kend s" "kend s \<le> p" "unat p < 0x8E000000"
  shows "page_ok s p"
proof -
  have "KERNBASE \<le> p" using assms(2,3) by simp
  then have "unat (V2P p) < unat PHYSTOP" using assms(4) by (simp add: unat_V2P)
  moreover have "p \<noteq> 0" using \<open>KERNBASE \<le> p\<close> by (auto simp: word_le_nat_alt)
  ultimately show ?thesis using assms by (simp add: page_ok_def word_less_nat_alt)
qed

lemma unat_next_page:
  "unat p < 0x8E000000 \<Longrightarrow> unat (p + PGSIZE) = unat p + 4096"
  by (simp add: unat_word_ariths)

lemma pgaligned_next: "pgaligned p \<Longrightarrow> pgaligned (p + PGSIZE)"
proof -
  assume a: "pgaligned p"
  have "unat (p + 4096) mod 4096 = (unat p + 4096) mod 4294967296 mod 4096"
    by (simp add: unat_word_ariths)
  also have "\<dots> = (unat p + 4096) mod 4096" by (rule mod_mod_cancel) simp
  also have "\<dots> = 0" using a by (simp add: pgaligned_def)
  finally show ?thesis by (simp add: pgaligned_def)
qed

lemma freerange_loop_pages:
  assumes "pgaligned p" "kmem_ready s" "free_pages s L" "KERNBASE \<le> kend s" "kend s \<le> p"
    "unat p + 4096 * n \<le> unat vend" "unat vend < unat p + 4096 * n + 4096"
    "unat vend \<le> 0x8E000000" "n < k" "\<forall>v \<in> set L. unat v < unat p \<or> unat vend \<le> unat v"
  shows "\<exists>s'. freerange_loop k p vend s = Inr ((), s') \<and> kmem_ready s'
    \<and> free_pages s' (rev (pages_from p n) @ L)"
  using assms
proof (induction k arbitrary: p s L n)
  case 0
  then show ?case by simp
next
  case (Suc k)
  have p: "unat p \<le> 0x8E000000" using Suc.prems by simp
  show ?case
  proof (cases n)
    case 0
    have "\<not> p + PGSIZE \<le> vend"
      using Suc.prems(7) 0 p by (simp add: word_le_nat_alt unat_word_ariths)
    then show ?thesis using Suc.prems 0 by (simp add: ret_def pages_from_def)
  next
    case (Suc n')
    have lt: "unat p < 0x8E000000" using Suc.prems(6,8) Suc by simp
    have next_le: "p + PGSIZE \<le> vend"
      using Suc.prems(6) Suc unat_next_page [OF lt] by (simp add: word_le_nat_alt)
    have ok: "page_ok s p" using page_ok_below Suc.prems(1,4,5) lt by blast
    have notin: "p \<notin> set L" using Suc.prems(6,10) Suc by fastforce
    let ?s = "kfree_state p s"
    have "\<exists>s'. freerange_loop k (p + PGSIZE) vend ?s = Inr ((), s') \<and> kmem_ready s'
      \<and> free_pages s' (rev (pages_from (p + PGSIZE) n') @ p # L)"
    proof (rule Suc.IH)
      show "kend ?s \<le> p + PGSIZE"
        using Suc.prems(5) unat_next_page [OF lt] by (simp add: word_le_nat_alt)
      show "\<forall>v \<in> set (p # L). unat v < unat (p + PGSIZE) \<or> unat vend \<le> unat v"
        using Suc.prems(10) unat_next_page [OF lt] by fastforce
    qed (use Suc.prems Suc ok notin unat_next_page [OF lt] in
        \<open>simp_all add: pgaligned_next ready_states free_pages_kfree\<close>)
    then show ?thesis
      using next_le Suc by (simp add: sq_def bnd_def kfree_eq [OF Suc.prems(2) ok] pages_from_Suc)
  qed
qed

lemma converges_kfree [intro, simp, cv]: "converges (kfree v)"
  unfolding kfree_def kmem_lock_def kmem_unlock_def kmemset_def wr32_def panic_def
  by (intro converges_bnd converges_sq converges_if converges_whenk) auto

lemma kfree_returns_low: "kfree v s = Inr (x, s') \<Longrightarrow> V2P v < PHYSTOP"
  by (auto simp: kfree_def bnd_def gets_def panic_def fail_def not_le split: if_splits)

lemma V2P_low_next:
  assumes "pgaligned p" "V2P p < PHYSTOP"
  shows "pg (p + PGSIZE) = pg p + 1 \<and> pg p < 1048575"
proof -
  have "unat p \<noteq> 4096 * 1048575"
  proof
    assume "unat p = 4096 * 1048575"
    then have "p = 0xFFFFF000" by (simp add: word_unat_eq_iff)
    then show False using assms(2) by (simp add: V2P_def)
  qed
  moreover obtain k where k: "unat p = 4096 * k" "k < 1048576"
    using assms(1) by (rule pgalignedE)
  ultimately show ?thesis by (simp add: pg_def unat_word_ariths)
qed

lemma freerange_loop_converges:
  assumes "pgaligned p" "1048576 - pg p \<le> k"
  shows "freerange_loop k p vend s \<noteq> Inl (Diverges, s'')"
  using assms
proof (induction k arbitrary: p s)
  case 0
  then show ?case using pg_lt [of p] by simp
next
  case (Suc k)
  show ?case
  proof (cases "kfree p s")
    case (Inl e)
    then have "fst e \<noteq> Diverges" using converges_kfree [of p] by (cases e) (auto simp: converges_def)
    then show ?thesis using Inl by (auto simp: sq_def bnd_def ret_def)
  next
    case (Inr xs)
    then obtain x s' where k: "kfree p s = Inr (x, s')" by (cases xs) auto
    then have "pg (p + PGSIZE) = pg p + 1"
      using V2P_low_next [OF Suc.prems(1)] kfree_returns_low by blast
    then have "freerange_loop k (p + PGSIZE) vend s' \<noteq> Inl (Diverges, s'')"
      using Suc.prems by (intro Suc.IH) (auto intro: pgaligned_next)
    then show ?thesis using k by (simp add: sq_def bnd_def ret_def)
  qed
qed

section \<open>Properties\<close>

text \<open>A machine that has just entered \<open>main\<close>: one CPU, memory clear, no free page.\<close>

definition boot_cpu :: cpu where
  "boot_cpu = \<lparr>c_apicid = 0, c_scheduler = 0, c_ts = \<lparr>ts_esp0 = 0, ts_ss0 = 0, ts_iomb = 0\<rparr>, c_gdt = [], c_started = 0,
     c_ncli = 0, c_intena = False, c_proc = None\<rparr>"

definition boot_lock :: spinlock where
  "boot_lock = \<lparr>lk_locked = 0, lk_name = [], lk_cpu = None, lk_pcs = replicate 10 0\<rparr>"

definition boot_kmem :: kmemst where
  "boot_kmem =
     \<lparr>mem = (\<lambda>_. 0), eflags_IF = False, lapicid = 0, cpus = [boot_cpu], ncpu = 1, cr3 = 0, tr = 0,
      gdtr = None, klog = [], locks = (\<lambda>_. boot_lock), argp = 0, kend = 0x80108000, kdata = 0x80107000,
      kmem_use_lock = True, kmem_freelist = 0\<rparr>"

lemma boot_kmem_ready: "kmem_ready boot_kmem" and boot_kmem_free: "free_pages boot_kmem []"
  by (simp_all add: kmem_ready_def can_lock_def cpu_ok_def cpu_index_def first_index_def cur_cpu_def
      boot_kmem_def boot_cpu_def boot_lock_def free_pages_def)

text \<open>
  C26: a page given back with \<open>kfree\<close> is the page the next \<open>kalloc\<close> returns; the free list is then
  what it was before, and no byte outside that page has changed.
\<close>

theorem kfree_kalloc_roundtrip:
  assumes "kmem_ready s" and "free_pages s L" and "page_ok s v" and "v \<notin> set L"
  shows "\<exists>s'. bnd (kfree v) (\<lambda>_. kalloc) s = Inr (v, s') \<and> free_pages s' L
    \<and> (\<forall>x. pg x \<noteq> pg v \<longrightarrow> mem s' x = mem s x)"
  using assms by (rule kmem.free_then_alloc)

theorem kfree_kalloc_roundtrip_witness:
  "page_ok boot_kmem 0x80400000 \<and>
   (\<exists>s'. bnd (kfree 0x80400000) (\<lambda>_. kalloc) boot_kmem = Inr (0x80400000, s') \<and> free_pages s' [])"
proof -
  have ok: "page_ok boot_kmem 0x80400000"
    by (simp add: page_ok_def pgaligned_def boot_kmem_def V2P_def)
  then show ?thesis
    using kfree_kalloc_roundtrip [OF boot_kmem_ready boot_kmem_free ok] by auto
qed

text \<open>
  C27: \<open>freerange\<close> adds to the free list exactly the whole pages that lie inside the range it is
  given, each once, the highest first, and returns. The hypotheses are how \<open>kinit1\<close> and \<open>kinit2\<close>
  are called: the range lies between the end of the kernel image and the top of physical memory and
  none of its pages is free already.
\<close>

theorem freerange_frees_pages:
  assumes "kmem_ready s" and "free_pages s L" and "KERNBASE \<le> kend s" and "kend s \<le> vstart"
    and "PGROUNDUP vstart \<le> vend" and "vend \<le> P2V PHYSTOP" and "vstart \<le> P2V PHYSTOP"
    and "\<forall>v \<in> set L. v < vstart \<or> vend \<le> v"
  shows "\<exists>s'. freerange vstart vend s = Inr ((), s') \<and> kmem_ready s'
    \<and> free_pages s' (rev (pages_from (PGROUNDUP vstart)
        ((unat vend - unat (PGROUNDUP vstart)) div 4096)) @ L)"
proof -
  let ?p = "PGROUNDUP vstart"
  have top: "unat vend \<le> 0x8E000000" "unat vstart \<le> 0x8E000000"
    using assms(6,7) by (simp_all add: P2V_def word_le_nat_alt)
  have up: "unat vstart \<le> unat ?p"
    using unat_PGROUNDUP [of vstart] top(2) by simp
  show ?thesis
    unfolding freerange_def
  proof (rule freerange_loop_pages)
    show "kend s \<le> ?p" using assms(4) up by (simp add: word_le_nat_alt)
    show "\<forall>v \<in> set L. unat v < unat ?p \<or> unat vend \<le> unat v"
      using assms(8) up by (fastforce simp: word_less_nat_alt word_le_nat_alt)
    have le: "unat ?p \<le> unat vend" using assms(5) by (simp add: word_le_nat_alt)
    then show "unat ?p + 4096 * ((unat vend - unat ?p) div 4096) \<le> unat vend"
      using div_times_less_eq_dividend [of "unat vend - unat ?p" 4096] by simp
    show "unat vend < unat ?p + 4096 * ((unat vend - unat ?p) div 4096) + 4096"
      using le dividend_less_times_div [of 4096 "unat vend - unat ?p"] by simp
    show "(unat vend - unat ?p) div 4096 < 1048576" using top by simp
  qed (use assms top in simp_all)
qed

theorem freerange_frees_pages_witness:
  "\<exists>s'. freerange 0x80400001 0x80403000 boot_kmem = Inr ((), s')
     \<and> free_pages s' [0x80402000, 0x80401000]"
proof -
  have "PGROUNDUP 0x80400001 = 0x80401000" by (simp add: PGROUNDUP_def)
  moreover have "rev (pages_from 0x80401000 2) @ [] = [0x80402000, 0x80401000]"
    by (simp add: pages_from_def upt_rec)
  ultimately show ?thesis
    using freerange_frees_pages [OF boot_kmem_ready boot_kmem_free, of "0x80400001" "0x80403000"]
    by (auto simp: P2V_def boot_kmem_def)
qed


end
