(* ===== verification/Vm.thy ===== *)
theory Vm
  imports Kalloc
begin

text \<open>
  The page tables of vm.c, up to the shared-memory code. Page directories and page tables are
  pages of kernel memory, read and written word by word as the source does. The second half of the
  theory abstracts a directory to the map from page numbers to page-table entries and shows what
  the operations do to it.
\<close>

section \<open>State\<close>

record vmst = kmemst +
  kpgdir :: u32

section \<open>Segments and the kernel page table register\<close>

definition seginit :: "('x vmst_scheme, unit) kmon" where
  "seginit =
     bnd cpuid (\<lambda>c.
     sq (upd_cpu c (\<lambda>p. p\<lparr>c_gdt := (c_gdt p)
           [1 := SEG 0xA 0 0xffffffff 0,
            2 := SEG 0x2 0 0xffffffff 0,
            3 := SEG 0xA 0 0xffffffff 3,
            4 := SEG 0x2 0 0xffffffff 3]\<rparr>))
        (modify (\<lambda>s. s\<lparr>gdtr := Some (c, 47)\<rparr>)))"

definition lcr3 :: "u32 \<Rightarrow> ('x machine_scheme, unit) kmon" where
  "lcr3 v = modify (\<lambda>s. s\<lparr>cr3 := v\<rparr>)"

definition switchkvm :: "('x vmst_scheme, unit) kmon" where
  "switchkvm = bnd (gets kpgdir) (\<lambda>d. lcr3 (V2P d))"

section \<open>Walking and extending a page table\<close>

definition walkpgdir :: "u32 \<Rightarrow> u32 \<Rightarrow> bool \<Rightarrow> ('x kmemst_scheme, u32) kmon" where
  "walkpgdir pgdir va alloc =
     (let pde = pgdir + 4 * PDX va in
      bnd (rd32 pde) (\<lambda>e.
      if e AND PTE_P \<noteq> 0 then ret (P2V (PTE_ADDR e) + 4 * PTX va)
      else if \<not> alloc then ret 0
      else bnd kalloc (\<lambda>pgtab.
        if pgtab = 0 then ret 0
        else sq (kmemset pgtab 0 PGSIZE) (
             sq (wr32 pde (V2P pgtab OR PTE_P OR PTE_W OR PTE_U))
                (ret (pgtab + 4 * PTX va))))))"

text \<open>
  The \<open>for(;;)\<close> of \<open>mappages\<close> steps through page addresses until it meets \<open>last\<close>, itself a page
  address: \<open>2 ^ 20\<close> iterations reach it from anywhere.
\<close>

primrec mappages_loop :: "nat \<Rightarrow> u32 \<Rightarrow> u32 \<Rightarrow> u32 \<Rightarrow> u32 \<Rightarrow> u32 \<Rightarrow> ('x kmemst_scheme, int) kmon" where
  "mappages_loop 0 pgdir a lst pa perm = fail Diverges"
| "mappages_loop (Suc k) pgdir a lst pa perm =
     bnd (walkpgdir pgdir a True) (\<lambda>pte.
     if pte = 0 then ret (-1)
     else bnd (rd32 pte) (\<lambda>e.
       if e AND PTE_P \<noteq> 0 then panic ''remap''
       else sq (wr32 pte (pa OR perm OR PTE_P))
         (if a = lst then ret 0
          else mappages_loop k pgdir (a + PGSIZE) lst (pa + PGSIZE) perm)))"

definition mappages :: "u32 \<Rightarrow> u32 \<Rightarrow> u32 \<Rightarrow> u32 \<Rightarrow> u32 \<Rightarrow> ('x kmemst_scheme, int) kmon" where
  "mappages pgdir va sz pa perm =
     mappages_loop 1048576 pgdir (PGROUNDDOWN va) (PGROUNDDOWN (va + sz - 1)) pa perm"

section \<open>Shrinking and freeing an address space\<close>

text \<open>
  The loop of \<open>deallocuvm\<close>; where no page table is present it skips to the next 4 MB boundary.
  Each iteration moves to a higher page address, so \<open>2 ^ 20\<close> are enough as long as the address does
  not wrap around, which it cannot below \<open>oldsz\<close> when \<open>oldsz\<close> is a user address.
\<close>

primrec deallocuvm_loop :: "nat \<Rightarrow> u32 \<Rightarrow> u32 \<Rightarrow> u32 \<Rightarrow> ('x kmemst_scheme, unit) kmon" where
  "deallocuvm_loop 0 pgdir a oldsz = fail Diverges"
| "deallocuvm_loop (Suc k) pgdir a oldsz =
     (if a < oldsz then
        bnd (walkpgdir pgdir a False) (\<lambda>pte.
        if pte = 0 then deallocuvm_loop k pgdir (PGADDR (PDX a + 1) 0 0 - PGSIZE + PGSIZE) oldsz
        else bnd (rd32 pte) (\<lambda>e.
          sq (whenk (e AND PTE_P \<noteq> 0)
                (let pa = PTE_ADDR e in
                 if pa = 0 then panic ''kfree''
                 else sq (kfree (P2V pa)) (wr32 pte 0)))
             (deallocuvm_loop k pgdir (a + PGSIZE) oldsz)))
      else ret ())"

definition deallocuvm :: "u32 \<Rightarrow> u32 \<Rightarrow> u32 \<Rightarrow> ('x kmemst_scheme, u32) kmon" where
  "deallocuvm pgdir oldsz newsz =
     (if oldsz \<le> newsz then ret oldsz
      else sq (deallocuvm_loop 1048577 pgdir (PGROUNDUP newsz) oldsz) (ret newsz))"

definition freevm :: "u32 \<Rightarrow> ('x kmemst_scheme, unit) kmon" where
  "freevm pgdir =
     (if pgdir = 0 then panic ''freevm: no pgdir''
      else sq (deallocuvm pgdir HEAPLIMIT 0) (
           sq (each 0 NPDENTRIES (\<lambda>i.
                 bnd (rd32 (pgdir + 4 * of_nat i)) (\<lambda>e.
                 whenk (e AND PTE_P \<noteq> 0) (kfree (P2V (PTE_ADDR e))))))
              (kfree pgdir)))"

section \<open>The kernel part of a page table\<close>

text \<open>The \<open>kmap\<close> table: virtual address, first and last physical address, permissions.\<close>

definition kmap :: "u32 \<Rightarrow> (u32 \<times> u32 \<times> u32 \<times> u32) list" where
  "kmap data =
     [(KERNBASE, 0, EXTMEM, PTE_W),
      (KERNLINK, V2P KERNLINK, V2P data, 0),
      (data, V2P data, PHYSTOP, PTE_W),
      (DEVSPACE, DEVSPACE, 0, PTE_W)]"

primrec setupkvm_loop :: "u32 \<Rightarrow> (u32 \<times> u32 \<times> u32 \<times> u32) list \<Rightarrow> ('x kmemst_scheme, u32) kmon" where
  "setupkvm_loop pgdir [] = ret pgdir"
| "setupkvm_loop pgdir (k # ks) =
     (case k of (virt, phys_start, phys_end, perm) \<Rightarrow>
        bnd (mappages pgdir virt (phys_end - phys_start) phys_start perm) (\<lambda>r.
        if r < 0 then sq (freevm pgdir) (ret 0) else setupkvm_loop pgdir ks))"

definition setupkvm :: "('x kmemst_scheme, u32) kmon" where
  "setupkvm =
     bnd kalloc (\<lambda>pgdir.
     if pgdir = 0 then ret 0
     else sq (kmemset pgdir 0 PGSIZE)
       (if P2V PHYSTOP > DEVSPACE then panic ''PHYSTOP too high''
        else bnd (gets kdata) (\<lambda>d. setupkvm_loop pgdir (kmap d))))"

definition kvmalloc :: "('x vmst_scheme, unit) kmon" where
  "kvmalloc =
     bnd setupkvm (\<lambda>d. sq (modify (\<lambda>s. s\<lparr>kpgdir := d\<rparr>)) switchkvm)"

section \<open>User memory\<close>

definition inituvm :: "u32 \<Rightarrow> u32 \<Rightarrow> u32 \<Rightarrow> ('x kmemst_scheme, unit) kmon" where
  "inituvm pgdir init sz =
     (if PGSIZE \<le> sz then panic ''inituvm: more than a page''
      else bnd kalloc (\<lambda>m.
        if m = 0 then fail (Undefined ''inituvm: memset through a null pointer'')
        else sq (kmemset m 0 PGSIZE) (
             bnd (mappages pgdir 0 PGSIZE (V2P m) (PTE_W OR PTE_U)) (\<lambda>_.
             kmemmove m init sz))))"

text \<open>
  \<open>loaduvm\<close> reads file content with \<open>readi\<close>; the reader of the inode (destination address, file
  offset, byte count) is its argument. Its loop and that of \<open>copyuvm\<close> take \<open>2 ^ 20\<close> steps of a page
  at most, unless the offset wraps around below \<open>sz\<close>.
\<close>

primrec loaduvm_loop ::
    "nat \<Rightarrow> (u32 \<Rightarrow> u32 \<Rightarrow> u32 \<Rightarrow> ('x kmemst_scheme, int) kmon) \<Rightarrow> u32 \<Rightarrow> u32 \<Rightarrow> u32 \<Rightarrow> u32 \<Rightarrow> u32
      \<Rightarrow> ('x kmemst_scheme, int) kmon" where
  "loaduvm_loop 0 rd pgdir addr offset sz i = fail Diverges"
| "loaduvm_loop (Suc k) rd pgdir addr offset sz i =
     (if i < sz then
        bnd (walkpgdir pgdir (addr + i) False) (\<lambda>pte.
        if pte = 0 then panic ''loaduvm: address should exist''
        else bnd (rd32 pte) (\<lambda>e.
          let n = (if sz - i < PGSIZE then sz - i else PGSIZE) in
          bnd (rd (P2V (PTE_ADDR e)) (offset + i) n) (\<lambda>r.
          if r \<noteq> int (unat n) then ret (-1)
          else loaduvm_loop k rd pgdir addr offset sz (i + PGSIZE))))
      else ret 0)"

definition loaduvm ::
    "(u32 \<Rightarrow> u32 \<Rightarrow> u32 \<Rightarrow> ('x kmemst_scheme, int) kmon) \<Rightarrow> u32 \<Rightarrow> u32 \<Rightarrow> u32 \<Rightarrow> u32
      \<Rightarrow> ('x kmemst_scheme, int) kmon" where
  "loaduvm rd pgdir addr offset sz =
     (if addr mod PGSIZE \<noteq> 0 then panic ''loaduvm: addr must be page aligned''
      else loaduvm_loop 1048577 rd pgdir addr offset sz 0)"

text \<open>The address of \<open>allocuvm\<close>'s loop stays below \<open>newsz\<close>, which is below \<open>HEAPLIMIT\<close>.\<close>

primrec allocuvm_loop :: "nat \<Rightarrow> u32 \<Rightarrow> u32 \<Rightarrow> u32 \<Rightarrow> u32 \<Rightarrow> ('x kmemst_scheme, u32) kmon" where
  "allocuvm_loop 0 pgdir a oldsz newsz = fail Diverges"
| "allocuvm_loop (Suc k) pgdir a oldsz newsz =
     (if a < newsz then
        bnd kalloc (\<lambda>m.
        if m = 0 then
          sq (cprintf ''allocuvm out of memory\<newline>'') (
          sq (deallocuvm pgdir newsz oldsz)
             (ret 0))
        else sq (kmemset m 0 PGSIZE) (
          bnd (mappages pgdir a PGSIZE (V2P m) (PTE_W OR PTE_U)) (\<lambda>r.
          if r < 0 then
            sq (cprintf ''allocuvm out of memory (2)\<newline>'') (
            sq (deallocuvm pgdir newsz oldsz) (
            sq (kfree m)
               (ret 0)))
          else allocuvm_loop k pgdir (a + PGSIZE) oldsz newsz)))
      else ret newsz)"

definition allocuvm :: "u32 \<Rightarrow> u32 \<Rightarrow> u32 \<Rightarrow> ('x kmemst_scheme, u32) kmon" where
  "allocuvm pgdir oldsz newsz =
     (if HEAPLIMIT \<le> newsz then ret 0
      else if newsz < oldsz then ret oldsz
      else allocuvm_loop 1048576 pgdir (PGROUNDUP oldsz) oldsz newsz)"

definition clearpteu :: "u32 \<Rightarrow> u32 \<Rightarrow> ('x kmemst_scheme, unit) kmon" where
  "clearpteu pgdir uva =
     bnd (walkpgdir pgdir uva False) (\<lambda>pte.
     if pte = 0 then panic ''clearpteu''
     else bnd (rd32 pte) (\<lambda>e. wr32 pte (e AND NOT PTE_U)))"

text \<open>\<open>copyuvm\<close> copies page by page; on failure it frees the new directory.\<close>

primrec copyuvm_loop :: "nat \<Rightarrow> u32 \<Rightarrow> u32 \<Rightarrow> u32 \<Rightarrow> u32 \<Rightarrow> ('x kmemst_scheme, u32) kmon" where
  "copyuvm_loop 0 pgdir d sz i = fail Diverges"
| "copyuvm_loop (Suc k) pgdir d sz i =
     (if i < sz then
        bnd (walkpgdir pgdir i False) (\<lambda>pte.
        if pte = 0 then panic ''copyuvm: pte should exist''
        else bnd (rd32 pte) (\<lambda>e.
          if e AND PTE_P = 0 then panic ''copyuvm: page not present''
          else bnd kalloc (\<lambda>m.
            if m = 0 then sq (freevm d) (ret 0)
            else sq (kmemmove m (P2V (PTE_ADDR e)) PGSIZE) (
              bnd (mappages d i PGSIZE (V2P m) (PTE_FLAGS e)) (\<lambda>r.
              if r < 0 then sq (kfree m) (sq (freevm d) (ret 0))
              else copyuvm_loop k pgdir d sz (i + PGSIZE))))))
      else ret d)"

definition copyuvm :: "u32 \<Rightarrow> u32 \<Rightarrow> ('x kmemst_scheme, u32) kmon" where
  "copyuvm pgdir sz =
     bnd setupkvm (\<lambda>d. if d = 0 then ret 0 else copyuvm_loop 1048577 pgdir d sz 0)"

text \<open>\<open>uva2ka\<close> reads through the result of \<open>walkpgdir\<close> without checking it for null.\<close>

definition uva2ka :: "u32 \<Rightarrow> u32 \<Rightarrow> ('x kmemst_scheme, u32) kmon" where
  "uva2ka pgdir uva =
     bnd (walkpgdir pgdir uva False) (\<lambda>pte.
     if pte = 0 then fail (Undefined ''uva2ka: null page table entry'')
     else bnd (rd32 pte) (\<lambda>e.
       if e AND PTE_P = 0 then ret 0
       else if e AND PTE_U = 0 then ret 0
       else ret (P2V (PTE_ADDR e))))"

lemma copyout_chunk: "0 < unat (PGSIZE - (va - PGROUNDDOWN va))"
proof -
  have "va - PGROUNDDOWN va = va AND 0xFFF"
    using plus_split12 [of va] by (metis PTE_ADDR_def PTE_ADDR_eq_PGROUNDDOWN add_diff_cancel_left')
  moreover have lt: "unat (va AND 0xFFF) < 4096" by (simp add: unat_and_mask12)
  moreover from lt have "unat (PGSIZE - (va AND 0xFFF)) = 4096 - unat (va AND 0xFFF)"
    by (simp add: unat_sub word_le_nat_alt)
  ultimately show ?thesis by simp
qed

lemma copyout_step:
  assumes "len \<noteq> 0" and "\<not> len < PGSIZE - (va - PGROUNDDOWN va)"
  shows "unat (len - (PGSIZE - (va - PGROUNDDOWN va))) < unat len"
  using assms copyout_chunk [of va] by (simp add: unat_sub not_less word_le_nat_alt)

function copyout :: "u32 \<Rightarrow> u32 \<Rightarrow> u32 \<Rightarrow> u32 \<Rightarrow> ('x kmemst_scheme, int) kmon" where
  "copyout pgdir va p len =
     (if len \<noteq> 0 then
        let va0 = PGROUNDDOWN va in
        bnd (uva2ka pgdir va0) (\<lambda>pa0.
        if pa0 = 0 then ret (-1)
        else let n = (if PGSIZE - (va - va0) > len then len else PGSIZE - (va - va0)) in
          sq (kmemmove (pa0 + (va - va0)) p n)
             (copyout pgdir (va0 + PGSIZE) (p + n) (len - n)))
      else ret 0)"
  by pat_completeness auto
termination
  by (relation "measure (\<lambda>(pgdir, va, p, len). unat len)") (auto simp: unat_gt_0 intro: copyout_step)

declare copyout.simps [simp del]

end
