(* ===== verification/Pagetable.thy ===== *)
theory Pagetable
  imports Vm "HOL-Library.Sublist"
begin

text \<open>
  The abstraction of a two-level page table: the function from virtual addresses to page-table
  entries that a directory in memory denotes, the pages that the directory and its tables occupy,
  and the invariant that keeps those pages apart from each other and from the free list. Against
  it, \<open>walkpgdir\<close> is a lookup and \<open>mappages\<close> a function update on a range of pages; both touch no
  other memory and lose no page.
\<close>

section \<open>Entries and the pages that hold them\<close>

definition pde :: "bytes \<Rightarrow> u32 \<Rightarrow> u32 \<Rightarrow> u32" where
  "pde m d i = load32 m (d + 4 * i)"

definition ptab :: "bytes \<Rightarrow> u32 \<Rightarrow> u32 \<Rightarrow> u32" where
  "ptab m d i = P2V (PTE_ADDR (pde m d i))"

definition tables :: "bytes \<Rightarrow> u32 \<Rightarrow> u32 set" where
  "tables m d = {i. unat i < 1024 \<and> pde m d i AND PTE_P \<noteq> 0}"

definition pte :: "bytes \<Rightarrow> u32 \<Rightarrow> u32 \<Rightarrow> u32" where
  "pte m d va =
     (if PDX va \<in> tables m d then load32 m (ptab m d (PDX va) + 4 * PTX va) else 0)"

definition owned :: "bytes \<Rightarrow> u32 \<Rightarrow> u32 set" where
  "owned m d = insert d (ptab m d ` tables m d)"

definition pt_ok :: "'x machine_scheme \<Rightarrow> u32 \<Rightarrow> bool" where
  "pt_ok s d \<longleftrightarrow>
     page_ok s d \<and> (\<forall>i \<in> tables (mem s) d. page_ok s (ptab (mem s) d i) \<and> ptab (mem s) d i \<noteq> d)
       \<and> inj_on (ptab (mem s) d) (tables (mem s) d)"

definition vm_inv :: "'x kmemst_scheme \<Rightarrow> u32 \<Rightarrow> u32 list \<Rightarrow> bool" where
  "vm_inv s d L \<longleftrightarrow>
     kmem_ready s \<and> free_pages s L \<and> pt_ok s d \<and> owned (mem s) d \<inter> set L = {}"

lemma pgaligned_ptab [simp]: "pgaligned (ptab m d i)"
  by (simp add: ptab_def PTE_ADDR_eq_PGROUNDDOWN)

lemma tables_lt: "i \<in> tables m d \<Longrightarrow> unat i < 1024"
  by (simp add: tables_def)

lemma owned_aligned: "pgaligned d \<Longrightarrow> x \<in> owned m d \<Longrightarrow> pgaligned x"
  by (auto simp: owned_def)

lemma pt_ok_dir: "pt_ok s d \<Longrightarrow> page_ok s d"
  by (simp add: pt_ok_def)

lemma owned_page_ok: "pt_ok s d \<Longrightarrow> x \<in> owned (mem s) d \<Longrightarrow> page_ok s x"
  by (auto simp: pt_ok_def owned_def)

lemma pte_same_page: "pg a = pg b \<Longrightarrow> pte m d a = pte m d b"
  using PDX_PTX_eq_iff [of a b] by (simp add: pte_def)

text \<open>Only the pages of the directory and of its tables matter.\<close>

lemma pde_cong:
  assumes "pgaligned d" "unat i < 1024" "\<And>x. pg x = pg d \<Longrightarrow> m' x = m x"
  shows "pde m' d i = pde m d i"
  unfolding pde_def
  by (rule load32_page_cong) (use assms in \<open>simp_all add: waligned_off pg_entry\<close>)

lemma tables_cong:
  assumes "pgaligned d" "\<And>x. pg x = pg d \<Longrightarrow> m' x = m x"
  shows "tables m' d = tables m d" and "i \<in> tables m d \<Longrightarrow> ptab m' d i = ptab m d i"
  using pde_cong [OF assms(1) _ assms(2)] by (auto simp: tables_def ptab_def)

lemma pt_cong:
  assumes "pgaligned d" and eq: "\<And>x. pg x \<in> pg ` owned m d \<Longrightarrow> m' x = m x"
  shows "tables m' d = tables m d" "i \<in> tables m d \<Longrightarrow> ptab m' d i = ptab m d i"
    "pte m' d = pte m d" "owned m' d = owned m d"
proof -
  have dir: "m' x = m x" if "pg x = pg d" for x
    using that by (intro eq) (auto simp: owned_def)
  note t = tables_cong [OF assms(1) dir]
  show "tables m' d = tables m d" "i \<in> tables m d \<Longrightarrow> ptab m' d i = ptab m d i"
    by (rule t; assumption)+
  show "pte m' d = pte m d"
  proof
    fix va
    have "load32 m' (ptab m d (PDX va) + 4 * PTX va) = load32 m (ptab m d (PDX va) + 4 * PTX va)"
      if "PDX va \<in> tables m d"
      by (rule load32_page_cong)
        (use that in \<open>auto simp: waligned_off pg_entry owned_def intro!: eq\<close>)
    with t show "pte m' d va = pte m d va" by (simp add: pte_def)
  qed
  show "owned m' d = owned m d" using t by (auto simp: owned_def)
qed

section \<open>Writing an entry and installing a table\<close>

lemma free_pages_mem:
  assumes "free_pages s L" "\<And>x. pg x \<in> pg ` set L \<Longrightarrow> m' x = mem s x"
  shows "free_pages (s\<lparr>mem := m'\<rparr>) L"
proof -
  have "load32 m' x = load32 (mem s) x" if "x \<in> set L" for x
    using that assms by (intro load32_page_cong) (auto simp: free_pages_def)
  then show ?thesis
    using assms(1) chain_cong [of L m' "mem s"] by (simp add: free_pages_def page_ok_def)
qed

lemma pt_ok_mem:
  assumes "pt_ok s d" "tables m' d = tables (mem s) d"
    "\<And>i. i \<in> tables (mem s) d \<Longrightarrow> ptab m' d i = ptab (mem s) d i"
  shows "pt_ok (s\<lparr>mem := m'\<rparr>) d"
  using assms by (auto simp: pt_ok_def page_ok_def inj_on_def)

lemma page_disjoint:
  assumes "pgaligned x" "pgaligned y" "x \<noteq> y"
  shows "pg x \<noteq> pg y"
  using assms by (simp add: pgaligned_eq_pg)

lemma owned_free_pages:
  assumes "vm_inv s d L" "x \<in> owned (mem s) d"
  shows "pg x \<notin> pg ` set L"
proof
  assume "pg x \<in> pg ` set L"
  then obtain y where y: "y \<in> set L" "pg x = pg y" by auto
  moreover have "pgaligned x" "pgaligned y"
    using assms y by (auto simp: vm_inv_def free_pages_def intro: page_ok_aligned owned_page_ok)
  ultimately have "x = y" by (simp add: pgaligned_eq_pg)
  then show False using assms y by (auto simp: vm_inv_def)
qed

lemma store_pte:
  assumes inv: "vm_inv s d L" and t: "PDX a \<in> tables (mem s) d"
    and m': "m' = store32 (mem s) (ptab (mem s) d (PDX a) + 4 * PTX a) e"
  shows "vm_inv (s\<lparr>mem := m'\<rparr>) d L"
    and "pte m' d = (\<lambda>va. if pg va = pg a then e else pte (mem s) d va)"
    and "owned m' d = owned (mem s) d"
    and "pg x \<noteq> pg (ptab (mem s) d (PDX a)) \<Longrightarrow> m' x = mem s x"
    and "tables m' d = tables (mem s) d"
proof -
  let ?m = "mem s" and ?p = "ptab (mem s) d (PDX a)"
  have ok: "pt_ok s d" using inv by (simp add: vm_inv_def)
  have d: "pgaligned d" by (rule page_ok_aligned [OF pt_ok_dir [OF ok]])
  have p: "?p \<in> owned ?m d" using t by (simp add: owned_def)
  have out: "m' x = ?m x" if "pg x \<noteq> pg ?p" for x
    using that unfolding m' by (intro store32_other_page) (simp_all add: waligned_off pg_entry)
  then show "pg x \<noteq> pg ?p \<Longrightarrow> m' x = ?m x" .
  have "?p \<noteq> d" using ok t unfolding pt_ok_def by blast
  then have "pg d \<noteq> pg ?p" using page_disjoint [OF d pgaligned_ptab] by metis
  then have "m' x = ?m x" if "pg x = pg d" for x
    using that by (intro out) simp
  note tc = tables_cong [OF d this]
  show "tables m' d = tables ?m d" by (rule tc)
  show own: "owned m' d = owned ?m d" using tc by (auto simp: owned_def)
  have "free_pages (s\<lparr>mem := m'\<rparr>) L"
  proof (rule free_pages_mem)
    show "free_pages s L" using inv by (simp only: vm_inv_def)
    show "m' x = ?m x" if "pg x \<in> pg ` set L" for x
      using that owned_free_pages [OF inv p] by (intro out) metis
  qed
  moreover have "pt_ok (s\<lparr>mem := m'\<rparr>) d"
    by (rule pt_ok_mem [OF ok tc])
  ultimately show "vm_inv (s\<lparr>mem := m'\<rparr>) d L"
    using inv own by (simp add: vm_inv_def)
  show "pte m' d = (\<lambda>va. if pg va = pg a then e else pte ?m d va)"
  proof
    fix va
    show "pte m' d va = (if pg va = pg a then e else pte ?m d va)"
    proof (cases "PDX va \<in> tables ?m d")
      case True
      let ?q = "ptab ?m d (PDX va)"
      have "inj_on (ptab ?m d) (tables ?m d)" using ok by (simp add: pt_ok_def)
      from inj_on_eq_iff [OF this True t]
      have slot: "?q + 4 * PTX va = ?p + 4 * PTX a \<longleftrightarrow> pg va = pg a"
        by (simp only: entry_inj [OF pgaligned_ptab PTX_lt pgaligned_ptab PTX_lt] PDX_PTX_eq_iff)
      have w: "waligned (?q + 4 * PTX va)" "waligned (?p + 4 * PTX a)"
        by (simp_all add: waligned_off)
      have "pte m' d va = load32 m' (?q + 4 * PTX va)" and "pte ?m d va = load32 ?m (?q + 4 * PTX va)"
        using True tc by (simp_all add: pte_def)
      then show ?thesis
        using slot load32_store32_other [OF w, of ?m e] by (cases "pg va = pg a") (simp_all add: m')
    next
      case False
      then have "pg va \<noteq> pg a" using t PDX_PTX_eq_iff [of va a] by metis
      then show ?thesis using False tc by (simp add: pte_def)
    qed
  qed
qed

lemma and_1_neq_0:
  assumes "bit (w :: u32) 0"
  shows "w AND 1 \<noteq> 0"
proof
  assume "w AND 1 = 0"
  moreover have "bit (w AND 1) 0" unfolding bit_and_iff using assms by simp
  ultimately have "bit (0 :: u32) 0" by (simp only:)
  then show False by simp
qed

lemma PTE_bits_7: "pgaligned p \<Longrightarrow> PTE_ADDR (p OR 7) = p" "(p OR 7) AND PTE_P \<noteq> (0 :: u32)"
proof -
  show "pgaligned p \<Longrightarrow> PTE_ADDR (p OR 7) = p" by (rule PTE_ADDR_or) simp_all
  have "bit (p OR 7) 0" by (simp add: bit_simps)
  then show "(p OR 7) AND PTE_P \<noteq> (0 :: u32)" by (rule and_1_neq_0)
qed

lemma load32_zero: "load32 (\<lambda>_. 0) a = 0"
  by (simp add: load32_def)

lemma fresh_page:
  assumes "vm_inv s d (v # L)" "x \<in> owned (mem s) d"
  shows "pg x \<noteq> pg v"
  using owned_free_pages [OF assms] by auto

lemma install_table_pde:
  assumes inv: "vm_inv s d (v # L)"
    and m': "m' = store32 (memset (mem s) v 0 PGSIZE) (d + 4 * PDX a) (V2P v OR 7)"
  shows "unat i < 1024 \<Longrightarrow> pde m' d i = (if i = PDX a then V2P v OR 7 else pde (mem s) d i)"
    and "pg x \<noteq> pg d \<Longrightarrow> m' x = (if pg x = pg v then 0 else mem s x)"
proof -
  have v: "pgaligned v" using inv by (auto simp: vm_inv_def free_pages_def)
  have d: "pgaligned d"
    using inv by (auto simp: vm_inv_def intro: page_ok_aligned pt_ok_dir)
  have dv: "pg d \<noteq> pg v" by (rule fresh_page [OF inv]) (simp add: owned_def)
  have off: "waligned (d + 4 * j)" "pg (d + 4 * j) = pg d" if "unat j < 1024" for j
    using that d by (simp_all add: waligned_off pg_entry)
  show "pg x \<noteq> pg d \<Longrightarrow> m' x = (if pg x = pg v then 0 else mem s x)" for x
    unfolding m' using off [of "PDX a"] by (simp add: store32_other_page memset_page v)
  assume i: "unat i < 1024"
  show "pde m' d i = (if i = PDX a then V2P v OR 7 else pde (mem s) d i)"
  proof (cases "i = PDX a")
    case False
    then have "d + 4 * i \<noteq> d + 4 * PDX a" unfolding entry_inj [OF d i d PDX_lt] by simp
    then have "pde m' d i = load32 (memset (mem s) v 0 PGSIZE) (d + 4 * i)"
      unfolding pde_def m' using off i by (intro load32_store32_other) simp_all
    also have "\<dots> = pde (mem s) d i"
      unfolding pde_def using off [OF i] dv v
      by (intro load32_page_cong) (simp_all add: memset_page)
    finally show ?thesis using False by simp
  qed (simp add: pde_def m')
qed

lemma install_table:
  assumes inv: "vm_inv s d (v # L)" and t: "PDX a \<notin> tables (mem s) d"
    and m': "m' = store32 (memset (mem s) v 0 PGSIZE) (d + 4 * PDX a) (V2P v OR 7)"
  shows "tables m' d = insert (PDX a) (tables (mem s) d)"
    and "unat i < 1024 \<Longrightarrow> ptab m' d i = (if i = PDX a then v else ptab (mem s) d i)"
    and "owned m' d = insert v (owned (mem s) d)"
    and "pte m' d = pte (mem s) d"
proof -
  have v: "pgaligned v" using inv by (auto simp: vm_inv_def free_pages_def)
  have ok: "pt_ok s d" using inv by (simp add: vm_inv_def)
  then have d: "pgaligned d" by (rule page_ok_aligned [OF pt_ok_dir])
  note pde = install_table_pde(1) [OF inv m'] and out = install_table_pde(2) [OF inv m']
  show T: "tables m' d = insert (PDX a) (tables (mem s) d)"
    using pde PTE_bits_7(2) [of "V2P v"] by (auto simp: tables_def split: if_splits)
  show P: "ptab m' d i = (if i = PDX a then v else ptab (mem s) d i)" if "unat i < 1024" for i
    using that pde [OF that] v by (simp add: ptab_def PTE_bits_7)
  have Pt: "ptab m' d i = ptab (mem s) d i" if "i \<in> tables (mem s) d" for i
    using that t P [OF tables_lt [OF that]] by auto
  show "owned m' d = insert v (owned (mem s) d)"
    using T P [of "PDX a"] Pt by (auto simp: owned_def)
  show "pte m' d = pte (mem s) d"
  proof
    fix va
    have dv: "pg d \<noteq> pg v" by (rule fresh_page [OF inv]) (simp add: owned_def)
    consider (new) "PDX va = PDX a" | (old) "PDX va \<in> tables (mem s) d" "PDX va \<noteq> PDX a"
      | (none) "PDX va \<notin> tables m' d"
      using T by auto
    then show "pte m' d va = pte (mem s) d va"
    proof cases
      case new
      have "load32 m' (v + 4 * PTX va) = load32 (\<lambda>_. 0) (v + 4 * PTX va)"
        using v dv by (intro load32_page_cong) (simp_all add: waligned_off pg_entry out)
      then show ?thesis using new t T P [of "PDX a"] by (simp add: pte_def load32_zero)
    next
      case old
      let ?p = "ptab (mem s) d (PDX va)"
      have "pg ?p \<noteq> pg v" using old by (intro fresh_page [OF inv]) (simp add: owned_def)
      moreover have "pg ?p \<noteq> pg d"
        using old ok d by (intro page_disjoint) (auto simp: pt_ok_def)
      ultimately have "load32 m' (?p + 4 * PTX va) = load32 (mem s) (?p + 4 * PTX va)"
        by (intro load32_page_cong) (simp_all add: waligned_off pg_entry out)
      then show ?thesis using old T Pt by (simp add: pte_def)
    next
      case none
      then show ?thesis using T by (simp add: pte_def)
    qed
  qed
qed

section \<open>What the operations leave alone\<close>

text \<open>
  \<open>kframe s s'\<close>: from \<open>s\<close> to \<open>s'\<close> only memory, the free list, the message log and the private
  bookkeeping of the locks have changed. The extension part of the state record, which holds every
  other kernel table, is the same.
\<close>

definition cpu_core :: "cpu \<Rightarrow> cpu" where
  "cpu_core c = c\<lparr>c_ncli := 0, c_intena := False\<rparr>"

definition kframe :: "'x kmemst_scheme \<Rightarrow> 'x kmemst_scheme \<Rightarrow> bool" where
  "kframe s s' \<longleftrightarrow>
     kmemst.more s' = kmemst.more s \<and> lockview s' = lockview s \<and> kend s' = kend s
       \<and> kdata s' = kdata s \<and> cr3 s' = cr3 s \<and> tr s' = tr s \<and> gdtr s' = gdtr s
       \<and> argp s' = argp s \<and> lapicid s' = lapicid s \<and> ncpu s' = ncpu s
       \<and> kmem_use_lock s' = kmem_use_lock s \<and> map cpu_core (cpus s') = map cpu_core (cpus s)
       \<and> (0 < c_ncli (cur_cpu s) \<longrightarrow> c_intena (cur_cpu s') = c_intena (cur_cpu s))"

definition pt_step :: "u32 \<Rightarrow> 'x kmemst_scheme \<Rightarrow> u32 list \<Rightarrow> 'x kmemst_scheme \<Rightarrow> u32 list \<Rightarrow> bool" where
  "pt_step d s L s' L' \<longleftrightarrow>
     kframe s s' \<and> suffix L' L \<and> owned (mem s') d \<union> set L' = owned (mem s) d \<union> set L
       \<and> (\<forall>x. pg x \<notin> pg ` (owned (mem s) d \<union> set L) \<longrightarrow> mem s' x = mem s x)"

lemma kframe_refl [simp]: "kframe s s"
  by (simp add: kframe_def)

lemma kframe_trans [trans]: "kframe s t \<Longrightarrow> kframe t u \<Longrightarrow> kframe s u"
  by (auto simp: kframe_def lockview_def)

lemma kframe_upd [simp]:
  "kframe s (t\<lparr>mem := m\<rparr>) = kframe s t" "kframe s (t\<lparr>kmem_freelist := f\<rparr>) = kframe s t"
  "kframe (s\<lparr>mem := m\<rparr>) t = kframe s t" "kframe (s\<lparr>kmem_freelist := f\<rparr>) t = kframe s t"
  by (simp_all add: kframe_def)

lemma cpu_core_pushpop:
  assumes "i < length cs" "cpu_core c = cpu_core (cs ! i)"
  shows "map cpu_core (cs[i := c]) = map cpu_core cs"
  using assms by (metis list_update_id map_update nth_map)

lemma core_acquired:
  assumes "cpu_ok s"
  shows "map cpu_core (cpus (acquired l s)) = map cpu_core (cpus s)"
proof -
  have "the (cpu_index s) < length (cpus s)" using assms by (simp add: cpu_ok_def)
  then show ?thesis
    unfolding acquired_def pushed_def
    by (simp add: cpu_core_pushpop cpu_core_def cur_cpu_def)
qed

lemma core_released:
  assumes "cpu_ok s"
  shows "map cpu_core (cpus (released l s)) = map cpu_core (cpus s)"
proof -
  have "the (cpu_index s) < length (cpus s)" using assms by (simp add: cpu_ok_def)
  moreover have "cpu_index (s\<lparr>locks := k\<rparr>) = cpu_index s" for k by (simp add: cpu_index_def)
  ultimately show ?thesis
    unfolding released_def popped_def
    by (simp add: cpu_core_pushpop cpu_core_def cur_cpu_def)
qed

lemma more_locking [simp]:
  "kmemst.more (acquired l s) = kmemst.more s" "tr (acquired l s) = tr s"
  "gdtr (acquired l s) = gdtr s" "klog (acquired l s) = klog s"
  "kmemst.more (released l t) = kmemst.more t" "tr (released l t) = tr t"
  "gdtr (released l t) = gdtr t" "klog (released l t) = klog t"
  by (simp_all add: released_def popped_def acquired_def pushed_def)

lemma kframe_bracket: "can_lock l s \<Longrightarrow> kframe s (bracket l s)"
  using in_lock_acquired [of l s]
  by (simp add: kframe_def lockview_bracket)
    (simp add: bracket_def core_acquired core_released in_lock_def can_lock_def cur_cpu_released
      cur_cpu_pushed)

lemma kframe_klock: "kmem_ready s \<Longrightarrow> kframe s (klock s)"
  by (simp add: klock_def kframe_bracket kmem_ready_def)

lemma kframe_states [intro]:
  assumes "kmem_ready s"
  shows "kframe s (kalloc_state L s)" "kframe s (kfree_state v s)"
  using assms kframe_klock [of s] kframe_klock [of "s\<lparr>mem := memset (mem s) v 1 PGSIZE\<rparr>"]
  by (simp_all add: kalloc_state_def kfree_state_def)

text \<open>The executing CPU and the locks are the same on both sides of a frame.\<close>

lemma kframe_cpu:
  assumes f: "kframe s s'" and ok: "cpu_ok s"
  shows "cpu_index s' = cpu_index s" "cpu_core (cur_cpu s') = cpu_core (cur_cpu s)"
    "c_proc (cur_cpu s') = c_proc (cur_cpu s)" "c_ncli (cur_cpu s') = c_ncli (cur_cpu s)" "cpu_ok s'"
proof -
  have core: "map cpu_core (cpus s') = map cpu_core (cpus s)" and n: "ncpu s' = ncpu s"
    and ap: "lapicid s' = lapicid s" using f by (simp_all add: kframe_def)
  then have len: "length (cpus s') = length (cpus s)" by (metis length_map)
  have nth: "cpu_core (cpus s' ! i) = cpu_core (cpus s ! i)" if "i < length (cpus s)" for i
    using core len that by (metis nth_map)
  have apic: "c_apicid (cpus s' ! i) = c_apicid (cpus s ! i)" if "i < length (cpus s)" for i
    using arg_cong [OF nth [OF that], of c_apicid] by (simp add: cpu_core_def)
  obtain c where c: "cpu_index s = Some c" "c < length (cpus s)"
    using ok by (auto simp: cpu_ok_def)
  then have "c < ncpu s" "c_apicid (cpus s ! c) = lapicid s"
    "\<And>j. j < c \<Longrightarrow> c_apicid (cpus s ! j) \<noteq> lapicid s"
    by (auto simp: cpu_index_def first_index_Some)
  then have "cpu_index s' = Some c"
    using c(2) apic n ap unfolding cpu_index_def first_index_Some by auto
  then show i: "cpu_index s' = cpu_index s" using c by simp
  show k: "cpu_core (cur_cpu s') = cpu_core (cur_cpu s)"
    using nth [OF c(2)] c(1) by (simp add: cur_cpu_def i)
  show "c_proc (cur_cpu s') = c_proc (cur_cpu s)"
    using arg_cong [OF k, of c_proc] by (simp add: cpu_core_def)
  show "c_ncli (cur_cpu s') = c_ncli (cur_cpu s)" using f by (simp add: kframe_def lockview_def)
  then show "cpu_ok s'"
    using ok f i len by (auto simp: cpu_ok_def kframe_def lockview_def)
qed

lemma kframe_locks:
  assumes "kframe s s'" "cpu_ok s"
  shows "in_lock l s' = in_lock l s" "can_lock l s' = can_lock l s"
proof -
  have v: "lockview s' = lockview s" using assms(1) by (simp add: kframe_def)
  then have "(\<lambda>l. (lk_locked (locks s' l), lk_cpu (locks s' l))) =
      (\<lambda>l. (lk_locked (locks s l), lk_cpu (locks s l)))" by (simp add: lockview_def)
  from fun_cong [OF this, of l] show "in_lock l s' = in_lock l s"
    using kframe_cpu [OF assms] assms(2) by (simp add: in_lock_def held_def)
  show "can_lock l s' = can_lock l s"
    using can_lock_lockview [OF v] kframe_cpu(5) [OF assms] assms(2) by blast
qed

text \<open>A critical section whose body stays within a frame is itself within a frame.\<close>

lemma kframe_section:
  assumes l: "can_lock l s" and f: "kframe (acquired l s) t"
  shows "in_lock l t" "kframe s (released l t)"
proof -
  have a: "in_lock l (acquired l s)" using l by (rule in_lock_acquired)
  then have ok: "cpu_ok (acquired l s)" "0 < c_ncli (cur_cpu (acquired l s))"
    by (simp_all add: in_lock_def)
  note c = kframe_cpu [OF f ok(1)]
  show i: "in_lock l t" using a kframe_locks(1) [OF f ok(1)] by simp
  have s: "cpu_ok s" using l by (simp add: can_lock_def)
  have v: "lockview t = lockview (acquired l s)" and ie: "c_intena (cur_cpu t) = c_intena (cur_cpu (acquired l s))"
    using f ok by (simp_all add: kframe_def)
  have "lockview (released l t) = lockview s"
    by (rule lockview_released [OF l v _ c(5) ie]) (use c(1) in simp)
  moreover have "map cpu_core (cpus (released l t)) = map cpu_core (cpus s)"
    using f core_released [OF c(5), of l] core_acquired [OF s, of l] by (simp add: kframe_def)
  moreover have "c_intena (cur_cpu (released l t)) = c_intena (cur_cpu s)" if "0 < c_ncli (cur_cpu s)"
    using that ie s c(5) by (simp add: cur_cpu_released cur_cpu_pushed)
  ultimately show "kframe s (released l t)"
    using f by (simp add: kframe_def)
qed

lemma pt_step_refl [simp]: "pt_step d s L s L"
  by (simp add: pt_step_def)

lemma pt_step_trans:
  assumes "pt_step d s L t L'" "pt_step d t L' u L''"
  shows "pt_step d s L u L''"
proof -
  have "mem u x = mem s x" if "pg x \<notin> pg ` (owned (mem s) d \<union> set L)" for x
  proof -
    have "mem t x = mem s x" using assms(1) that unfolding pt_step_def by blast
    moreover have "owned (mem t) d \<union> set L' = owned (mem s) d \<union> set L"
      using assms(1) unfolding pt_step_def by blast
    moreover from this that have "pg x \<notin> pg ` (owned (mem t) d \<union> set L')" by presburger
    ultimately show ?thesis using assms(2) unfolding pt_step_def by metis
  qed
  with assms show ?thesis
    unfolding pt_step_def by (metis kframe_trans suffix_order.trans)
qed

lemma kmem_wpe:
  assumes "kmem_ready s" "free_pages s L"
  shows "wpe kalloc E Q s \<longleftrightarrow> Q (head0 L) (kalloc_state L s)"
  by (rule wpe_ret_eq) (rule kalloc_pages [OF assms])

lemma wpe_rd32 [wp]: "wpe (rd32 a) E Q s \<longleftrightarrow> Q (load32 (mem s) a) s"
  by (simp add: rd32_def wp)

lemma wpe_wr32 [wp]: "wpe (wr32 a v) E Q s \<longleftrightarrow> Q () (s\<lparr>mem := store32 (mem s) a v\<rparr>)"
  by (simp add: wr32_def wp)

lemma wpe_kmemset [wp]: "wpe (kmemset a c n) E Q s \<longleftrightarrow> Q () (s\<lparr>mem := memset (mem s) a c n\<rparr>)"
  by (simp add: kmemset_def wp)

lemma wpe_kmemmove [wp]:
  "wpe (kmemmove a b n) E Q s \<longleftrightarrow> Q () (s\<lparr>mem := memmove (mem s) a b n\<rparr>)"
  by (simp add: kmemmove_def wp)

lemma wpe_panic [wp]: "wpe (panic msg) E Q s \<longleftrightarrow> E (Panic msg) s"
  by (simp add: panic_def wp)

section \<open>Looking up an address\<close>

lemma tables_iff: "PDX a \<in> tables m d \<longleftrightarrow> pde m d (PDX a) AND PTE_P \<noteq> 0"
  by (simp add: tables_def)

lemma walkpgdir_lookup:
  "walkpgdir d a False s =
     Inr (if PDX a \<in> tables (mem s) d then ptab (mem s) d (PDX a) + 4 * PTX a else 0, s)"
  by (simp add: walkpgdir_def bnd_def rd32_def gets_def ret_def Let_def tables_iff pde_def ptab_def)

lemma slot_nonzero:
  assumes "pt_ok s d" "i \<in> tables (mem s) d"
  shows "ptab (mem s) d i + 4 * PTX a \<noteq> 0"
proof -
  have "unat (ptab (mem s) d i) \<noteq> 0"
    using assms by (auto simp: pt_ok_def page_ok_def unat_eq_0)
  then have "unat (ptab (mem s) d i + 4 * PTX a) \<noteq> 0"
    by (simp add: unat_entry)
  then show ?thesis by (metis unat_0)
qed

lemma vm_inv_kalloc:
  assumes "vm_inv s d L"
  shows "vm_inv (kalloc_state L s) d (tl L)"
proof -
  have "set (tl L) \<subseteq> set L" by (cases L) auto
  then show ?thesis
    using assms by (auto simp: vm_inv_def ready_states free_pages_kalloc pt_ok_def)
qed

lemma walkpgdir_install:
  assumes inv: "vm_inv s d (v # L)" and t: "PDX a \<notin> tables (mem s) d"
    and m: "m = store32 (memset (mem s) v 0 PGSIZE) (d + 4 * PDX a) (V2P v OR 7)"
  shows "vm_inv ((kalloc_state (v # L) s)\<lparr>mem := m\<rparr>) d L"
    and "pt_step d s (v # L) ((kalloc_state (v # L) s)\<lparr>mem := m\<rparr>) L"
proof -
  let ?s = "(kalloc_state (v # L) s)\<lparr>mem := m\<rparr>"
  have r: "kmem_ready s" and fp: "free_pages s (v # L)" and ok: "pt_ok s d"
    and disj: "owned (mem s) d \<inter> set (v # L) = {}"
    using inv by (simp_all add: vm_inv_def)
  have v: "page_ok s v" "v \<notin> set L" "\<forall>x \<in> set L. page_ok s x"
    using fp by (auto simp: free_pages_def)
  have d: "d \<in> owned (mem s) d" by (simp add: owned_def)
  note inst = install_table [OF inv t m] and out = install_table_pde(2) [OF inv m]
  have "free_pages ?s L"
  proof (rule free_pages_mem)
    show "free_pages (kalloc_state (v # L) s) L" using free_pages_kalloc [OF fp] by simp
    fix x
    assume x: "pg x \<in> pg ` set L"
    then have "pg x \<noteq> pg d" using owned_free_pages [OF inv d] by auto
    moreover obtain y where y: "y \<in> set L" "pg x = pg y" using x by blast
    then have "pg y \<noteq> pg v"
      using v by (intro page_disjoint page_ok_aligned [of s]) auto
    with y have "pg x \<noteq> pg v" by simp
    ultimately show "m x = mem (kalloc_state (v # L) s) x" using out [of x] by simp
  qed
  moreover have "pt_ok ?s d"
  proof -
    have old: "ptab m d i = ptab (mem s) d i" if "i \<in> tables (mem s) d" for i
      using that t inst(2) [OF tables_lt [OF that]] by auto
    have new: "ptab m d (PDX a) = v" using inst(2) [of "PDX a"] by simp
    have fresh: "v \<notin> ptab (mem s) d ` tables (mem s) d" "v \<noteq> d"
      using disj by (auto simp: owned_def)
    have "ptab m d ` tables (mem s) d = ptab (mem s) d ` tables (mem s) d"
      using old by (rule image_cong [OF refl])
    moreover have "inj_on (ptab m d) (tables (mem s) d)"
      using ok inj_on_cong [of "tables (mem s) d" "ptab m d" "ptab (mem s) d"] old
      by (simp add: pt_ok_def)
    ultimately have "inj_on (ptab m d) (tables m d)"
      using fresh t new by (simp add: inst(1) inj_on_insert)
    moreover have "page_ok s (ptab m d i) \<and> ptab m d i \<noteq> d" if "i \<in> tables m d" for i
      using that ok old [of i] new fresh v(1) by (cases "i = PDX a") (simp_all add: inst(1) pt_ok_def)
    moreover have "page_ok ?s = page_ok s" by (rule page_ok_cong) simp
    ultimately show ?thesis using ok by (simp add: pt_ok_def)
  qed
  ultimately show "vm_inv ?s d L"
    using r v(2) disj by (auto simp: vm_inv_def ready_states inst(3))
  have "m x = mem s x" if "pg x \<notin> pg ` (owned (mem s) d \<union> set (v # L))" for x
    using that out [of x] d by auto
  then show "pt_step d s (v # L) ?s L"
    using kframe_states(1) [OF r] by (auto simp: pt_step_def inst(3) suffix_Cons)
qed

lemma walkpgdir_alloc:
  assumes inv: "vm_inv s d L"
  shows "wpe (walkpgdir d a True) nofault (\<lambda>r s'. \<exists>L'.
    vm_inv s' d L' \<and> pt_step d s L s' L' \<and> length L \<le> Suc (length L')
      \<and> pte (mem s') d = pte (mem s) d
      \<and> (if r = 0 then L = [] \<and> PDX a \<notin> tables (mem s) d
         else PDX a \<in> tables (mem s') d \<and> r = ptab (mem s') d (PDX a) + 4 * PTX a)) s"
proof (cases "PDX a \<in> tables (mem s) d")
  case True
  then have "ptab (mem s) d (PDX a) + 4 * PTX a \<noteq> 0"
    using inv by (intro slot_nonzero) (simp_all add: vm_inv_def)
  then show ?thesis
    using inv True
    by (auto simp: walkpgdir_def Let_def wp tables_iff pde_def ptab_def intro!: exI [of _ L])
next
  case False
  have r: "kmem_ready s" "free_pages s L" using inv by (simp_all add: vm_inv_def)
  have e: "\<not> load32 (mem s) (d + 4 * PDX a) AND PTE_P \<noteq> 0"
    using False by (simp add: tables_iff pde_def)
  show ?thesis
  proof (cases L)
    case Nil
    then show ?thesis
      using False e vm_inv_kalloc [OF inv] kframe_states(1) [OF r(1), of L]
      by (auto simp: walkpgdir_def Let_def wp kmem_wpe [OF r] head0_def pt_step_def
          intro!: exI [of _ L])
  next
    case (Cons v L')
    let ?m = "store32 (memset (mem s) v 0 PGSIZE) (d + 4 * PDX a) (V2P v OR 7)"
    let ?s = "(kalloc_state L s)\<lparr>mem := ?m\<rparr>"
    have v: "page_ok s v" "v \<notin> set L'" "\<forall>x \<in> set L'. page_ok s x"
      using r(2) Cons by (auto simp: free_pages_def)
    note inst = install_table [OF inv [unfolded Cons] False refl]
    have in_tab: "PDX a \<in> tables ?m d" and slot: "ptab ?m d (PDX a) = v"
      using inst(1,2) by auto
    have "vm_inv ?s d L'" and "pt_step d s L ?s L'"
      using walkpgdir_install [OF inv [unfolded Cons] False refl] Cons by simp_all
    moreover from this(1) have "v + 4 * PTX a \<noteq> 0"
      using slot_nonzero [of ?s d "PDX a" a] in_tab slot by (simp add: vm_inv_def)
    ultimately show ?thesis
      using e v(1) inst(4) in_tab slot
      by (auto simp: walkpgdir_def Let_def wp kmem_wpe [OF r] head0_def Cons page_ok_def
          intro!: exI [of _ L'])
  qed
qed

section \<open>Mapping a range of pages\<close>

definition map_range :: "(u32 \<Rightarrow> u32) \<Rightarrow> u32 \<Rightarrow> nat \<Rightarrow> u32 \<Rightarrow> u32 \<Rightarrow> (u32 \<Rightarrow> u32)" where
  "map_range f a n pa perm =
     (\<lambda>va. if pg a \<le> pg va \<and> pg va < pg a + n
           then (pa + of_nat (pg va - pg a) * PGSIZE) OR perm OR PTE_P else f va)"

definition range_mapped :: "(u32 \<Rightarrow> u32) \<Rightarrow> u32 \<Rightarrow> nat \<Rightarrow> bool" where
  "range_mapped f a n \<longleftrightarrow> (\<exists>va. pg a \<le> pg va \<and> pg va < pg a + n \<and> f va AND PTE_P \<noteq> 0)"

lemma map_range_0 [simp]: "map_range f a 0 pa perm = f"
  by (auto simp: map_range_def fun_eq_iff)

lemma map_range_Suc:
  assumes "pg (a + PGSIZE) = pg a + 1"
  shows "map_range (map_range f a 1 pa perm) (a + PGSIZE) n (pa + PGSIZE) perm
    = map_range f a (Suc n) pa perm"
proof
  fix va
  have "pa + PGSIZE + of_nat (pg va - (pg a + 1)) * PGSIZE = pa + of_nat (pg va - pg a) * PGSIZE"
    if "pg a + 1 \<le> pg va"
  proof -
    have "pg va - pg a = Suc (pg va - (pg a + 1))" using that by simp
    then show ?thesis by (simp add: algebra_simps)
  qed
  then show "map_range (map_range f a 1 pa perm) (a + PGSIZE) n (pa + PGSIZE) perm va
    = map_range f a (Suc n) pa perm va"
    using assms by (cases "pg va = pg a") (auto simp: map_range_def)
qed

lemma map_range_1:
  "map_range f a 1 pa perm = (\<lambda>va. if pg va = pg a then pa OR perm OR PTE_P else f va)"
  by (auto simp: map_range_def fun_eq_iff)

lemma pg_next:
  assumes "pgaligned a" "unat a + 4096 < 4294967296"
  shows "pg (a + PGSIZE) = pg a + 1" "pgaligned (a + PGSIZE)" "unat (a + PGSIZE) = unat a + 4096"
proof -
  obtain k where k: "unat a = 4096 * k" using assms(1) by (rule pgalignedE)
  show u: "unat (a + PGSIZE) = unat a + 4096" using assms(2) by (simp add: unat_word_ariths)
  show "pg (a + PGSIZE) = pg a + 1" unfolding pg_def u k by simp
  show "pgaligned (a + PGSIZE)" unfolding pgaligned_def u k by simp
qed

lemma range_mapped_Suc:
  assumes "pg (a + PGSIZE) = pg a + 1" "f a AND PTE_P = 0" "\<And>va. pg va = pg a \<Longrightarrow> f va = f a"
    "\<And>va. pg va \<noteq> pg a \<Longrightarrow> g va = f va"
  shows "range_mapped g (a + PGSIZE) n = range_mapped f a (Suc n)"
  unfolding range_mapped_def assms(1)
proof (intro ex_cong1 iffI; elim conjE)
  fix va
  assume "pg a \<le> pg va" "pg va < pg a + Suc n" "f va AND PTE_P \<noteq> 0"
  moreover from this assms(2,3) have "pg va \<noteq> pg a" by metis
  ultimately show "pg a + 1 \<le> pg va \<and> pg va < pg a + 1 + n \<and> g va AND PTE_P \<noteq> 0"
    using assms(4) [of va] by simp
qed (use assms(4) in auto)

lemma mappages_store:
  assumes "vm_inv t d L" "PDX a \<in> tables (mem t) d"
    and u: "u = t\<lparr>mem := store32 (mem t) (ptab (mem t) d (PDX a) + 4 * PTX a) (pa OR perm OR PTE_P)\<rparr>"
  shows "vm_inv u d L" "pt_step d t L u L"
    "pte (mem u) d = map_range (pte (mem t) d) a 1 pa perm"
proof -
  note st = store_pte [OF assms(1,2) refl]
  show "vm_inv u d L" unfolding u by (rule st(1))
  show "pte (mem u) d = map_range (pte (mem t) d) a 1 pa perm"
    unfolding map_range_1 u by (simp add: st(2))
  have "mem u x = mem t x" if "pg x \<notin> pg ` (owned (mem t) d \<union> set L)" for x
    unfolding u using that assms(2) st(4) [of x] by (auto simp: owned_def)
  then show "pt_step d t L u L"
    unfolding pt_step_def by (simp add: u st(3))
qed

text \<open>
  The outcome of mapping \<open>n\<close> pages from \<open>a\<close> on: either all of them, none of which was mapped before,
  or a prefix of them when the free list ran out.  Each page takes at most one page of memory for its
  table, so the list must have been shorter than the range.
\<close>

definition map_outcome ::
    "u32 \<Rightarrow> u32 list \<Rightarrow> u32 \<Rightarrow> nat \<Rightarrow> u32 \<Rightarrow> u32 \<Rightarrow> 'x kmemst_scheme \<Rightarrow> int \<Rightarrow> 'x kmemst_scheme \<Rightarrow> bool" where
  "map_outcome d L a n pa perm s r s' \<longleftrightarrow> (\<exists>L'. vm_inv s' d L' \<and> pt_step d s L s' L'
     \<and> (r = 0 \<and> pte (mem s') d = map_range (pte (mem s) d) a n pa perm
           \<and> \<not> range_mapped (pte (mem s) d) a n \<and> length L \<le> length L' + n
        \<or> r = -1 \<and> L' = []
           \<and> (\<exists>k<n. length L \<le> k \<and> pte (mem s') d = map_range (pte (mem s) d) a k pa perm)))"

lemma map_outcome_step:
  assumes post: "map_outcome d L1 (a + PGSIZE) n (pa + PGSIZE) perm u r s'"
    and u: "pt_step d s L u L1" "pte (mem u) d = map_range (pte (mem s) d) a 1 pa perm"
    and nx: "pg (a + PGSIZE) = pg a + 1" and len: "length L \<le> Suc (length L1)"
    and rm: "range_mapped (pte (mem u) d) (a + PGSIZE) n = range_mapped (pte (mem s) d) a (Suc n)"
  shows "map_outcome d L a (Suc n) pa perm s r s'"
proof -
  let ?f = "pte (mem s) d"
  have step: "map_range (pte (mem u) d) (a + PGSIZE) k (pa + PGSIZE) perm = map_range ?f a (Suc k) pa perm"
    for k unfolding u(2) by (rule map_range_Suc [OF nx])
  obtain L' where L': "vm_inv s' d L'" "pt_step d u L1 s' L'"
    and out: "r = 0 \<and> pte (mem s') d = map_range ?f a (Suc n) pa perm
        \<and> \<not> range_mapped ?f a (Suc n) \<and> length L1 \<le> length L' + n
      \<or> r = -1 \<and> L' = []
        \<and> (\<exists>k<n. length L1 \<le> k \<and> pte (mem s') d = map_range ?f a (Suc k) pa perm)"
    using post unfolding map_outcome_def rm step by blast
  have st: "pt_step d s L s' L'" by (rule pt_step_trans [OF u(1) L'(2)])
  from out show ?thesis
  proof (elim disjE conjE exE)
    fix k
    assume "r = -1" "L' = []" "k < n" "length L1 \<le> k" "pte (mem s') d = map_range ?f a (Suc k) pa perm"
    then show ?thesis
      using L'(1) st len unfolding map_outcome_def
      by (intro exI [of _ L'] conjI disjI2 exI [of _ "Suc k"]) simp_all
  next
    assume "r = 0" "pte (mem s') d = map_range ?f a (Suc n) pa perm" "\<not> range_mapped ?f a (Suc n)"
      "length L1 \<le> length L' + n"
    then show ?thesis
      using L'(1) st len unfolding map_outcome_def
      by (intro exI [of _ L'] conjI disjI1) simp_all
  qed
qed

text \<open>One iteration: fault on a mapped page, stop without memory, or map the page and go on.\<close>

lemma mappages_iteration:
  assumes inv: "vm_inv s d L" and n: "0 < n"
    and rest: "\<And>u L1. vm_inv u d L1 \<Longrightarrow> pt_step d s L u L1 \<Longrightarrow> length L \<le> Suc (length L1) \<Longrightarrow>
      pte (mem u) d = map_range (pte (mem s) d) a 1 pa perm \<Longrightarrow> pte (mem s) d a AND PTE_P = 0 \<Longrightarrow>
      wpe (if a = lst then ret 0 else mappages_loop fuel d (a + PGSIZE) lst (pa + PGSIZE) perm)
        (\<lambda>e _. e = Panic ''remap'' \<and> range_mapped (pte (mem s) d) a n) (map_outcome d L a n pa perm s) u"
  shows "wpe (mappages_loop (Suc fuel) d a lst pa perm)
    (\<lambda>e _. e = Panic ''remap'' \<and> range_mapped (pte (mem s) d) a n) (map_outcome d L a n pa perm s) s"
proof -
  let ?f = "pte (mem s) d"
  obtain r t L1 where walk: "walkpgdir d a True s = Inr (r, t)"
    and t: "vm_inv t d L1" "pt_step d s L t L1" "pte (mem t) d = ?f" "length L \<le> Suc (length L1)"
    and r: "if r = 0 then L = [] \<and> PDX a \<notin> tables (mem s) d
       else PDX a \<in> tables (mem t) d \<and> r = ptab (mem t) d (PDX a) + 4 * PTX a"
    using wpe_returns [OF walkpgdir_alloc [OF inv, of a]] by blast
  note w = wpe_ret_eq [where m = "walkpgdir d a True" and s = s, OF walk]
  show ?thesis
  proof (cases "r = 0")
    case True
    then have "L1 = []" using r t(2) by (auto simp: pt_step_def suffix_def)
    then have "map_outcome d L a n pa perm s (- 1) t"
      using t(1-3) n r True unfolding map_outcome_def
      by (intro exI [of _ L1]) (auto intro!: exI [of _ 0])
    then show ?thesis using True by (simp add: wpe_bnd w wpe_ret)
  next
    case False
    then have tab: "PDX a \<in> tables (mem t) d" and rr: "r = ptab (mem t) d (PDX a) + 4 * PTX a"
      using r by simp_all
    have "load32 (mem t) r = pte (mem t) d a" using tab by (simp add: rr pte_def)
    then have e: "load32 (mem t) r = ?f a" unfolding t(3) .
    define u where "u = t\<lparr>mem := store32 (mem t) r (pa OR perm OR PTE_P)\<rparr>"
    have u: "vm_inv u d L1" "pt_step d s L u L1" "pte (mem u) d = map_range ?f a 1 pa perm"
      using mappages_store [OF t(1) tab, of u pa perm] pt_step_trans [OF t(2)] t(3)
      unfolding u_def rr by simp_all
    show ?thesis
    proof (cases "?f a AND PTE_P = 0")
      case mapped: False
      then have "range_mapped ?f a n"
        unfolding range_mapped_def using n by (intro exI [of _ a]) simp
      then show ?thesis
        using mapped \<open>r \<noteq> 0\<close> e by (simp add: w wpe_bnd wpe_rd32 wpe_panic)
    next
      case True
      from rest [OF u(1,2) t(4) u(3) True] show ?thesis
        using \<open>r \<noteq> 0\<close> e True by (simp add: w wpe_bnd wpe_sq wpe_rd32 wpe_wr32 u_def)
    qed
  qed
qed

lemma mappages_loop_spec:
  assumes "vm_inv s d L" "pgaligned a" "n < fuel" "unat lst = unat a + 4096 * n"
  shows "wpe (mappages_loop fuel d a lst pa perm)
    (\<lambda>e _. e = Panic ''remap'' \<and> range_mapped (pte (mem s) d) a (Suc n))
    (map_outcome d L a (Suc n) pa perm s) s"
  using assms
proof (induction fuel arbitrary: s L a n pa)
  case 0
  then show ?case by simp
next
  case (Suc fuel)
  let ?f = "pte (mem s) d"
  show ?case
  proof (rule mappages_iteration [OF Suc.prems(1)])
    fix u L1
    assume u: "vm_inv u d L1" "pt_step d s L u L1" "pte (mem u) d = map_range ?f a 1 pa perm"
      and len: "length L \<le> Suc (length L1)" and free: "?f a AND PTE_P = 0"
    have same: "?f va = ?f a" if "pg va = pg a" for va by (rule pte_same_page [OF that])
    then have free': "?f va AND PTE_P = 0" if "pg va = pg a" for va using that free by metis
    show "wpe (if a = lst then ret 0 else mappages_loop fuel d (a + PGSIZE) lst (pa + PGSIZE) perm)
        (\<lambda>e _. e = Panic ''remap'' \<and> range_mapped ?f a (Suc n)) (map_outcome d L a (Suc n) pa perm s) u"
    proof (cases "a = lst")
      case True
      then have "n = 0" using Suc.prems(4) by simp
      moreover have "\<not> range_mapped ?f a 1"
        unfolding range_mapped_def using free' by force
      ultimately have "map_outcome d L a (Suc n) pa perm s 0 u"
        using u len unfolding map_outcome_def by (intro exI [of _ L1]) simp
      then show ?thesis using True by (simp add: wpe_ret)
    next
      case False
      then obtain n' where n': "n = Suc n'"
        using Suc.prems(4) by (cases n) (auto simp: word_unat_eq_iff)
      have nx: "pg (a + PGSIZE) = pg a + 1" "pgaligned (a + PGSIZE)"
        "unat (a + PGSIZE) = unat a + 4096"
        using pg_next [OF Suc.prems(2)] Suc.prems(4) unat_lt_2p32 [of lst] n' by simp_all
      have "pte (mem u) d va = ?f va" if "pg va \<noteq> pg a" for va
        using that unfolding u(3) map_range_1 by simp
      note rm = range_mapped_Suc [where f = ?f and n = n, OF nx(1) free same this]
      have "wpe (mappages_loop fuel d (a + PGSIZE) lst (pa + PGSIZE) perm)
        (\<lambda>e _. e = Panic ''remap'' \<and> range_mapped (pte (mem u) d) (a + PGSIZE) (Suc n'))
        (map_outcome d L1 (a + PGSIZE) (Suc n') (pa + PGSIZE) perm u) u"
        by (rule Suc.IH [OF u(1) nx(2)]) (use Suc.prems(3,4) n' nx(3) in simp_all)
      then have "wpe (mappages_loop fuel d (a + PGSIZE) lst (pa + PGSIZE) perm)
        (\<lambda>e _. e = Panic ''remap'' \<and> range_mapped ?f a (Suc n)) (map_outcome d L a (Suc n) pa perm s) u"
        by (rule wpe_mono)
          (use rm n' map_outcome_step [OF _ u(2,3) nx(1) len rm] in simp_all)
      then show ?thesis using False by simp
    qed
  qed simp
qed

text \<open>The number of pages that \<open>mappages\<close> maps for \<open>sz\<close> bytes at \<open>va\<close>.\<close>

definition page_count :: "u32 \<Rightarrow> u32 \<Rightarrow> nat" where
  "page_count va sz = pg (va + sz - 1) - pg va + 1"

lemma map_outcome_page:
  assumes "pg a = pg b"
  shows "map_outcome d L a n pa perm s = map_outcome d L b n pa perm s"
    and "range_mapped f a n = range_mapped f b n"
  using assms by (simp_all add: map_outcome_def map_range_def range_mapped_def fun_eq_iff)

lemma mappages_spec:
  assumes "vm_inv s d L" "0 < sz" "unat va + unat sz \<le> 4294967296"
  shows "wpe (mappages d va sz pa perm)
    (\<lambda>e _. e = Panic ''remap'' \<and> range_mapped (pte (mem s) d) va (page_count va sz))
    (map_outcome d L va (page_count va sz) pa perm s) s"
proof -
  let ?a = "PGROUNDDOWN va" and ?l = "PGROUNDDOWN (va + sz - 1)"
  have sz: "0 < unat sz" using assms(2) by (simp add: word_less_nat_alt)
  have "unat (va + (sz - 1)) = unat va + (unat sz - 1)"
  proof -
    have "unat (sz - 1) = unat sz - 1" using sz by (simp add: unat_sub word_le_nat_alt)
    then show ?thesis using assms(3) sz by (simp add: unat_word_ariths)
  qed
  then have u: "unat (va + sz - 1) = unat va + unat sz - 1" using sz by (simp add: add_diff_eq)
  then have le: "pg va \<le> pg (va + sz - 1)" using sz by (simp add: pg_def div_le_mono)
  have "unat ?l = unat ?a + 4096 * (pg (va + sz - 1) - pg va)"
    using le by (simp add: unat_PGROUNDDOWN pg_def diff_mult_distrib2)
  from mappages_loop_spec [OF assms(1) _ _ this, of 1048576 pa perm] show ?thesis
    using pg_lt [of "va + sz - 1"]
    by (simp add: mappages_def page_count_def map_outcome_page [of ?a va])
qed

lemma converges_kmem [intro, simp, cv]:
  "converges (rd32 a)" "converges (wr32 a v)" "converges (kmemset a c n)"
  "converges (kmemmove a b n)" "converges kalloc" "converges (panic msg)" "converges (cprintf f)"
  unfolding rd32_def wr32_def kmemset_def kmemmove_def kalloc_def kmem_lock_def kmem_unlock_def
    panic_def cprintf_def cprintfa_def
  by (intro cv)+

lemma converges_walkpgdir [intro, simp, cv]: "converges (walkpgdir d a b)"
  unfolding walkpgdir_def by (intro cv)

lemma mappages_loop_converges:
  assumes "unat (lst - a) = 4096 * k" "k < fuel"
  shows "converges (mappages_loop fuel d a lst pa perm :: ('x kmemst_scheme, int) kmon)"
  using assms
proof (induction fuel arbitrary: a k pa)
  case 0
  then show ?case by simp
next
  case (Suc fuel)
  have "converges (mappages_loop fuel d (a + PGSIZE) lst (pa + PGSIZE) perm
      :: ('x kmemst_scheme, int) kmon)" if "a \<noteq> lst"
  proof (rule Suc.IH)
    have "unat (lst - a) \<noteq> 0" using that by (simp add: unat_eq_0)
    then have k: "0 < k" using Suc.prems(1) by simp
    have "lst - (a + PGSIZE) = (lst - a) - PGSIZE" by (rule diff_diff_eq [symmetric])
    moreover have "unat ((lst - a) - PGSIZE) = 4096 * k - 4096"
      using Suc.prems(1) k by (simp add: unat_sub word_le_nat_alt)
    ultimately have "unat (lst - (a + PGSIZE)) = 4096 * k - 4096" by (simp only:)
    then show "unat (lst - (a + PGSIZE)) = 4096 * (k - 1)"
      by (simp only: diff_mult_distrib2)
    show "k - 1 < fuel" using Suc.prems(2) k by simp
  qed
  then show ?case unfolding mappages_loop.simps by (intro cv)
qed

lemma converges_mappages [intro, simp, cv]: "converges (mappages d va sz pa perm)"
proof -
  let ?a = "PGROUNDDOWN va" and ?l = "PGROUNDDOWN (va + sz - 1)"
  obtain k j where k: "unat ?a = 4096 * k" "k < 1048576" and j: "unat ?l = 4096 * j" "j < 1048576"
    using pgalignedE [OF pgaligned_PGROUNDDOWN] by metis
  have "\<exists>n < 1048576. unat (?l - ?a) = 4096 * n"
  proof (cases "k \<le> j")
    case True
    then show ?thesis
      using k j by (intro exI [of _ "j - k"])
        (simp add: unat_sub word_le_nat_alt diff_mult_distrib2)
  next
    case False
    then have "unat (?l - ?a) = 4294967296 + 4096 * j - 4096 * k"
      using k j by (simp add: unat_sub_if' word_le_nat_alt)
    then show ?thesis using False k by (intro exI [of _ "1048576 + j - k"] conjI) linarith+
  qed
  then show ?thesis unfolding mappages_def by (auto intro: mappages_loop_converges)
qed

end
