(* ===== verification/Uvm.thy ===== *)
theory Uvm
  imports Pagetable
begin

text \<open>
  User memory: the frames that the entries below \<open>HEAPLIMIT\<close> point to, the invariant that keeps them
  apart, and what growing, shrinking, freeing and copying an address space do to the page table,
  to the free list and to memory.
\<close>

section \<open>Frames and the invariant\<close>

definition mapped :: "bytes \<Rightarrow> u32 \<Rightarrow> u32 \<Rightarrow> bool" where
  "mapped m d va \<longleftrightarrow> pte m d va AND PTE_P \<noteq> 0"

definition frame :: "bytes \<Rightarrow> u32 \<Rightarrow> u32 \<Rightarrow> u32" where
  "frame m d va = P2V (PTE_ADDR (pte m d va))"

definition frames :: "bytes \<Rightarrow> u32 \<Rightarrow> nat \<Rightarrow> nat \<Rightarrow> u32 set" where
  "frames m d lo hi = {frame m d va | va. lo \<le> pg va \<and> pg va < hi \<and> mapped m d va}"

text \<open>The first page number that is not user heap.\<close>

abbreviation heap_pages :: nat where
  "heap_pages \<equiv> 520192"

definition uvm_inv :: "'x kmemst_scheme \<Rightarrow> u32 \<Rightarrow> u32 list \<Rightarrow> bool" where
  "uvm_inv s d L \<longleftrightarrow>
     vm_inv s d L \<and> KERNBASE < kend s
       \<and> (\<forall>f \<in> frames (mem s) d 0 heap_pages. page_ok s f)
       \<and> frames (mem s) d 0 heap_pages \<inter> (owned (mem s) d \<union> set L) = {}
       \<and> (\<forall>va vb. pg va < heap_pages \<and> pg vb < heap_pages \<and> mapped (mem s) d va \<and> mapped (mem s) d vb
            \<and> frame (mem s) d va = frame (mem s) d vb \<longrightarrow> pg va = pg vb)"

lemma uvm_invD:
  assumes "uvm_inv s d L"
  shows "vm_inv s d L" "pt_ok s d" "kmem_ready s" "free_pages s L" "KERNBASE < kend s"
  using assms by (simp_all add: uvm_inv_def vm_inv_def)

lemma frames_mono: "lo' \<le> lo \<Longrightarrow> hi \<le> hi' \<Longrightarrow> frames m d lo hi \<subseteq> frames m d lo' hi'"
  by (fastforce simp: frames_def)

lemma frames_cong:
  assumes "pte m' d = pte m d"
  shows "frames m' d = frames m d" "mapped m' d = mapped m d" "frame m' d = frame m d"
  using assms by (simp_all add: frames_def mapped_def frame_def fun_eq_iff)

lemma page_eq_iff: "page_ok s x \<Longrightarrow> page_ok s y \<Longrightarrow> pg x = pg y \<longleftrightarrow> x = y"
  by (metis page_ok_aligned pgaligned_eq_pg)

lemma uvm_frame:
  assumes "uvm_inv s d L" "pg va < heap_pages" "mapped (mem s) d va"
  shows "frame (mem s) d va \<in> frames (mem s) d 0 heap_pages" "page_ok s (frame (mem s) d va)"
    "frame (mem s) d va \<notin> owned (mem s) d" "frame (mem s) d va \<notin> set L"
    "PTE_ADDR (pte (mem s) d va) \<noteq> 0"
proof -
  show f: "frame (mem s) d va \<in> frames (mem s) d 0 heap_pages"
    using assms(2,3) by (auto simp: frames_def)
  with assms(1) show ok: "page_ok s (frame (mem s) d va)"
    and "frame (mem s) d va \<notin> owned (mem s) d" "frame (mem s) d va \<notin> set L"
    by (auto simp: uvm_inv_def)
  from ok have "kend s \<le> P2V (PTE_ADDR (pte (mem s) d va))" by (simp add: page_ok_def frame_def)
  with uvm_invD(5) [OF assms(1)] show "PTE_ADDR (pte (mem s) d va) \<noteq> 0"
    by (auto simp: P2V_def)
qed

section \<open>Freeing one user page\<close>

lemma vm_inv_kfree:
  assumes inv: "vm_inv s d L" and v: "page_ok s v" "v \<notin> owned (mem s) d" "v \<notin> set L"
  shows "vm_inv (kfree_state v s) d (v # L)"
    and "tables (mem (kfree_state v s)) d = tables (mem s) d"
    and "i \<in> tables (mem s) d \<Longrightarrow> ptab (mem (kfree_state v s)) d i = ptab (mem s) d i"
    and "pte (mem (kfree_state v s)) d = pte (mem s) d"
    and "owned (mem (kfree_state v s)) d = owned (mem s) d"
proof -
  let ?m = "mem (kfree_state v s)"
  have ok: "pt_ok s d" "free_pages s L" "kmem_ready s" using inv by (simp_all add: vm_inv_def)
  have "?m x = mem s x" if "pg x \<in> pg ` owned (mem s) d" for x
  proof -
    from that obtain y where y: "y \<in> owned (mem s) d" "pg x = pg y" by blast
    then have "pg x \<noteq> pg v"
      using page_eq_iff [OF owned_page_ok [OF ok(1)] v(1)] v(2) by metis
    then show ?thesis using v(1) by (simp add: kfree_state_other_page)
  qed
  note pt = pt_cong [OF page_ok_aligned [OF pt_ok_dir [OF ok(1)]] this]
  show "tables ?m d = tables (mem s) d" "i \<in> tables (mem s) d \<Longrightarrow> ptab ?m d i = ptab (mem s) d i"
    "pte ?m d = pte (mem s) d" "owned ?m d = owned (mem s) d"
    by (simp_all add: pt)
  have "pt_ok (kfree_state v s) d"
    using pt_ok_mem [OF ok(1) pt(1,2)] by (simp add: pt_ok_def page_ok_def)
  then show "vm_inv (kfree_state v s) d (v # L)"
    using inv v by (simp add: vm_inv_def free_pages_kfree ready_states pt(4))
qed

definition page_freed :: "u32 \<Rightarrow> u32 \<Rightarrow> 'x kmemst_scheme \<Rightarrow> 'x kmemst_scheme" where
  "page_freed d va s =
     (let t = kfree_state (frame (mem s) d va) s in
      t\<lparr>mem := store32 (mem t) (ptab (mem s) d (PDX va) + 4 * PTX va) 0\<rparr>)"

lemma mapped_table: "mapped m d va \<Longrightarrow> PDX va \<in> tables m d"
  by (auto simp: mapped_def pte_def split: if_splits)

lemma page_freed:
  assumes inv: "uvm_inv s d L" and va: "pg va < heap_pages" "mapped (mem s) d va"
  shows "vm_inv (page_freed d va s) d (frame (mem s) d va # L)"
    and "pte (mem (page_freed d va s)) d = (\<lambda>vb. if pg vb = pg va then 0 else pte (mem s) d vb)"
    and "owned (mem (page_freed d va s)) d = owned (mem s) d"
    and "kframe s (page_freed d va s)"
    and "pg x \<notin> pg ` owned (mem s) d \<Longrightarrow> pg x \<noteq> pg (frame (mem s) d va)
      \<Longrightarrow> mem (page_freed d va s) x = mem s x"
proof -
  let ?f = "frame (mem s) d va"
  let ?t = "kfree_state ?f s"
  note f = uvm_frame [OF inv va]
  note k = vm_inv_kfree [OF uvm_invD(1) [OF inv] f(2,3,4)]
  have tab: "PDX va \<in> tables (mem s) d" by (rule mapped_table [OF va(2)])
  have tabt: "PDX va \<in> tables (mem ?t) d" and slot: "ptab (mem ?t) d (PDX va) = ptab (mem s) d (PDX va)"
    using tab k(2,3) by simp_all
  have eq: "page_freed d va s = ?t\<lparr>mem := store32 (mem ?t) (ptab (mem ?t) d (PDX va) + 4 * PTX va) 0\<rparr>"
    by (simp add: page_freed_def Let_def slot)
  note st = store_pte [where e = 0, OF k(1) tabt refl]
  show "vm_inv (page_freed d va s) d (?f # L)" unfolding eq by (rule st(1))
  show "pte (mem (page_freed d va s)) d = (\<lambda>vb. if pg vb = pg va then 0 else pte (mem s) d vb)"
    unfolding eq by (simp add: st(2) k(4) fun_eq_iff)
  show "owned (mem (page_freed d va s)) d = owned (mem s) d"
    unfolding eq by (simp add: st(3) k(5))
  show "kframe s (page_freed d va s)"
    unfolding eq by (simp add: kframe_states(2) [OF uvm_invD(3) [OF inv]])
  assume x: "pg x \<notin> pg ` owned (mem s) d" "pg x \<noteq> pg ?f"
  have "pg x \<noteq> pg (ptab (mem ?t) d (PDX va))"
    using x(1) tab by (auto simp: slot owned_def)
  then show "mem (page_freed d va s) x = mem s x"
    unfolding eq using st(4) [of x] x(2) f(2) by (simp add: kfree_state_other_page)
qed

lemma page_freed_frames:
  assumes inv: "uvm_inv s d L" and va: "pg va < heap_pages" "mapped (mem s) d va"
  shows "frames (mem (page_freed d va s)) d lo hi =
      {frame (mem s) d vb | vb. lo \<le> pg vb \<and> pg vb < hi \<and> mapped (mem s) d vb \<and> pg vb \<noteq> pg va}"
    and "uvm_inv (page_freed d va s) d (frame (mem s) d va # L)"
proof -
  let ?u = "page_freed d va s" and ?f = "frame (mem s) d va"
  note pf = page_freed [OF inv va]
  have m: "mapped (mem ?u) d vb \<longleftrightarrow> mapped (mem s) d vb \<and> pg vb \<noteq> pg va"
    and fr: "pg vb \<noteq> pg va \<Longrightarrow> frame (mem ?u) d vb = frame (mem s) d vb" for vb
    by (simp_all add: mapped_def frame_def pf(2))
  show F: "frames (mem ?u) d lo hi =
      {frame (mem s) d vb | vb. lo \<le> pg vb \<and> pg vb < hi \<and> mapped (mem s) d vb \<and> pg vb \<noteq> pg va}"
    for lo hi unfolding frames_def m by (rule Collect_cong) (metis fr)
  have kend: "kend ?u = kend s" using pf(4) by (simp add: kframe_def)
  then have pok: "page_ok ?u = page_ok s" by (intro page_ok_cong)
  have inj: "pg vb = pg vc" if "pg vb < heap_pages" "pg vc < heap_pages" "mapped (mem s) d vb"
    "mapped (mem s) d vc" "frame (mem s) d vb = frame (mem s) d vc" for vb vc
    using inv that unfolding uvm_inv_def by blast
  have sub: "frames (mem ?u) d 0 heap_pages \<subseteq> frames (mem s) d 0 heap_pages - {?f}"
    unfolding F using inj [OF va(1) _ va(2)] by (auto simp: frames_def)
  have old: "\<forall>f \<in> frames (mem s) d 0 heap_pages. page_ok s f"
    "frames (mem s) d 0 heap_pages \<inter> (owned (mem s) d \<union> set L) = {}"
    using inv by (simp_all add: uvm_inv_def)
  have "\<forall>f \<in> frames (mem ?u) d 0 heap_pages. page_ok ?u f" using old(1) sub pok by auto
  moreover have "frames (mem ?u) d 0 heap_pages \<inter> (owned (mem ?u) d \<union> set (?f # L)) = {}"
    using old(2) sub by (auto simp: pf(3))
  moreover have "pg vb = pg vc" if "pg vb < heap_pages" "pg vc < heap_pages" "mapped (mem ?u) d vb"
    "mapped (mem ?u) d vc" "frame (mem ?u) d vb = frame (mem ?u) d vc" for vb vc
    using that fr by (intro inj) (simp_all add: m)
  ultimately show "uvm_inv ?u d (?f # L)"
    using pf(1) kend uvm_invD(5) [OF inv] unfolding uvm_inv_def by metis
qed

section \<open>Shrinking an address space\<close>

definition unmap_range :: "(u32 \<Rightarrow> u32) \<Rightarrow> nat \<Rightarrow> nat \<Rightarrow> (u32 \<Rightarrow> u32)" where
  "unmap_range f lo hi = (\<lambda>va. if lo \<le> pg va \<and> pg va < hi \<and> f va AND PTE_P \<noteq> 0 then 0 else f va)"

text \<open>
  The outcome of freeing the pages \<open>lo\<close> to \<open>hi - 1\<close>: exactly their frames are new on the free list, each
  once; their entries are cleared; no other entry, no page table and no other page has changed.
\<close>

definition dealloc_outcome ::
    "u32 \<Rightarrow> u32 list \<Rightarrow> nat \<Rightarrow> nat \<Rightarrow> 'x kmemst_scheme \<Rightarrow> 'x kmemst_scheme \<Rightarrow> bool" where
  "dealloc_outcome d L lo hi s s' \<longleftrightarrow> (\<exists>F. uvm_inv s' d (F @ L) \<and> set F = frames (mem s) d lo hi
     \<and> pte (mem s') d = unmap_range (pte (mem s) d) lo hi
     \<and> owned (mem s') d = owned (mem s) d \<and> kframe s s'
     \<and> (\<forall>x. pg x \<notin> pg ` (owned (mem s) d \<union> frames (mem s) d lo hi) \<longrightarrow> mem s' x = mem s x))"

lemma dealloc_outcome_skip:
  assumes none: "\<And>va. lo \<le> pg va \<Longrightarrow> pg va < lo' \<Longrightarrow> pg va < hi \<Longrightarrow> \<not> mapped (mem s) d va"
    and le: "lo \<le> lo'"
  shows "dealloc_outcome d L lo' hi s s' = dealloc_outcome d L lo hi s s'"
proof -
  have range: "lo' \<le> pg va \<and> pg va < hi \<and> mapped (mem s) d va
      \<longleftrightarrow> lo \<le> pg va \<and> pg va < hi \<and> mapped (mem s) d va" for va
    using none [of va] le by (meson le_trans not_le)
  then have "frames (mem s) d lo' hi = frames (mem s) d lo hi"
    unfolding frames_def by presburger
  moreover have "unmap_range (pte (mem s) d) lo' hi = unmap_range (pte (mem s) d) lo hi"
    unfolding unmap_range_def using range unfolding mapped_def by presburger
  ultimately show ?thesis unfolding dealloc_outcome_def by presburger
qed

lemma dealloc_outcome_refl: "uvm_inv s d L \<Longrightarrow> hi \<le> lo \<Longrightarrow> dealloc_outcome d L lo hi s s"
  unfolding dealloc_outcome_def
  by (intro exI [of _ "[]"]) (auto simp: frames_def unmap_range_def fun_eq_iff)

lemma frames_page_freed:
  assumes inv: "uvm_inv s d L" and h: "pg va < heap_pages" and va: "mapped (mem s) d va" and lt: "pg va < hi"
  shows "insert (frame (mem s) d va) (frames (mem (page_freed d va s)) d (Suc (pg va)) hi)
    = frames (mem s) d (pg va) hi"
proof -
  let ?f = "frame (mem s) d va" and ?lo = "Suc (pg va)"
  note fr = page_freed_frames(1) [OF inv h va]
  have f_same: "frame (mem s) d vb = ?f" if "pg vb = pg va" for vb
    using pte_same_page [OF that, of "mem s" d] by (simp add: frame_def)
  show "insert ?f (frames (mem (page_freed d va s)) d ?lo hi) = frames (mem s) d (pg va) hi"
  proof (intro equalityI subsetI)
    fix x
    assume "x \<in> insert ?f (frames (mem (page_freed d va s)) d ?lo hi)"
    then consider "x = ?f" | vb where "x = frame (mem s) d vb" "?lo \<le> pg vb" "pg vb < hi" "mapped (mem s) d vb"
      unfolding fr by blast
    then show "x \<in> frames (mem s) d (pg va) hi"
    proof cases
      case 1
      then show ?thesis using va lt unfolding frames_def by blast
    next
      case (2 vb)
      then show ?thesis unfolding frames_def using Suc_leD by blast
    qed
  next
    fix x
    assume "x \<in> frames (mem s) d (pg va) hi"
    then obtain vb where vb: "x = frame (mem s) d vb" "pg va \<le> pg vb" "pg vb < hi" "mapped (mem s) d vb"
      unfolding frames_def by blast
    show "x \<in> insert ?f (frames (mem (page_freed d va s)) d ?lo hi)"
    proof (cases "pg vb = pg va")
      case True
      from f_same [OF this] vb(1) show ?thesis by blast
    next
      case False
      with vb(2) have "?lo \<le> pg vb" by simp
      with False vb show ?thesis unfolding fr by blast
    qed
  qed
qed

lemma dealloc_outcome_step:
  assumes inv: "uvm_inv s d L" and va: "mapped (mem s) d va" and lt: "pg va < hi" "hi \<le> heap_pages"
    and out: "dealloc_outcome d (frame (mem s) d va # L) (Suc (pg va)) hi (page_freed d va s) s'"
  shows "dealloc_outcome d L (pg va) hi s s'"
proof -
  let ?f = "frame (mem s) d va" and ?u = "page_freed d va s" and ?lo = "Suc (pg va)"
  have h: "pg va < heap_pages" using lt by simp
  note pf = page_freed [OF inv h va]
  obtain F where F: "uvm_inv s' d (F @ ?f # L)" "set F = frames (mem ?u) d ?lo hi"
    "pte (mem s') d = unmap_range (pte (mem ?u) d) ?lo hi"
    "owned (mem s') d = owned (mem ?u) d" "kframe ?u s'"
    "\<And>x. pg x \<notin> pg ` (owned (mem ?u) d \<union> frames (mem ?u) d ?lo hi) \<Longrightarrow> mem s' x = mem ?u x"
    using out unfolding dealloc_outcome_def by blast
  note frames = frames_page_freed [OF inv h va lt(1)]
  have "pte (mem s') d = unmap_range (pte (mem s) d) (pg va) hi"
  proof
    fix vb
    have "pte (mem s) d vb AND PTE_P \<noteq> 0" if "pg vb = pg va"
      using va pte_same_page [OF that, of "mem s" d] by (simp add: mapped_def)
    then show "pte (mem s') d vb = unmap_range (pte (mem s) d) (pg va) hi vb"
      using lt(1) unfolding F(3) unmap_range_def pf(2) by (cases "pg vb = pg va") auto
  qed
  moreover have "mem s' x = mem s x"
    if "pg x \<notin> pg ` (owned (mem s) d \<union> frames (mem s) d (pg va) hi)" for x
    using that F(6) [of x] pf(5) [of x] unfolding frames [symmetric] pf(3) by auto
  ultimately show ?thesis
    unfolding dealloc_outcome_def
    using F(1,2,4) frames pf(3) kframe_trans [OF pf(4) F(5)] by (intro exI [of _ "F @ [?f]"]) simp
qed

lemma below_pages:
  assumes "pgaligned a"
  shows "a < oldsz \<longleftrightarrow> pg a < (unat oldsz + 4095) div 4096"
proof -
  obtain k where k: "unat a = 4096 * k" using assms by (rule pgalignedE)
  have "4096 * k < n \<longleftrightarrow> k < (n + 4095) div 4096" for n :: nat
    unfolding less_eq_Suc_le [of k] by (subst less_eq_div_iff_mult_less_eq) auto
  then show ?thesis by (simp add: word_less_nat_alt pg_def k)
qed

lemma pg_PGADDR:
  assumes "unat i < 1024"
  shows "pg (PGADDR i 0 0) = 1024 * unat i" "pgaligned (PGADDR i 0 0)"
proof -
  have e: "PGADDR i 0 0 = push_bit 22 i" by (simp add: PGADDR_def)
  have "unat (push_bit 22 i) = 4194304 * unat i"
    using assms by (simp add: push_bit_eq_mult unat_word_ariths)
  then show "pg (PGADDR i 0 0) = 1024 * unat i" "pgaligned (PGADDR i 0 0)"
    unfolding e pg_def pgaligned_def by simp_all
qed

lemma PDX_pages: "1024 * unat (PDX a) \<le> pg a" "pg a < 1024 * unat (PDX a) + 1024"
  "1024 * unat (PDX a) \<le> pg b \<Longrightarrow> pg b < 1024 * unat (PDX a) + 1024 \<Longrightarrow> PDX b = PDX a"
proof -
  have e: "pg a = 1024 * unat (PDX a) + unat (PTX a)" for a using pg_PDX_PTX [of a] by simp
  show "1024 * unat (PDX a) \<le> pg a" "pg a < 1024 * unat (PDX a) + 1024" using e [of a] by simp_all
  assume "1024 * unat (PDX a) \<le> pg b" "pg b < 1024 * unat (PDX a) + 1024"
  then have "pg b div 1024 = unat (PDX a)" by (simp add: div_nat_eqI)
  moreover have "pg b div 1024 = unat (PDX b)" using e [of b] by simp
  ultimately show "PDX b = PDX a" by (simp add: word_unat_eq_iff)
qed

lemma dealloc_body:
  assumes inv: "uvm_inv s d L" and h: "pg a < heap_pages" and t: "PDX a \<in> tables (mem s) d"
  shows "wpe (bnd (rd32 (ptab (mem s) d (PDX a) + 4 * PTX a)) (\<lambda>e.
            sq (whenk (e AND PTE_P \<noteq> 0)
                 (let pa = PTE_ADDR e in
                  if pa = 0 then panic ''kfree''
                  else sq (kfree (P2V pa)) (wr32 (ptab (mem s) d (PDX a) + 4 * PTX a) 0))) k)) E Q s
      = wpe k E Q (if mapped (mem s) d a then page_freed d a s else s)"
proof -
  have e: "load32 (mem s) (ptab (mem s) d (PDX a) + 4 * PTX a) = pte (mem s) d a"
    using t by (simp add: pte_def)
  show ?thesis
  proof (cases "mapped (mem s) d a")
    case True
    note f = uvm_frame [OF inv h True]
    have "kfree (P2V (PTE_ADDR (pte (mem s) d a))) s = Inr ((), kfree_state (frame (mem s) d a) s)"
      using kfree_eq [OF uvm_invD(3) [OF inv] f(2)] by (simp add: frame_def)
    note kf = wpe_ret_eq [where m = "kfree (P2V (PTE_ADDR (pte (mem s) d a)))" and s = s, OF this]
    show ?thesis
      using True f(5)
      by (simp add: wpe_bnd wpe_sq wpe_rd32 wpe_whenk wpe_wr32 e mapped_def Let_def kf page_freed_def)
  next
    case False
    then show ?thesis by (simp add: wpe_bnd wpe_sq wpe_rd32 wpe_whenk e mapped_def)
  qed
qed

lemma dealloc_present:
  fixes s :: "'x kmemst_scheme"
  assumes inv: "uvm_inv s d L" and lt: "pg a < hi" "a < oldsz" "hi \<le> heap_pages"
    and t: "PDX a \<in> tables (mem s) d"
    and rest: "\<And>(s :: 'x kmemst_scheme) L. uvm_inv s d L \<Longrightarrow> wpe (deallocuvm_loop fuel d (a + PGSIZE) oldsz) nofault
      (\<lambda>_. dealloc_outcome d L (Suc (pg a)) hi s) s"
  shows "wpe (deallocuvm_loop (Suc fuel) d a oldsz) nofault (\<lambda>_. dealloc_outcome d L (pg a) hi s) s"
proof -
  have h: "pg a < heap_pages" using lt by simp
  note walk = wpe_ret_eq [where m = "walkpgdir d a False" and s = s, OF walkpgdir_lookup]
  have slot: "ptab (mem s) d (PDX a) + 4 * PTX a \<noteq> 0"
    by (rule slot_nonzero [OF uvm_invD(2) [OF inv] t])
  have "wpe (deallocuvm_loop fuel d (a + PGSIZE) oldsz) nofault (\<lambda>_. dealloc_outcome d L (pg a) hi s)
      (if mapped (mem s) d a then page_freed d a s else s)"
  proof (cases "mapped (mem s) d a")
    case True
    from rest [OF page_freed_frames(2) [OF inv h True]]
    have "wpe (deallocuvm_loop fuel d (a + PGSIZE) oldsz) nofault
        (\<lambda>_. dealloc_outcome d L (pg a) hi s) (page_freed d a s)"
      using dealloc_outcome_step [OF inv True lt(1,3)] by (elim wpe_mono) simp_all
    then show ?thesis using True by simp
  next
    case False
    then have "\<not> mapped (mem s) d va" if "pg va = pg a" for va
      using pte_same_page [OF that, of "mem s" d] by (simp add: mapped_def)
    then have "dealloc_outcome d L (Suc (pg a)) hi s = dealloc_outcome d L (pg a) hi s"
      by (intro ext dealloc_outcome_skip) auto
    then show ?thesis using rest [OF inv] False by simp
  qed
  then show ?thesis
    using lt slot t by (simp add: walk wpe_bnd dealloc_body [OF inv h t, unfolded wpe_bnd])
qed

text \<open>Where the directory has no table, the loop skips the pages that the table would map.\<close>

lemma dealloc_absent:
  assumes lt: "pg a < heap_pages" and t: "PDX a \<notin> tables (mem s) d"
  shows "pg a < pg (PGADDR (PDX a + 1) 0 0)" "pgaligned (PGADDR (PDX a + 1) 0 0)"
    "dealloc_outcome d L (pg (PGADDR (PDX a + 1) 0 0)) hi s = dealloc_outcome d L (pg a) hi s"
proof -
  let ?i = "PDX a + 1"
  have "unat ?i = unat (PDX a) + 1" using lt PDX_pages(1) [of a] by (simp add: unat_word_ariths)
  then have i: "unat ?i < 1024" "1024 * unat ?i = 1024 * unat (PDX a) + 1024"
    using lt PDX_pages(1) [of a] by simp_all
  note next_a = pg_PGADDR [OF i(1)]
  show "pgaligned (PGADDR ?i 0 0)" by (rule next_a(2))
  show *: "pg a < pg (PGADDR ?i 0 0)" using next_a(1) i PDX_pages(2) [of a] by simp
  show "dealloc_outcome d L (pg (PGADDR ?i 0 0)) hi s = dealloc_outcome d L (pg a) hi s"
  proof (intro ext dealloc_outcome_skip)
    show "\<not> mapped (mem s) d va" if "pg a \<le> pg va" "pg va < pg (PGADDR ?i 0 0)" for va
      using that t i next_a(1) PDX_pages(1) [of a] PDX_pages(3) [of a va] mapped_table [of "mem s" d va]
      by auto
    show "pg a \<le> pg (PGADDR ?i 0 0)" using * by simp
  qed
qed

lemma deallocuvm_loop_spec:
  fixes s :: "'x kmemst_scheme"
  assumes "uvm_inv s d L" "pgaligned a" "hi = (unat oldsz + 4095) div 4096" "hi \<le> heap_pages"
    "hi - pg a < fuel"
  shows "wpe (deallocuvm_loop fuel d a oldsz) nofault (\<lambda>_. dealloc_outcome d L (pg a) hi s) s"
  using assms
proof (induction fuel arbitrary: s L a)
  case 0
  then show ?case by simp
next
  case (Suc fuel)
  note inv = Suc.prems(1)
  have lt_iff: "a < oldsz \<longleftrightarrow> pg a < hi"
    using below_pages [OF Suc.prems(2)] Suc.prems(3) by simp
  show ?case
  proof (cases "pg a < hi")
    case False
    then show ?thesis
      using dealloc_outcome_refl [OF inv, of hi "pg a"] lt_iff by (simp add: wpe_ret)
  next
    case lt: True
    then have h: "pg a < heap_pages" using Suc.prems(4) by simp
    show ?thesis
    proof (cases "PDX a \<in> tables (mem s) d")
      case True
      have "pg (a + PGSIZE) = Suc (pg a)" "pgaligned (a + PGSIZE)"
        using pg_next [OF Suc.prems(2)] h by (auto simp: pg_def)
      then have "wpe (deallocuvm_loop fuel d (a + PGSIZE) oldsz) nofault
          (\<lambda>_. dealloc_outcome d L (Suc (pg a)) hi s) s" if "uvm_inv s d L"
        for s :: "'x kmemst_scheme" and L
        using Suc.IH [OF that, of "a + PGSIZE"] Suc.prems(3-5) lt by simp
      from dealloc_present [OF inv lt _ Suc.prems(4) True this] show ?thesis
        using lt lt_iff by simp
    next
      case False
      note skip = dealloc_absent [OF h False]
      have "wpe (deallocuvm_loop fuel d (PGADDR (PDX a + 1) 0 0) oldsz) nofault
          (\<lambda>_. dealloc_outcome d L (pg a) hi s) s"
        using Suc.IH [OF inv skip(2)] Suc.prems(3-5) skip(1) lt by (simp add: skip(3))
      then show ?thesis
        using False lt lt_iff
        by (simp add: wpe_bnd wpe_ret_eq [where m = "walkpgdir d a False" and s = s, OF walkpgdir_lookup])
    qed
  qed
qed

lemma pages_up: "unat sz \<le> 0x7F000000 \<Longrightarrow> pg (PGROUNDUP sz) = (unat sz + 4095) div 4096"
  using unat_PGROUNDUP [of sz] by (simp add: pg_def)

lemma deallocuvm_spec:
  assumes "uvm_inv s d L" "unat oldsz \<le> 0x7F000000"
  shows "wpe (deallocuvm d oldsz newsz) nofault (\<lambda>r s'.
    if newsz < oldsz then r = newsz \<and>
      dealloc_outcome d L ((unat newsz + 4095) div 4096) ((unat oldsz + 4095) div 4096) s s'
    else r = oldsz \<and> s' = s) s"
proof (cases "newsz < oldsz")
  case True
  then have n: "unat newsz \<le> 0x7F000000" using assms(2) by (simp add: word_less_nat_alt)
  have "(unat oldsz + 4095) div 4096 \<le> heap_pages" using assms(2) by simp
  moreover have "\<not> oldsz \<le> newsz" using True by simp
  ultimately show ?thesis
    using True deallocuvm_loop_spec [OF assms(1) pgaligned_PGROUNDUP [of newsz] refl, of oldsz 1048577]
    by (simp add: deallocuvm_def wpe_sq wpe_ret pages_up [OF n])
qed (auto simp: deallocuvm_def wpe_ret)

section \<open>Adding a user page\<close>

lemma vm_inv_mem:
  assumes inv: "vm_inv s d L" and eq: "\<And>x. pg x \<in> pg ` (owned (mem s) d \<union> set L) \<Longrightarrow> m' x = mem s x"
  shows "vm_inv (s\<lparr>mem := m'\<rparr>) d L" "pte m' d = pte (mem s) d" "owned m' d = owned (mem s) d"
proof -
  have ok: "pt_ok s d" "free_pages s L" using inv by (simp_all add: vm_inv_def)
  have "m' x = mem s x" if "pg x \<in> pg ` owned (mem s) d" for x
    using that by (intro eq) (simp add: image_Un)
  note pt = pt_cong [OF page_ok_aligned [OF pt_ok_dir [OF ok(1)]] this]
  show "pte m' d = pte (mem s) d" "owned m' d = owned (mem s) d" by (simp_all add: pt)
  have "free_pages (s\<lparr>mem := m'\<rparr>) L"
    by (rule free_pages_mem [OF ok(2)], rule eq) (simp add: image_Un)
  then show "vm_inv (s\<lparr>mem := m'\<rparr>) d L"
    using inv pt(4) pt_ok_mem [OF ok(1) pt(1,2)] by (simp add: vm_inv_def)
qed

lemma new_pte:
  assumes "pgaligned m" "fl AND NOT 0xFFF = 0"
  shows "P2V (PTE_ADDR (V2P m OR fl OR PTE_P)) = m" "(V2P m OR fl OR PTE_P) AND PTE_P \<noteq> 0"
    "PTE_FLAGS (V2P m OR fl OR PTE_P) = fl OR PTE_P"
proof -
  have fl: "(fl OR 1) AND NOT 0xFFF = 0"
    using assms(2) by (simp only: bit.conj_disj_distrib2) simp
  have al: "pgaligned (V2P m)" using assms(1) by simp
  show "P2V (PTE_ADDR (V2P m OR fl OR PTE_P)) = m"
    using PTE_ADDR_or [OF al fl] by simp
  have "bit (V2P m OR fl OR 1) 0" by (simp add: bit_or_iff)
  then show "(V2P m OR fl OR PTE_P) AND PTE_P \<noteq> 0" by (rule and_1_neq_0)
  have "(fl OR 1) AND 0xFFF = fl OR 1"
  proof -
    have "fl OR 1 = ((fl OR 1) AND NOT 0xFFF) + ((fl OR 1) AND 0xFFF)" by (rule plus_split12)
    then show ?thesis by (simp only: fl) simp
  qed
  then show "PTE_FLAGS (V2P m OR fl OR PTE_P) = fl OR PTE_P"
    using PTE_FLAGS_or [OF al, of "fl OR 1"] by simp
qed

lemma add_page:
  assumes inv: "uvm_inv s d L" and t: "vm_inv t d L'" "kend t = kend s"
    and pte: "pte (mem t) d = map_range (pte (mem s) d) a 1 (V2P m) fl"
    and fl: "fl AND NOT 0xFFF = 0" and a: "\<not> mapped (mem s) d a"
    and m: "page_ok s m" "m \<notin> owned (mem t) d \<union> set L'" "m \<notin> frames (mem s) d 0 heap_pages"
    and own: "owned (mem t) d \<union> set L' \<subseteq> owned (mem s) d \<union> set L"
  shows "uvm_inv t d L'"
    and "pg va = pg a \<Longrightarrow> frame (mem t) d va = m \<and> mapped (mem t) d va \<and> PTE_FLAGS (pte (mem t) d va) = fl OR PTE_P"
    and "pg va \<noteq> pg a \<Longrightarrow> frame (mem t) d va = frame (mem s) d va \<and> mapped (mem t) d va = mapped (mem s) d va"
proof -
  have al: "pgaligned m" using m(1) by (rule page_ok_aligned)
  have new: "frame (mem t) d va = m \<and> mapped (mem t) d va \<and> PTE_FLAGS (pte (mem t) d va) = fl OR PTE_P"
    if "pg va = pg a" for va
    using that new_pte [OF al fl] by (simp add: pte [unfolded map_range_1] frame_def mapped_def)
  have old: "frame (mem t) d va = frame (mem s) d va \<and> mapped (mem t) d va = mapped (mem s) d va"
    if "pg va \<noteq> pg a" for va
    using that by (simp add: pte [unfolded map_range_1] frame_def mapped_def)
  show "pg va = pg a \<Longrightarrow> frame (mem t) d va = m \<and> mapped (mem t) d va \<and> PTE_FLAGS (pte (mem t) d va) = fl OR PTE_P"
    by (rule new)
  show "pg va \<noteq> pg a \<Longrightarrow> frame (mem t) d va = frame (mem s) d va \<and> mapped (mem t) d va = mapped (mem s) d va"
    by (rule old)
  have sub: "frames (mem t) d 0 heap_pages \<subseteq> insert m (frames (mem s) d 0 heap_pages)"
  proof
    fix x
    assume "x \<in> frames (mem t) d 0 heap_pages"
    then obtain va where va: "x = frame (mem t) d va" "pg va < heap_pages" "mapped (mem t) d va"
      unfolding frames_def by blast
    show "x \<in> insert m (frames (mem s) d 0 heap_pages)"
    proof (cases "pg va = pg a")
      case True
      then show ?thesis using va new by simp
    next
      case False
      then show ?thesis using va old [OF False] unfolding frames_def by blast
    qed
  qed
  have pok: "page_ok t = page_ok s" using t(2) by (rule page_ok_cong)
  have inj: "pg va = pg vb" if "pg va < heap_pages" "pg vb < heap_pages" "mapped (mem t) d va"
    "mapped (mem t) d vb" "frame (mem t) d va = frame (mem t) d vb" for va vb
  proof -
    have fs: "frame (mem t) d vc \<noteq> m" if "pg vc < heap_pages" "mapped (mem t) d vc" "pg vc \<noteq> pg a" for vc
      using that old [OF that(3)] m(3) unfolding frames_def by auto
    consider "pg va = pg a" "pg vb = pg a" | "pg va = pg a" "pg vb \<noteq> pg a"
      | "pg va \<noteq> pg a" "pg vb = pg a" | "pg va \<noteq> pg a" "pg vb \<noteq> pg a" by blast
    then show ?thesis
    proof cases
      case 4
      then show ?thesis using that old inv unfolding uvm_inv_def by metis
    qed (use that new fs in metis)+
  qed
  have "frames (mem s) d 0 heap_pages \<inter> (owned (mem t) d \<union> set L') = {}"
    using inv own unfolding uvm_inv_def by blast
  then have "frames (mem t) d 0 heap_pages \<inter> (owned (mem t) d \<union> set L') = {}"
    using sub m(2) by blast
  moreover have "\<forall>f \<in> frames (mem t) d 0 heap_pages. page_ok t f"
    using sub m(1) inv unfolding pok uvm_inv_def by blast
  ultimately show "uvm_inv t d L'"
    unfolding uvm_inv_def using t uvm_invD(5) [OF inv] inj by (metis (no_types, lifting))
qed

text \<open>
  \<open>mappages\<close> of one fresh page \<open>m\<close> (already taken from the free list and filled) at \<open>a\<close>: either the page
  is mapped, or memory ran out and the table is as before.
\<close>

definition page_added ::
    "u32 \<Rightarrow> u32 \<Rightarrow> u32 list \<Rightarrow> u32 \<Rightarrow> u32 \<Rightarrow> bytes \<Rightarrow> 'x kmemst_scheme \<Rightarrow> int \<Rightarrow> 'x kmemst_scheme \<Rightarrow> bool" where
  "page_added d m L a fl M s r t \<longleftrightarrow> (\<exists>L'. uvm_inv t d L' \<and> kframe s t \<and> suffix L' L
     \<and> owned (mem t) d \<union> set L' = owned (mem s) d \<union> set L
     \<and> (\<forall>x. pg x = pg m \<longrightarrow> mem t x = M x)
     \<and> (\<forall>x. pg x \<notin> pg ` (owned (mem s) d \<union> set (m # L)) \<longrightarrow> mem t x = mem s x)
     \<and> (r = 0 \<and> pte (mem t) d = map_range (pte (mem s) d) a 1 (V2P m) fl
        \<or> r = -1 \<and> L' = [] \<and> pte (mem t) d = pte (mem s) d))"

lemma range_mapped_1: "\<not> mapped m d a \<Longrightarrow> \<not> range_mapped (pte m d) a 1"
proof -
  assume "\<not> mapped m d a"
  then have "pte m d va AND PTE_P = 0" if "pg va = pg a" for va
    using pte_same_page [OF that, of m d] by (simp add: mapped_def)
  then show ?thesis unfolding range_mapped_def by force
qed

lemma uvm_inv_keep:
  assumes inv: "uvm_inv s d L" and t: "vm_inv t d L'" "kend t = kend s" "pte (mem t) d = pte (mem s) d"
    and own: "owned (mem t) d \<union> set L' \<subseteq> owned (mem s) d \<union> set L"
  shows "uvm_inv t d L'"
proof -
  have pok: "page_ok t = page_ok s" using t(2) by (rule page_ok_cong)
  have "frames (mem s) d 0 heap_pages \<inter> (owned (mem t) d \<union> set L') = {}"
    using inv own unfolding uvm_inv_def by blast
  then show ?thesis
    using inv t(1,2) unfolding uvm_inv_def pok frames_cong [OF t(3)] by simp
qed

lemma fresh_free_page:
  assumes vm: "vm_inv s d (m # L)"
  shows "page_ok s m" "m \<notin> owned (mem s) d \<union> set L" "pg m \<notin> pg ` (owned (mem s) d \<union> set L)"
proof -
  show m: "page_ok s m" "m \<notin> owned (mem s) d \<union> set L"
    using vm by (auto simp: vm_inv_def free_pages_def)
  show "pg m \<notin> pg ` (owned (mem s) d \<union> set L)"
  proof
    assume "pg m \<in> pg ` (owned (mem s) d \<union> set L)"
    then obtain x where x: "x \<in> owned (mem s) d \<union> set L" "pg m = pg x" by blast
    then have "page_ok s x"
      using vm owned_page_ok [of s d x] by (auto simp: vm_inv_def free_pages_def)
    then show False using x m page_eq_iff [of s m x] by auto
  qed
qed

lemma page_count_1: "pgaligned a \<Longrightarrow> page_count a PGSIZE = 1"
proof -
  assume a: "pgaligned a"
  have "unat (4095 :: u32) < 4096" by simp
  from pg_off [OF a this] show ?thesis by (simp add: page_count_def add.commute)
qed

lemma page_added_outcome:
  assumes inv: "uvm_inv s d (m # L)" and a: "\<not> mapped (mem s) d a" and fl: "fl AND NOT 0xFFF = 0"
    and M: "\<And>x. pg x \<noteq> pg m \<Longrightarrow> M x = mem s x" and own: "owned M d = owned (mem s) d"
    and u: "vm_inv u d L'" "pt_step d ((kalloc_state (m # L) s)\<lparr>mem := M\<rparr>) L u L'"
    and r: "r = 0 \<and> pte (mem u) d = map_range (pte (mem s) d) a 1 (V2P m) fl
        \<or> r = -1 \<and> L' = [] \<and> pte (mem u) d = pte (mem s) d"
  shows "page_added d m L a fl M s r u"
proof -
  have fr: "kframe s u"
    using u(2) kframe_states(1) [OF uvm_invD(3) [OF inv], of "m # L"]
    by (auto simp: pt_step_def intro: kframe_trans)
  then have kend: "kend u = kend s" by (simp add: kframe_def)
  have suf: "suffix L' L" and cons: "owned (mem u) d \<union> set L' = owned (mem s) d \<union> set L"
    and mem: "\<And>x. pg x \<notin> pg ` (owned (mem s) d \<union> set L) \<Longrightarrow> mem u x = M x"
    using u(2) by (simp_all add: pt_step_def own)
  note m = fresh_free_page [OF uvm_invD(1) [OF inv]]
  have mf: "m \<notin> frames (mem s) d 0 heap_pages" using inv by (auto simp: uvm_inv_def)
  have sub: "owned (mem u) d \<union> set L' \<subseteq> owned (mem s) d \<union> set (m # L)" using cons by auto
  have "uvm_inv u d L'"
    using r
  proof (elim disjE conjE)
    assume "pte (mem u) d = map_range (pte (mem s) d) a 1 (V2P m) fl"
    from add_page(1) [OF inv u(1) kend this fl a m(1) _ mf sub] m(2) show ?thesis by (simp add: cons)
  qed (rule uvm_inv_keep [OF inv u(1) kend _ sub])
  moreover have "mem u x = M x" if "pg x = pg m" for x
    using that m(3) by (intro mem) simp
  moreover have "mem u x = mem s x" if "pg x \<notin> pg ` (owned (mem s) d \<union> set (m # L))" for x
    using that mem [of x] M [of x] by auto
  ultimately show ?thesis
    unfolding page_added_def using fr suf cons r by blast
qed

lemma page_added_spec:
  assumes inv: "uvm_inv s d (m # L)" and a: "pgaligned a" "\<not> mapped (mem s) d a"
    and fl: "fl AND NOT 0xFFF = 0"
    and M: "\<And>x. pg x \<noteq> pg m \<Longrightarrow> M x = mem s x"
  shows "wpe (mappages d a PGSIZE (V2P m) fl) nofault (page_added d m L a fl M s)
    ((kalloc_state (m # L) s)\<lparr>mem := M\<rparr>)"
proof -
  let ?k = "kalloc_state (m # L) s"
  let ?t = "?k\<lparr>mem := M\<rparr>"
  have vm: "vm_inv s d (m # L)" using inv by (rule uvm_invD)
  have k: "vm_inv ?k d L" using vm_inv_kalloc [OF vm] by simp
  have "M x = mem ?k x" if "pg x \<in> pg ` (owned (mem ?k) d \<union> set L)" for x
  proof -
    have "pg x \<noteq> pg m" using that fresh_free_page(3) [OF vm] by (metis page_ok_states(3))
    then show ?thesis using M [of x] by simp
  qed
  note t = vm_inv_mem [OF k this]
  have pt: "pte M d = pte (mem s) d" and own: "owned M d = owned (mem s) d" using t by simp_all
  have no_wrap: "unat a + unat PGSIZE \<le> 4294967296"
    using a(1) by (elim pgalignedE) simp
  from mappages_spec [OF t(1) _ no_wrap, of "V2P m" fl]
  have "wpe (mappages d a PGSIZE (V2P m) fl) nofault (map_outcome d L a 1 (V2P m) fl ?t) ?t"
    using range_mapped_1 [OF a(2)] by (simp add: page_count_1 [OF a(1)] pt)
  then show ?thesis
  proof (rule wpe_mono)
    fix r u
    assume "map_outcome d L a 1 (V2P m) fl ?t r u"
    then obtain L' where u: "vm_inv u d L'" "pt_step d ?t L u L'"
      and r: "r = 0 \<and> pte (mem u) d = map_range (pte (mem s) d) a 1 (V2P m) fl
        \<or> r = -1 \<and> L' = [] \<and> pte (mem u) d = pte (mem s) d"
      unfolding map_outcome_def by (auto simp: pt)
    show "page_added d m L a fl M s r u"
      by (rule page_added_outcome [OF inv a(2) fl M own u r])
  qed simp
qed

section \<open>Growing an address space\<close>

text \<open>
  \<open>resized d X s0 L0 lo hi s L\<close>: from \<open>s0\<close> to \<open>s\<close> only the entries of the pages \<open>lo\<close> to \<open>hi - 1\<close> may have
  changed; directory, tables, free list, the frames in that range and the pages \<open>X\<close> that the caller
  holds are together the pages that directory, tables and free list were made of at the start.
\<close>

definition tracked :: "u32 \<Rightarrow> u32 set \<Rightarrow> 'x kmemst_scheme \<Rightarrow> u32 list \<Rightarrow> bool" where
  "tracked d X s L \<longleftrightarrow>
     (\<forall>m \<in> X. page_ok s m \<and> m \<notin> owned (mem s) d \<union> set L \<union> frames (mem s) d 0 heap_pages)"

definition resized ::
    "u32 \<Rightarrow> u32 set \<Rightarrow> 'x kmemst_scheme \<Rightarrow> u32 list \<Rightarrow> nat \<Rightarrow> nat \<Rightarrow> 'x kmemst_scheme \<Rightarrow> u32 list \<Rightarrow> bool" where
  "resized d X s0 L0 lo hi s L \<longleftrightarrow>
     uvm_inv s d L \<and> kframe s0 s \<and> tracked d X s L
     \<and> (\<forall>va. \<not> (lo \<le> pg va \<and> pg va < hi) \<longrightarrow> pte (mem s) d va = pte (mem s0) d va)
     \<and> owned (mem s) d \<union> set L \<union> frames (mem s) d lo hi \<union> X = owned (mem s0) d \<union> set L0
     \<and> (\<forall>x. pg x \<notin> pg ` (owned (mem s0) d \<union> set L0) \<longrightarrow> mem s x = mem s0 x)"

text \<open>Growth by the pages \<open>lo\<close> to \<open>k - 1\<close>: each has a fresh, zeroed, user-writable frame.\<close>

definition grown ::
    "u32 \<Rightarrow> 'x kmemst_scheme \<Rightarrow> u32 list \<Rightarrow> nat \<Rightarrow> nat \<Rightarrow> 'x kmemst_scheme \<Rightarrow> u32 list \<Rightarrow> bool" where
  "grown d s0 L0 lo k s L \<longleftrightarrow>
     resized d {} s0 L0 lo k s L \<and> suffix L L0
     \<and> (\<forall>va. lo \<le> pg va \<and> pg va < k \<longrightarrow> PTE_FLAGS (pte (mem s) d va) = PTE_P OR PTE_W OR PTE_U)
     \<and> (\<forall>x. pg x \<in> pg ` frames (mem s) d lo k \<longrightarrow> mem s x = 0)"

text \<open>Failure: whatever had been added has been taken back.\<close>

definition not_grown ::
    "u32 \<Rightarrow> 'x kmemst_scheme \<Rightarrow> u32 list \<Rightarrow> nat \<Rightarrow> nat \<Rightarrow> 'x kmemst_scheme \<Rightarrow> bool" where
  "not_grown d s0 L0 lo hi s \<longleftrightarrow> (\<exists>L. resized d {} s0 L0 lo hi s L
     \<and> (\<forall>va. lo \<le> pg va \<and> pg va < hi \<longrightarrow> \<not> mapped (mem s) d va))"

lemma grown_refl: "uvm_inv s d L \<Longrightarrow> grown d s L lo lo s L"
  by (auto simp: grown_def resized_def tracked_def frames_def)

lemma frames_insert:
  assumes "\<And>va. pg va = k \<Longrightarrow> frame m' d va = f \<and> mapped m' d va"
    and "\<And>va. pg va \<noteq> k \<Longrightarrow> pte m' d va = pte m d va" and "pg a = k" "lo \<le> k"
  shows "frames m' d lo (Suc k) = insert f (frames m d lo k)"
proof (intro equalityI subsetI)
  fix x
  assume "x \<in> frames m' d lo (Suc k)"
  then obtain va where va: "x = frame m' d va" "lo \<le> pg va" "pg va < Suc k" "mapped m' d va"
    unfolding frames_def by blast
  show "x \<in> insert f (frames m d lo k)"
  proof (cases "pg va = k")
    case False
    then have "pg va < k" "frame m' d va = frame m d va" "mapped m d va"
      using va assms(2) [OF False] by (simp_all add: frame_def mapped_def)
    then show ?thesis using va unfolding frames_def by blast
  qed (use va assms(1) in blast)
next
  fix x
  assume "x \<in> insert f (frames m d lo k)"
  then consider "x = f" | va where "x = frame m d va" "lo \<le> pg va" "pg va < k" "mapped m d va"
    unfolding frames_def by blast
  then show "x \<in> frames m' d lo (Suc k)"
  proof cases
    case 1
    have "frame m' d a = f" "mapped m' d a" using assms(1,3) by blast+
    then show ?thesis using 1 assms(3,4) unfolding frames_def by blast
  next
    case (2 va)
    then have "frame m' d va = frame m d va" "mapped m' d va" "pg va < Suc k"
      using assms(2) [of va] by (simp_all add: frame_def mapped_def)
    then show ?thesis using 2 unfolding frames_def by (intro CollectI exI [of _ va]) simp
  qed
qed

lemma frames_not_kernel:
  assumes inv: "uvm_inv s d L" and f: "f \<in> frames (mem s) d lo hi" and hi: "hi \<le> heap_pages"
  shows "pg f \<notin> pg ` (owned (mem s) d \<union> set L)"
proof
  assume "pg f \<in> pg ` (owned (mem s) d \<union> set L)"
  then obtain x where x: "x \<in> owned (mem s) d \<union> set L" "pg f = pg x" by blast
  have f': "f \<in> frames (mem s) d 0 heap_pages" using f frames_mono [of 0 lo hi heap_pages] hi by blast
  have "page_ok s x"
    using x(1) uvm_invD(1,2,4) [OF inv] owned_page_ok [of s d x] by (auto simp: free_pages_def)
  moreover have "page_ok s f" using f' inv by (auto simp: uvm_inv_def)
  ultimately have "f = x" using x(2) page_eq_iff by blast
  then show False using x(1) f' inv by (auto simp: uvm_inv_def)
qed

lemma resized_step:
  assumes g: "resized d {} s0 L0 lo k s (m # L)" and k: "pg a = k" "lo \<le> k"
    and fl: "fl AND NOT 0xFFF = 0" and p: "page_added d m L a fl M s 0 t"
  obtains L' where "resized d {} s0 L0 lo (Suc k) t L'" "suffix L' L"
    "\<And>va. pg va = k \<Longrightarrow> frame (mem t) d va = m \<and> mapped (mem t) d va
       \<and> PTE_FLAGS (pte (mem t) d va) = fl OR PTE_P"
    "\<And>va. pg va \<noteq> k \<Longrightarrow> pte (mem t) d va = pte (mem s) d va"
    "\<And>x. pg x = pg m \<Longrightarrow> mem t x = M x"
    "\<And>x. pg x \<notin> pg ` (owned (mem s) d \<union> set (m # L)) \<Longrightarrow> mem t x = mem s x"
proof -
  obtain L' where t: "uvm_inv t d L'" "kframe s t" "suffix L' L"
    "owned (mem t) d \<union> set L' = owned (mem s) d \<union> set L" "\<And>x. pg x = pg m \<Longrightarrow> mem t x = M x"
    "\<And>x. pg x \<notin> pg ` (owned (mem s) d \<union> set (m # L)) \<Longrightarrow> mem t x = mem s x"
    "pte (mem t) d = map_range (pte (mem s) d) a 1 (V2P m) fl"
    using p unfolding page_added_def by auto
  have inv: "uvm_inv s d (m # L)" and cons: "owned (mem s) d \<union> set (m # L) \<union> frames (mem s) d lo k
      = owned (mem s0) d \<union> set L0"
    and g0: "kframe s0 s" "\<And>x. pg x \<notin> pg ` (owned (mem s0) d \<union> set L0) \<Longrightarrow> mem s x = mem s0 x"
      "\<And>va. \<not> (lo \<le> pg va \<and> pg va < k) \<Longrightarrow> pte (mem s) d va = pte (mem s0) d va"
    using g unfolding resized_def by blast+
  have pgm: "pgaligned m"
    by (rule page_ok_aligned [OF fresh_free_page(1) [OF uvm_invD(1) [OF inv]]])
  have new: "frame (mem t) d va = m \<and> mapped (mem t) d va \<and> PTE_FLAGS (pte (mem t) d va) = fl OR PTE_P"
    if "pg va = k" for va
    using that k new_pte [OF pgm fl] by (simp add: t(7) map_range_1 [unfolded One_nat_def] frame_def mapped_def)
  have old: "pte (mem t) d va = pte (mem s) d va" if "pg va \<noteq> k" for va
    using that k by (simp add: t(7) map_range_1 [unfolded One_nat_def])
  have F: "frames (mem t) d lo (Suc k) = insert m (frames (mem s) d lo k)"
    by (rule frames_insert [OF _ old k]) (use new in blast)+
  have "mem t x = mem s0 x" if "pg x \<notin> pg ` (owned (mem s0) d \<union> set L0)" for x
  proof -
    have "pg x \<notin> pg ` (owned (mem s) d \<union> set (m # L))" using that cons by blast
    then show ?thesis using t(6) g0(2) [OF that] by simp
  qed
  moreover have "kframe s0 t" by (rule kframe_trans [OF g0(1) t(2)])
  moreover have "owned (mem t) d \<union> set L' \<union> frames (mem t) d lo (Suc k) = owned (mem s0) d \<union> set L0"
    using cons t(4) unfolding F by auto
  moreover have "pte (mem t) d va = pte (mem s0) d va" if "\<not> (lo \<le> pg va \<and> pg va < Suc k)" for va
    using that old [of va] g0(3) [of va] k(2) by (metis less_Suc_eq)
  ultimately have "resized d {} s0 L0 lo (Suc k) t L'"
    unfolding resized_def tracked_def using t(1) by blast
  then show thesis using that [of L'] t(3,5,6) new old by blast
qed

lemma grown_step:
  assumes g: "grown d s0 L0 lo k s (m # L)" and k: "pg a = k" "lo \<le> k" "k < heap_pages"
    and p: "page_added d m L a (PTE_W OR PTE_U) (memset (mem s) m 0 PGSIZE) s 0 t"
  shows "\<exists>L'. grown d s0 L0 lo (Suc k) t L'"
proof -
  have r: "resized d {} s0 L0 lo k s (m # L)" "suffix (m # L) L0"
    and G: "\<And>va. lo \<le> pg va \<and> pg va < k \<Longrightarrow> PTE_FLAGS (pte (mem s) d va) = PTE_P OR PTE_W OR PTE_U"
      "\<And>x. pg x \<in> pg ` frames (mem s) d lo k \<Longrightarrow> mem s x = 0"
    using g unfolding grown_def by blast+
  have inv: "uvm_inv s d (m # L)" using r(1) by (simp add: resized_def)
  have pgm: "pgaligned m"
    by (rule page_ok_aligned [OF fresh_free_page(1) [OF uvm_invD(1) [OF inv]]])
  obtain L' where t: "resized d {} s0 L0 lo (Suc k) t L'" "suffix L' L"
    "\<And>va. pg va = k \<Longrightarrow> frame (mem t) d va = m \<and> mapped (mem t) d va
       \<and> PTE_FLAGS (pte (mem t) d va) = (PTE_W OR PTE_U) OR PTE_P"
    "\<And>va. pg va \<noteq> k \<Longrightarrow> pte (mem t) d va = pte (mem s) d va"
    "\<And>x. pg x = pg m \<Longrightarrow> mem t x = memset (mem s) m 0 PGSIZE x"
    "\<And>x. pg x \<notin> pg ` (owned (mem s) d \<union> set (m # L)) \<Longrightarrow> mem t x = mem s x"
    using resized_step [OF r(1) k(1,2) _ p] by simp metis
  have F: "frames (mem t) d lo (Suc k) = insert m (frames (mem s) d lo k)"
    by (rule frames_insert [OF _ t(4) k(1,2)]) (use t(3) in blast)+
  have "mem t x = 0" if "pg x \<in> pg ` frames (mem t) d lo (Suc k)" for x
  proof (cases "pg x = pg m")
    case True
    then show ?thesis using t(5) [OF True] pgm by (simp add: memset_page)
  next
    case False
    with that F obtain f where f: "f \<in> frames (mem s) d lo k" "pg x = pg f" by auto
    then have "mem s x = 0" using G(2) by blast
    moreover have "pg x \<notin> pg ` (owned (mem s) d \<union> set (m # L))"
      using frames_not_kernel [OF inv f(1)] f(2) k(3) by simp
    ultimately show ?thesis using t(6) by simp
  qed
  moreover have "suffix L' L0" using r(2) t(2) by (meson suffix_ConsD suffix_order.trans)
  moreover have "PTE_FLAGS (pte (mem t) d va) = PTE_P OR PTE_W OR PTE_U"
    if "lo \<le> pg va" "pg va < Suc k" for va
    using that t(3,4) [of va] G(1) [of va] by (cases "pg va = k") simp_all
  ultimately show ?thesis unfolding grown_def using t(1) by blast
qed

lemma klog_frame [simp]:
  "uvm_inv (s\<lparr>klog := k\<rparr>) d L = uvm_inv s d L" "kframe s0 (s\<lparr>klog := k\<rparr>) = kframe s0 s"
  "tracked d X (s\<lparr>klog := k\<rparr>) L = tracked d X s L"
proof -
  have c: "can_lock l (s\<lparr>klog := k\<rparr>) = can_lock l s" for l
    by (simp add: can_lock_def cpu_ok_def cpu_index_def cur_cpu_def)
  have p: "page_ok (s\<lparr>klog := k\<rparr>) = page_ok s" by (rule page_ok_cong) simp
  show "kframe s0 (s\<lparr>klog := k\<rparr>) = kframe s0 s"
    by (simp add: kframe_def lockview_def cur_cpu_def cpu_index_def)
  show "uvm_inv (s\<lparr>klog := k\<rparr>) d L = uvm_inv s d L" "tracked d X (s\<lparr>klog := k\<rparr>) L = tracked d X s L"
    by (simp_all add: uvm_inv_def vm_inv_def kmem_ready_def c free_pages_def pt_ok_def p tracked_def)
qed

lemma resized_klog [simp]: "resized d X s0 L0 lo hi (s\<lparr>klog := k\<rparr>) L = resized d X s0 L0 lo hi s L"
  by (simp add: resized_def)

lemma uvm_inv_kfree:
  assumes inv: "uvm_inv s d L"
    and m: "page_ok s m" "m \<notin> owned (mem s) d \<union> set L \<union> frames (mem s) d 0 heap_pages"
  shows "uvm_inv (kfree_state m s) d (m # L)"
proof -
  note k = vm_inv_kfree [OF uvm_invD(1) [OF inv] m(1), simplified] 
  have "vm_inv (kfree_state m s) d (m # L)" "pte (mem (kfree_state m s)) d = pte (mem s) d"
    "owned (mem (kfree_state m s)) d = owned (mem s) d"
    using m(2) k by auto
  then show ?thesis
    using inv m unfolding uvm_inv_def frames_cong [OF \<open>pte (mem (kfree_state m s)) d = pte (mem s) d\<close>]
    by auto
qed

lemma resized_kfree:
  assumes r: "resized d {m} s0 L0 lo hi s L" and m: "m \<in> owned (mem s0) d \<union> set L0"
  shows "resized d {} s0 L0 lo hi (kfree_state m s) (m # L)"
proof -
  have inv: "uvm_inv s d L" and h: "page_ok s m" "m \<notin> owned (mem s) d \<union> set L \<union> frames (mem s) d 0 heap_pages"
    and fr: "kframe s0 s"
    using r by (auto simp: resized_def tracked_def)
  have pt: "pte (mem (kfree_state m s)) d = pte (mem s) d"
    and own: "owned (mem (kfree_state m s)) d = owned (mem s) d"
    using vm_inv_kfree [OF uvm_invD(1) [OF inv] h(1)] h(2) by auto
  have "mem (kfree_state m s) x = mem s0 x" if "pg x \<notin> pg ` (owned (mem s0) d \<union> set L0)" for x
  proof -
    have "pg x \<noteq> pg m" using that m by blast
    then show ?thesis
      using r that h(1) unfolding resized_def by (simp add: kfree_state_other_page)
  qed
  then show ?thesis
    using r uvm_inv_kfree [OF inv h] kframe_trans [OF fr kframe_states(2) [OF uvm_invD(3) [OF inv]]]
    unfolding resized_def tracked_def frames_cong(1) [OF pt] pt own by auto
qed

lemma frames_upto:
  assumes "\<And>va. k \<le> pg va \<Longrightarrow> pg va < hi \<Longrightarrow> \<not> mapped m d va" "k \<le> hi"
  shows "frames m d lo hi = frames m d lo k"
proof -
  have "pg va < hi \<and> mapped m d va \<longleftrightarrow> pg va < k \<and> mapped m d va" for va
    using assms(1) [of va] assms(2) by (meson le_less_trans less_le_trans not_le)
  then show ?thesis unfolding frames_def by simp
qed

lemma frames_unmap:
  assumes "pte m' d = unmap_range (pte m d) lo hi"
  shows "frames m' d lo hi = {}" "frames m' d x y \<subseteq> frames m d x y"
    "lo \<le> pg va \<Longrightarrow> pg va < hi \<Longrightarrow> \<not> mapped m' d va"
proof -
  show un: "lo \<le> pg va \<Longrightarrow> pg va < hi \<Longrightarrow> \<not> mapped m' d va" for va
    by (simp add: mapped_def assms unmap_range_def)
  then show "frames m' d lo hi = {}" unfolding frames_def by blast
  show "frames m' d x y \<subseteq> frames m d x y"
  proof
    fix f
    assume "f \<in> frames m' d x y"
    then obtain va where va: "f = frame m' d va" "x \<le> pg va" "pg va < y" "mapped m' d va"
      unfolding frames_def by blast
    then have "pte m' d va = pte m d va" by (auto simp: assms unmap_range_def mapped_def)
    then have "f = frame m d va" "mapped m d va" using va by (simp_all add: frame_def mapped_def)
    then show "f \<in> frames m d x y" using va(2,3) unfolding frames_def by blast
  qed
qed

lemma tracked_dealloc:
  assumes "tracked d X s L" "page_ok s' = page_ok s" "owned (mem s') d = owned (mem s) d"
    "set F \<subseteq> frames (mem s) d 0 heap_pages"
    "frames (mem s') d 0 heap_pages \<subseteq> frames (mem s) d 0 heap_pages"
  shows "tracked d X s' (F @ L)"
  unfolding tracked_def
proof
  fix m
  assume m: "m \<in> X"
  then have "page_ok s m" "m \<notin> owned (mem s) d \<union> set L \<union> frames (mem s) d 0 heap_pages"
    using assms(1) unfolding tracked_def by blast+
  then show "page_ok s' m \<and> m \<notin> owned (mem s') d \<union> set (F @ L) \<union> frames (mem s') d 0 heap_pages"
    using assms(2-5) by auto
qed

lemma resized_dealloc:
  assumes r: "resized d X s0 L0 lo k s L" and k: "k \<le> hi" "hi \<le> heap_pages"
    and none: "\<And>va. k \<le> pg va \<Longrightarrow> pg va < hi \<Longrightarrow> \<not> mapped (mem s0) d va"
    and out: "dealloc_outcome d L lo hi s s'"
  shows "\<exists>L'. resized d X s0 L0 lo hi s' L' \<and> (\<forall>va. lo \<le> pg va \<and> pg va < hi \<longrightarrow> \<not> mapped (mem s') d va)"
proof -
  have R: "uvm_inv s d L" "kframe s0 s" "tracked d X s L"
    "\<And>va. \<not> (lo \<le> pg va \<and> pg va < k) \<Longrightarrow> pte (mem s) d va = pte (mem s0) d va"
    "owned (mem s) d \<union> set L \<union> frames (mem s) d lo k \<union> X = owned (mem s0) d \<union> set L0"
    "\<And>x. pg x \<notin> pg ` (owned (mem s0) d \<union> set L0) \<Longrightarrow> mem s x = mem s0 x"
    using r unfolding resized_def by blast+
  have "\<not> mapped (mem s) d va" if "k \<le> pg va" "pg va < hi" for va
    using none [OF that] R(4) [of va] that by (simp add: mapped_def)
  then have fr: "frames (mem s) d lo hi = frames (mem s) d lo k" using k(1) by (rule frames_upto)
  obtain F where F: "uvm_inv s' d (F @ L)" "set F = frames (mem s) d lo k"
    "pte (mem s') d = unmap_range (pte (mem s) d) lo hi"
    "owned (mem s') d = owned (mem s) d" "kframe s s'"
    "\<And>x. pg x \<notin> pg ` (owned (mem s) d \<union> frames (mem s) d lo k) \<Longrightarrow> mem s' x = mem s x"
    using out unfolding dealloc_outcome_def fr by blast
  note un = frames_unmap [OF F(3)]
  have "page_ok s' = page_ok s" using F(5) by (intro page_ok_cong) (simp add: kframe_def)
  moreover have "set F \<subseteq> frames (mem s) d 0 heap_pages"
    unfolding F(2) using k by (intro frames_mono) simp_all
  ultimately have "tracked d X s' (F @ L)"
    using un(2) by (rule tracked_dealloc [OF R(3) _ F(4)])
  moreover have "pte (mem s') d va = pte (mem s0) d va" if "\<not> (lo \<le> pg va \<and> pg va < hi)" for va
    using that R(4) [of va] k(1) by (auto simp: F(3) unmap_range_def)
  moreover have "mem s' x = mem s0 x" if "pg x \<notin> pg ` (owned (mem s0) d \<union> set L0)" for x
    using that R(6) [of x] F(6) [of x] unfolding R(5) [symmetric] by auto
  moreover have "owned (mem s') d \<union> set (F @ L) \<union> frames (mem s') d lo hi \<union> X = owned (mem s0) d \<union> set L0"
    using R(5) unfolding F(4) un(1) set_append F(2) by blast
  ultimately have "resized d X s0 L0 lo hi s' (F @ L)"
    unfolding resized_def using F(1) kframe_trans [OF R(2) F(5)] by blast
  with un(3) show ?thesis by blast
qed

lemma alloc_undo:
  fixes s0 s :: "'x kmemst_scheme"
  assumes r: "resized d X s0 L0 lo k s L" and k: "k \<le> hi" "hi \<le> heap_pages"
    and none: "\<And>va. k \<le> pg va \<Longrightarrow> pg va < hi \<Longrightarrow> \<not> mapped (mem s0) d va"
    and sz: "oldsz < newsz" "unat newsz \<le> 0x7F000000"
      "lo = (unat oldsz + 4095) div 4096" "hi = (unat newsz + 4095) div 4096"
    and K: "\<And>(s' :: 'x kmemst_scheme) L'. resized d X s0 L0 lo hi s' L' \<Longrightarrow>
      (\<forall>va. lo \<le> pg va \<and> pg va < hi \<longrightarrow> \<not> mapped (mem s') d va) \<Longrightarrow> wpe K nofault Q s'"
  shows "wpe (sq (cprintf f) (sq (deallocuvm d newsz oldsz) K)) nofault Q s"
proof -
  let ?s = "s\<lparr>klog := klog s @ [(f, [])]\<rparr>"
  have r': "resized d X s0 L0 lo k ?s L" using r by simp
  then have "uvm_inv ?s d L" by (simp add: resized_def)
  from deallocuvm_spec [OF this sz(2), of oldsz]
  have "wpe (deallocuvm d newsz oldsz) nofault (\<lambda>_. dealloc_outcome d L lo hi ?s) ?s"
    using sz by (elim wpe_mono) simp_all
  then have "wpe (deallocuvm d newsz oldsz) nofault (\<lambda>_. wpe K nofault Q) ?s"
  proof (rule wpe_mono)
    fix s'
    assume "dealloc_outcome d L lo hi ?s s'"
    from resized_dealloc [OF r' k none this] show "wpe K nofault Q s'" using K by blast
  qed simp
  then show ?thesis by (simp add: wpe_sq cprintf_def cprintfa_def wpe_modify)
qed

lemma resized_failed_page:
  assumes g: "resized d {} s0 L0 lo k s (m # L)" and p: "page_added d m L a fl M s (- 1) t"
  shows "resized d {m} s0 L0 lo k t []" and "m \<in> owned (mem s0) d \<union> set L0"
proof -
  have R: "uvm_inv s d (m # L)" "kframe s0 s"
    "\<And>va. \<not> (lo \<le> pg va \<and> pg va < k) \<Longrightarrow> pte (mem s) d va = pte (mem s0) d va"
    "owned (mem s) d \<union> set (m # L) \<union> frames (mem s) d lo k \<union> {} = owned (mem s0) d \<union> set L0"
    "\<And>x. pg x \<notin> pg ` (owned (mem s0) d \<union> set L0) \<Longrightarrow> mem s x = mem s0 x"
    using g unfolding resized_def by blast+
  have T: "uvm_inv t d []" "kframe s t" "owned (mem t) d = owned (mem s) d \<union> set L"
    "pte (mem t) d = pte (mem s) d"
    "\<And>x. pg x \<notin> pg ` (owned (mem s) d \<union> set (m # L)) \<Longrightarrow> mem t x = mem s x"
    using p unfolding page_added_def by auto
  show "m \<in> owned (mem s0) d \<union> set L0" using R(4) by auto
  note m = fresh_free_page [OF uvm_invD(1) [OF R(1)]]
  have "m \<notin> frames (mem s) d 0 heap_pages" using R(1) by (auto simp: uvm_inv_def)
  moreover have "page_ok t = page_ok s" using T(2) by (intro page_ok_cong) (simp add: kframe_def)
  ultimately have "tracked d {m} t []"
    using m(1,2) by (simp add: tracked_def T(3) frames_cong(1) [OF T(4)])
  moreover have "owned (mem t) d \<union> set [] \<union> frames (mem t) d lo k \<union> {m} = owned (mem s0) d \<union> set L0"
    using R(4) unfolding T(3) frames_cong(1) [OF T(4)] by auto
  moreover have "mem t x = mem s0 x" if "pg x \<notin> pg ` (owned (mem s0) d \<union> set L0)" for x
    using that R(5) [of x] T(5) [of x] unfolding R(4) [symmetric] by auto
  ultimately show "resized d {m} s0 L0 lo k t []"
    unfolding resized_def using T(1,4) R(3) kframe_trans [OF R(2) T(2)] by simp
qed

lemma resized_kalloc_none:
  assumes "resized d X s0 L0 lo k s []"
  shows "resized d X s0 L0 lo k (kalloc_state [] s) []"
proof -
  have inv: "uvm_inv s d []" and fr: "kframe s0 s" using assms by (simp_all add: resized_def)
  have "uvm_inv (kalloc_state [] s) d []"
    using vm_inv_kalloc [OF uvm_invD(1) [OF inv]] by (intro uvm_inv_keep [OF inv]) simp_all
  then show ?thesis
    using assms kframe_trans [OF fr kframe_states(1) [OF uvm_invD(3) [OF inv]]]
    by (simp add: resized_def tracked_def)
qed

definition alloc_outcome ::
    "u32 \<Rightarrow> u32 list \<Rightarrow> nat \<Rightarrow> nat \<Rightarrow> u32 \<Rightarrow> 'x kmemst_scheme \<Rightarrow> u32 \<Rightarrow> 'x kmemst_scheme \<Rightarrow> bool" where
  "alloc_outcome d L lo hi newsz s r s' \<longleftrightarrow>
     r = newsz \<and> (\<exists>L'. grown d s L lo hi s' L') \<or> r = 0 \<and> not_grown d s L lo hi s'"

text \<open>The part of \<open>allocuvm\<close>'s loop body that follows a successful \<open>kalloc\<close>.\<close>

lemma alloc_iteration:
  fixes s0 s :: "'x kmemst_scheme"
  assumes g: "grown d s0 L0 lo (pg a) s (m # L)" and a: "pgaligned a" "lo \<le> pg a" "pg a < hi" "hi \<le> heap_pages"
    and none: "\<And>va. lo \<le> pg va \<Longrightarrow> pg va < hi \<Longrightarrow> \<not> mapped (mem s0) d va"
    and sz: "oldsz < newsz" "unat newsz \<le> 0x7F000000"
      "lo = (unat oldsz + 4095) div 4096" "hi = (unat newsz + 4095) div 4096"
    and rest: "\<And>(t :: 'x kmemst_scheme) L'. grown d s0 L0 lo (Suc (pg a)) t L' \<Longrightarrow>
      wpe K nofault (alloc_outcome d L0 lo hi newsz s0) t"
  shows "wpe (bnd (mappages d a PGSIZE (V2P m) (PTE_W OR PTE_U)) (\<lambda>r.
          if r < 0 then sq (cprintf f) (sq (deallocuvm d newsz oldsz) (sq (kfree m) (ret 0))) else K))
      nofault (alloc_outcome d L0 lo hi newsz s0)
      ((kalloc_state (m # L) s)\<lparr>mem := memset (mem s) m 0 PGSIZE\<rparr>)"
proof -
  let ?M = "memset (mem s) m 0 PGSIZE"
  have inv: "uvm_inv s d (m # L)" and R: "resized d {} s0 L0 lo (pg a) s (m # L)"
    using g by (simp_all add: grown_def resized_def)
  have free: "\<not> mapped (mem s) d a" using none [OF a(2,3)] R unfolding resized_def mapped_def by simp
  have mal: "pgaligned m"
    by (rule page_ok_aligned [OF fresh_free_page(1) [OF uvm_invD(1) [OF inv]]])
  then have "?M x = mem s x" if "pg x \<noteq> pg m" for x using that by (simp add: memset_page)
  then have pa: "wpe (mappages d a PGSIZE (V2P m) (PTE_W OR PTE_U)) nofault
      (page_added d m L a (PTE_W OR PTE_U) ?M s) ((kalloc_state (m # L) s)\<lparr>mem := ?M\<rparr>)"
    by (intro page_added_spec [OF inv a(1) free]) simp_all
  show ?thesis
    unfolding wpe_bnd
  proof (rule wpe_mono [OF pa])
    fix r t
    assume p: "page_added d m L a (PTE_W OR PTE_U) ?M s r t"
    then consider "r = 0" | "r = -1" unfolding page_added_def by blast
    then show "wpe (if r < 0 then sq (cprintf f) (sq (deallocuvm d newsz oldsz) (sq (kfree m) (ret 0))) else K)
        nofault (alloc_outcome d L0 lo hi newsz s0) t"
    proof cases
      case 1
      obtain L' where "grown d s0 L0 lo (Suc (pg a)) t L'"
        using grown_step [OF g refl a(2) _ p [unfolded 1]] a(3,4) by auto
      from rest [OF this] show ?thesis using 1 by simp
    next
      case 2
      note failed = resized_failed_page [OF R p [unfolded 2]]
      have none': "\<not> mapped (mem s0) d va" if "pg a \<le> pg va" "pg va < hi" for va
        using none that a(2) by simp
      have "wpe (sq (kfree m) (ret 0)) nofault (alloc_outcome d L0 lo hi newsz s0) s'"
        if s': "resized d {m} s0 L0 lo hi s' L'" "\<forall>va. lo \<le> pg va \<and> pg va < hi \<longrightarrow> \<not> mapped (mem s') d va"
        for s' :: "'x kmemst_scheme" and L'
      proof -
        have i: "uvm_inv s' d L'" and ok: "page_ok s' m" "m \<notin> owned (mem s') d \<union> set L' \<union> frames (mem s') d 0 heap_pages"
          using s'(1) by (auto simp: resized_def tracked_def)
        have "pte (mem (kfree_state m s')) d = pte (mem s') d"
          using vm_inv_kfree(4) [OF uvm_invD(1) [OF i] ok(1)] ok(2) by auto
        then have "not_grown d s0 L0 lo hi (kfree_state m s')"
          unfolding not_grown_def using resized_kfree [OF s'(1) failed(2)] s'(2) frames_cong(2) by metis
        then show ?thesis
          by (simp add: wpe_sq wpe_ret wpe_ret_eq [where m = "kfree m" and s = s', OF kfree_eq [OF uvm_invD(3) [OF i] ok(1)]] alloc_outcome_def)
      qed
      from alloc_undo [OF failed(1) less_imp_le [OF a(3)] a(4) none' sz this] show ?thesis using 2 by simp
    qed
  qed simp
qed

lemma allocuvm_loop_spec:
  fixes s0 s :: "'x kmemst_scheme"
  assumes "grown d s0 L0 lo (pg a) s L" "pgaligned a" "lo \<le> pg a" "pg a \<le> hi" "hi - pg a < fuel"
    and sz: "unat newsz \<le> 0x7F000000" "lo = (unat oldsz + 4095) div 4096" "hi = (unat newsz + 4095) div 4096"
    and none: "\<And>va. lo \<le> pg va \<Longrightarrow> pg va < hi \<Longrightarrow> \<not> mapped (mem s0) d va"
  shows "wpe (allocuvm_loop fuel d a oldsz newsz) nofault (alloc_outcome d L0 lo hi newsz s0) s"
  using assms(1-5)
proof (induction fuel arbitrary: s L a)
  case 0
  then show ?case by simp
next
  case (Suc fuel)
  have hp: "hi \<le> heap_pages" using sz by simp
  have R: "resized d {} s0 L0 lo (pg a) s L" and inv: "uvm_inv s d L"
    using Suc.prems(1) by (simp_all add: grown_def resized_def)
  have ready: "kmem_ready s" "free_pages s L" using inv by (simp_all add: uvm_invD)
  have lt_iff: "a < newsz \<longleftrightarrow> pg a < hi" using below_pages [OF Suc.prems(2)] sz by simp
  show ?case
  proof (cases "pg a < hi")
    case False
    then have "pg a = hi" using Suc.prems(4) by simp
    then show ?thesis using Suc.prems(1) False lt_iff by (auto simp: wpe_ret alloc_outcome_def)
  next
    case lt: True
    have old: "oldsz < newsz"
    proof -
      have "(unat oldsz + 4095) div 4096 < (unat newsz + 4095) div 4096" using lt Suc.prems(3) sz by simp
      then show ?thesis by (metis div_le_mono add_le_mono1 not_le word_less_nat_alt word_le_nat_alt)
    qed
    show ?thesis
    proof (cases L)
      case Nil
      have none': "\<not> mapped (mem s0) d va" if "pg a \<le> pg va" "pg va < hi" for va
        using none that Suc.prems(3) by simp
      from resized_kalloc_none [OF R [unfolded Nil]]
      have "wpe (sq (cprintf ''allocuvm out of memory\<newline>'') (sq (deallocuvm d newsz oldsz) (ret 0))) nofault
          (alloc_outcome d L0 lo hi newsz s0) (kalloc_state L s)"
        unfolding Nil
        by (rule alloc_undo [OF _ less_imp_le [OF lt] hp none' old sz])
          (auto simp: wpe_ret not_grown_def alloc_outcome_def)
      then show ?thesis
        using lt lt_iff Nil by (simp add: wpe_bnd kmem_wpe [OF ready] head0_def)
    next
      case (Cons m L1)
      have m: "m \<noteq> 0"
        using fresh_free_page(1) [OF uvm_invD(1) [OF inv [unfolded Cons]]] by (auto simp: page_ok_def)
      have nx: "pg (a + PGSIZE) = Suc (pg a)" "pgaligned (a + PGSIZE)"
        using pg_next [OF Suc.prems(2)] lt hp by (auto simp: pg_def)
      have rest: "wpe (allocuvm_loop fuel d (a + PGSIZE) oldsz newsz) nofault (alloc_outcome d L0 lo hi newsz s0) t"
        if "grown d s0 L0 lo (Suc (pg a)) t L'" for t :: "'x kmemst_scheme" and L'
        using Suc.IH [of "a + PGSIZE" t L'] that Suc.prems(3,5) lt nx by simp
      have "wpe (bnd (mappages d a PGSIZE (V2P m) (PTE_W OR PTE_U)) (\<lambda>r.
          if r < 0 then sq (cprintf ''allocuvm out of memory (2)\<newline>'')
            (sq (deallocuvm d newsz oldsz) (sq (kfree m) (ret 0)))
          else allocuvm_loop fuel d (a + PGSIZE) oldsz newsz))
        nofault (alloc_outcome d L0 lo hi newsz s0) ((kalloc_state L s)\<lparr>mem := memset (mem s) m 0 PGSIZE\<rparr>)"
        unfolding Cons
        by (rule alloc_iteration [OF Suc.prems(1) [unfolded Cons] Suc.prems(2,3) lt hp _ old sz])
          ((rule none; assumption) | (rule rest; assumption))+
      moreover have h0: "head0 L = m" by (simp add: Cons head0_def)
      ultimately show ?thesis
        using lt lt_iff m by (simp add: wpe_bnd wpe_sq wpe_kmemset kmem_wpe [OF ready, unfolded h0])
    qed
  qed
qed

lemma allocuvm_spec:
  assumes "uvm_inv s d L" "newsz < HEAPLIMIT" "oldsz \<le> newsz"
    and lo: "lo = (unat oldsz + 4095) div 4096" and hi: "hi = (unat newsz + 4095) div 4096"
    and none: "\<And>va. lo \<le> pg va \<Longrightarrow> pg va < hi \<Longrightarrow> \<not> mapped (mem s) d va"
  shows "wpe (allocuvm d oldsz newsz) nofault (alloc_outcome d L lo hi newsz s) s"
proof -
  have sz: "unat newsz \<le> 0x7F000000" "unat oldsz \<le> unat newsz"
    using assms(2,3) by (simp_all add: word_less_nat_alt word_le_nat_alt)
  have pgo: "pg (PGROUNDUP oldsz) = lo" using pages_up [of oldsz] sz lo by simp
  have "grown d s L lo (pg (PGROUNDUP oldsz)) s L" unfolding pgo by (rule grown_refl [OF assms(1)])
  moreover have "lo \<le> hi" using sz lo hi by (simp add: div_le_mono)
  moreover have "hi - pg (PGROUNDUP oldsz) < 1048576" using sz hi by simp
  ultimately have "wpe (allocuvm_loop 1048576 d (PGROUNDUP oldsz) oldsz newsz) nofault
      (alloc_outcome d L lo hi newsz s) s"
    using pgo by (intro allocuvm_loop_spec sz(1) lo hi none) simp_all
  then show ?thesis using assms(2,3) by (simp add: allocuvm_def not_le [symmetric])
qed

section \<open>Freeing an address space\<close>

text \<open>The page tables with directory index below \<open>j\<close> have been freed.\<close>

definition tables_below :: "bytes \<Rightarrow> u32 \<Rightarrow> nat \<Rightarrow> u32 set" where
  "tables_below m d j = {i \<in> tables m d. unat i < j}"

definition tables_freed :: "u32 \<Rightarrow> u32 list \<Rightarrow> 'x kmemst_scheme \<Rightarrow> nat \<Rightarrow> 'x kmemst_scheme \<Rightarrow> bool" where
  "tables_freed d L s j t \<longleftrightarrow> (\<exists>F. free_pages t (F @ L) \<and> kmem_ready t \<and> kframe s t
     \<and> set F = ptab (mem s) d ` tables_below (mem s) d j
     \<and> (\<forall>x. pg x \<notin> pg ` set F \<longrightarrow> mem t x = mem s x))"

lemma unat_of_nat_small: "j < 4294967296 \<Longrightarrow> unat (of_nat j :: u32) = j"
  by (simp add: unat_of_nat take_bit_nat_def)

lemma tables_below_Suc:
  assumes "j < 1024"
  shows "tables_below m d (Suc j) =
    (if of_nat j \<in> tables m d then insert (of_nat j) (tables_below m d j) else tables_below m d j)"
proof -
  have i: "unat i = j \<longleftrightarrow> i = of_nat j" for i :: u32
    using assms by (auto simp: unat_of_nat_small word_unat_eq_iff)
  show ?thesis by (auto simp: tables_below_def less_Suc_eq i)
qed

lemma tables_freed_step:
  assumes vm: "vm_inv s d L" and j: "j < 1024" and t: "tables_freed d L s j t"
  shows "wpe (bnd (rd32 (d + 4 * of_nat j)) (\<lambda>e. whenk (e AND PTE_P \<noteq> 0) (kfree (P2V (PTE_ADDR e)))))
    nofault (\<lambda>_. tables_freed d L s (Suc j)) t"
proof -
  let ?i = "of_nat j :: u32" and ?m = "mem s"
  obtain F where F: "free_pages t (F @ L)" "kmem_ready t" "kframe s t"
    "set F = ptab ?m d ` tables_below ?m d j" "\<And>x. pg x \<notin> pg ` set F \<Longrightarrow> mem t x = ?m x"
    using t unfolding tables_freed_def by blast
  have i: "unat ?i = j" using j by (simp add: unat_of_nat_small)
  have ok: "pt_ok s d" and disj: "owned ?m d \<inter> set L = {}" using vm by (simp_all add: vm_inv_def)
  have inj: "inj_on (ptab ?m d) (tables ?m d)" using ok by (simp add: pt_ok_def)
  have d: "pgaligned d" by (rule page_ok_aligned [OF pt_ok_dir [OF ok]])
  have "ptab ?m d k \<noteq> d" if "k \<in> tables_below ?m d j" for k
    using that ok by (auto simp: pt_ok_def tables_below_def)
  then have "pg d \<noteq> pg (ptab ?m d k)" if "k \<in> tables_below ?m d j" for k
    using that page_disjoint [OF d pgaligned_ptab] by metis
  then have "pg d \<notin> pg ` set F" unfolding F(4) by blast
  then have "mem t x = ?m x" if "pg x = pg d" for x using that F(5) [of x] by simp
  then have e: "load32 (mem t) (d + 4 * ?i) = pde ?m d ?i"
    using pde_cong [OF d, of ?i "mem t" ?m] i j by (simp add: pde_def)
  have pok: "page_ok t = page_ok s" using F(3) by (intro page_ok_cong) (simp add: kframe_def)
  show ?thesis
  proof (cases "?i \<in> tables ?m d")
    case False
    then have "tables_freed d L s (Suc j) t"
      using t by (simp add: tables_freed_def tables_below_Suc [OF j])
    moreover have "pde ?m d ?i AND PTE_P = 0" using False i j by (simp add: tables_def)
    ultimately show ?thesis by (simp add: wpe_bnd wpe_rd32 wpe_whenk e)
  next
    case True
    let ?v = "ptab ?m d ?i"
    have v: "page_ok t ?v" using True ok by (simp add: pok pt_ok_def)
    have "?v \<notin> set F"
    proof
      assume "?v \<in> set F"
      then obtain k where k: "k \<in> tables_below ?m d j" "ptab ?m d k = ?v" unfolding F(4) by auto
      then have "k = ?i" using inj True by (auto simp: tables_below_def dest: inj_onD)
      then show False using k(1) i by (simp add: tables_below_def)
    qed
    moreover have "?v \<notin> set L" using disj True by (auto simp: owned_def)
    ultimately have "free_pages (kfree_state ?v t) (?v # F @ L)"
      using F(1) v by (intro free_pages_kfree) simp_all
    moreover have "mem (kfree_state ?v t) x = ?m x" if "pg x \<notin> pg ` set (?v # F)" for x
      using that F(5) [of x] by (simp add: kfree_state_other_page)
    ultimately have "tables_freed d L s (Suc j) (kfree_state ?v t)"
      unfolding tables_freed_def
      using F(2-4) True kframe_trans [OF F(3) kframe_states(2) [OF F(2)]]
      by (intro exI [of _ "?v # F"]) (simp add: tables_below_Suc [OF j] ready_states)
    moreover have "pde ?m d ?i AND PTE_P \<noteq> 0" using True by (simp add: tables_def)
    moreover have "kfree (P2V (PTE_ADDR (pde ?m d ?i))) t = Inr ((), kfree_state ?v t)"
      using kfree_eq [OF F(2) v] by (simp add: ptab_def)
    ultimately show ?thesis by (simp add: wpe_bnd wpe_rd32 wpe_whenk e) (simp add: wpe_def)
  qed
qed

text \<open>
  Everything an address space consists of (user frames, page tables, the directory) goes back to the
  free list, each page once.
\<close>

definition freed :: "u32 \<Rightarrow> u32 list \<Rightarrow> 'x kmemst_scheme \<Rightarrow> 'x kmemst_scheme \<Rightarrow> bool" where
  "freed d L s s' \<longleftrightarrow> (\<exists>L'. free_pages s' L' \<and> kmem_ready s' \<and> kframe s s'
     \<and> set L' = set L \<union> owned (mem s) d \<union> frames (mem s) d 0 heap_pages
     \<and> (\<forall>x. pg x \<notin> pg ` (owned (mem s) d \<union> frames (mem s) d 0 heap_pages) \<longrightarrow> mem s' x = mem s x))"

lemma free_dir:
  assumes F: "uvm_inv t d (F @ L)" "set F = frames (mem s) d 0 heap_pages"
      "owned (mem t) d = owned (mem s) d" "kframe s t"
      "\<And>x. pg x \<notin> pg ` (owned (mem s) d \<union> frames (mem s) d 0 heap_pages) \<Longrightarrow> mem t x = mem s x"
    and u: "tables_freed d (F @ L) t 1024 u"
  shows "wpe (kfree d) nofault (\<lambda>_. freed d L s) u"
proof -
  have all: "tables_below (mem t) d 1024 = tables (mem t) d"
    by (auto simp: tables_below_def dest: tables_lt)
  obtain G where G: "free_pages u (G @ F @ L)" "kmem_ready u" "kframe t u"
    "set G = ptab (mem t) d ` tables (mem t) d" "\<And>x. pg x \<notin> pg ` set G \<Longrightarrow> mem u x = mem t x"
    using u unfolding tables_freed_def all by blast
  have ok: "pt_ok t d" "d \<notin> set (F @ L)" using uvm_invD(1) [OF F(1)] by (auto simp: vm_inv_def owned_def)
  have "d \<notin> set G" using ok(1) unfolding G(4) by (auto simp: pt_ok_def)
  moreover have d: "page_ok u d"
  proof -
    have "page_ok u = page_ok t" using G(3) by (intro page_ok_cong) (simp add: kframe_def)
    then show ?thesis using ok(1) by (simp add: pt_ok_def)
  qed
  ultimately have fp: "free_pages (kfree_state d u) (d # G @ F @ L)"
    using G(1) ok(2) by (intro free_pages_kfree) simp_all
  have "insert d (set G) = owned (mem t) d" by (simp add: owned_def G(4))
  then have own: "insert d (set G) = owned (mem s) d" by (simp only: F(3))
  then have set: "set (d # G @ F @ L) = set L \<union> owned (mem s) d \<union> frames (mem s) d 0 heap_pages"
    using F(2) by auto
  have "mem (kfree_state d u) x = mem s x"
    if "pg x \<notin> pg ` (owned (mem s) d \<union> frames (mem s) d 0 heap_pages)" for x
    using that F(5) [of x] G(5) [of x] d unfolding own [symmetric] by (auto simp: kfree_state_other_page)
  then have "freed d L s (kfree_state d u)"
    unfolding freed_def using fp set kframe_trans [OF F(4) kframe_trans [OF G(3) kframe_states(2) [OF G(2)]]] G(2)
    by (intro exI [of _ "d # G @ F @ L"]) (simp only: ready_states simp_thms, blast)
  then show ?thesis by (simp add: wpe_def kfree_eq [OF G(2) d])
qed

lemma freevm_spec:
  assumes inv: "uvm_inv s d L"
  shows "wpe (freevm d) nofault (\<lambda>_. freed d L s) s"
proof -
  have "d \<noteq> 0" using uvm_invD(2) [OF inv] by (auto simp: pt_ok_def page_ok_def)
  moreover have "wpe (deallocuvm d HEAPLIMIT 0) nofault (\<lambda>_. wpe (sq (each 0 NPDENTRIES (\<lambda>i.
        bnd (rd32 (d + 4 * of_nat i)) (\<lambda>e. whenk (e AND PTE_P \<noteq> 0) (kfree (P2V (PTE_ADDR e))))))
        (kfree d)) nofault (\<lambda>_. freed d L s)) s"
  proof (rule wpe_mono [OF deallocuvm_spec [OF inv]])
    fix r t
    assume "if 0 < HEAPLIMIT then r = 0 \<and> dealloc_outcome d L ((unat (0 :: u32) + 4095) div 4096)
        ((unat HEAPLIMIT + 4095) div 4096) s t else r = HEAPLIMIT \<and> t = s"
    then have "dealloc_outcome d L 0 heap_pages s t" by simp
    then obtain F where F: "uvm_inv t d (F @ L)" "set F = frames (mem s) d 0 heap_pages"
      "owned (mem t) d = owned (mem s) d" "kframe s t"
      "\<And>x. pg x \<notin> pg ` (owned (mem s) d \<union> frames (mem s) d 0 heap_pages) \<Longrightarrow> mem t x = mem s x"
      unfolding dealloc_outcome_def by blast
    have "tables_freed d (F @ L) t 0 t"
      using uvm_invD(3,4) [OF F(1)]
      by (auto simp: tables_freed_def tables_below_def intro!: exI [of _ "[]"])
    then have loop: "wpe (each 0 NPDENTRIES (\<lambda>i. bnd (rd32 (d + 4 * of_nat i)) (\<lambda>e.
        whenk (e AND PTE_P \<noteq> 0) (kfree (P2V (PTE_ADDR e)))))) nofault (\<lambda>_. tables_freed d (F @ L) t 1024) t"
      by (rule wpe_each) (use tables_freed_step [OF uvm_invD(1) [OF F(1)]] in simp_all)
    show "wpe (sq (each 0 NPDENTRIES (\<lambda>i. bnd (rd32 (d + 4 * of_nat i)) (\<lambda>e.
        whenk (e AND PTE_P \<noteq> 0) (kfree (P2V (PTE_ADDR e)))))) (kfree d)) nofault (\<lambda>_. freed d L s) t"
      unfolding wpe_sq
    proof (rule wpe_mono [OF loop])
      fix u
      assume "tables_freed d (F @ L) t 1024 u"
      from free_dir [OF F(1-4) _ this] F(5) show "wpe (kfree d) nofault (\<lambda>_. freed d L s) u" by blast
    qed simp
  qed simp_all
  ultimately show ?thesis by (simp add: freevm_def wpe_sq)
qed

end
