(* ===== verification/Kvm.thy ===== *)
theory Kvm
  imports Uvm
begin

text \<open>
  The kernel half of every page table, copying an address space for \<open>fork\<close>, and copying bytes out to
  user memory. The last section holds the properties of vm.c's page-table code.
\<close>

section \<open>The kernel mappings\<close>

primrec kmap_ptes :: "(u32 \<Rightarrow> u32) \<Rightarrow> (u32 \<times> u32 \<times> u32 \<times> u32) list \<Rightarrow> (u32 \<Rightarrow> u32)" where
  "kmap_ptes f [] = f"
| "kmap_ptes f (k # ks) = (case k of (virt, phys_start, phys_end, perm) \<Rightarrow>
     kmap_ptes (map_range f virt (page_count virt (phys_end - phys_start)) phys_start perm) ks)"

text \<open>Every entry is a non-empty range above user memory that does not overlap what is mapped already.\<close>

primrec kmap_ok :: "(u32 \<Rightarrow> u32) \<Rightarrow> (u32 \<times> u32 \<times> u32 \<times> u32) list \<Rightarrow> bool" where
  "kmap_ok f [] \<longleftrightarrow> True"
| "kmap_ok f (k # ks) \<longleftrightarrow> (case k of (virt, phys_start, phys_end, perm) \<Rightarrow>
     0 < phys_end - phys_start \<and> unat virt + unat (phys_end - phys_start) \<le> 4294967296
     \<and> heap_pages \<le> pg virt \<and> \<not> range_mapped f virt (page_count virt (phys_end - phys_start))
     \<and> kmap_ok (map_range f virt (page_count virt (phys_end - phys_start)) phys_start perm) ks)"

definition no_user :: "(u32 \<Rightarrow> u32) \<Rightarrow> bool" where
  "no_user f \<longleftrightarrow> (\<forall>va. pg va < heap_pages \<longrightarrow> f va = 0)"

lemma no_user_frames: "no_user (pte m d) \<Longrightarrow> frames m d lo heap_pages = {}"
  by (auto simp: no_user_def frames_def mapped_def)

lemma no_user_inv:
  assumes "vm_inv s d L" "KERNBASE < kend s" "no_user (pte (mem s) d)"
  shows "uvm_inv s d L"
  using assms unfolding uvm_inv_def no_user_frames [OF assms(3)] by (auto simp: no_user_def mapped_def)

lemma no_user_map_range: "no_user f \<Longrightarrow> heap_pages \<le> pg a \<Longrightarrow> no_user (map_range f a n pa perm)"
  by (simp add: no_user_def map_range_def)

definition kvm_outcome ::
    "u32 \<Rightarrow> (u32 \<Rightarrow> u32) \<Rightarrow> u32 set \<Rightarrow> 'x kmemst_scheme \<Rightarrow> u32 \<Rightarrow> 'x kmemst_scheme \<Rightarrow> bool" where
  "kvm_outcome d f P s r s' \<longleftrightarrow> kframe s s' \<and> (\<forall>x. pg x \<notin> pg ` P \<longrightarrow> mem s' x = mem s x)
     \<and> (\<exists>L'. if r = 0 then free_pages s' L' \<and> kmem_ready s' \<and> set L' = P
        else r = d \<and> uvm_inv s' d L' \<and> pte (mem s') d = f \<and> owned (mem s') d \<union> set L' = P)"

lemma kvm_outcome_trans:
  assumes "kframe s t" "\<And>x. pg x \<notin> pg ` P \<Longrightarrow> mem t x = mem s x" "kvm_outcome d f P t r s'"
  shows "kvm_outcome d f P s r s'"
  using assms kframe_trans [OF assms(1)] unfolding kvm_outcome_def by metis

lemma setupkvm_step:
  assumes vm: "vm_inv s d L" "KERNBASE < kend s" "no_user (pte (mem s) d)" "heap_pages \<le> pg virt"
    and out: "map_outcome d L virt n ps perm s r t"
    and rest: "\<And>L'. r = 0 \<Longrightarrow> vm_inv t d L' \<Longrightarrow> KERNBASE < kend t \<Longrightarrow> no_user (pte (mem t) d) \<Longrightarrow>
      pte (mem t) d = map_range (pte (mem s) d) virt n ps perm \<Longrightarrow>
      owned (mem t) d \<union> set L' = owned (mem s) d \<union> set L \<Longrightarrow>
      wpe K nofault (kvm_outcome d g (owned (mem s) d \<union> set L) t) t"
  shows "wpe (if r < 0 then sq (freevm d) (ret 0) else K) nofault
      (kvm_outcome d g (owned (mem s) d \<union> set L) s) t"
proof -
  let ?P = "owned (mem s) d \<union> set L" and ?f = "pte (mem s) d"
  obtain L' where t: "vm_inv t d L'" "pt_step d s L t L'"
    and r: "r = 0 \<and> pte (mem t) d = map_range ?f virt n ps perm
      \<or> r = -1 \<and> L' = [] \<and> (\<exists>j. pte (mem t) d = map_range ?f virt j ps perm)"
    using out unfolding map_outcome_def by blast
  have fr: "kframe s t" and cons: "owned (mem t) d \<union> set L' = ?P"
    and mem: "\<And>x. pg x \<notin> pg ` ?P \<Longrightarrow> mem t x = mem s x"
    using t(2) by (simp_all add: pt_step_def)
  have kend: "KERNBASE < kend t" using fr vm(2) by (simp add: kframe_def)
  have nu: "no_user (pte (mem t) d)" using r no_user_map_range [OF vm(3,4)] by auto
  have lift: "kvm_outcome d g ?P s r' t'" if "kvm_outcome d g ?P t r' t'" for r' t'
    using kvm_outcome_trans [OF fr mem that] by blast
  from r show ?thesis
  proof (elim disjE conjE)
    assume r0: "r = 0" and p: "pte (mem t) d = map_range ?f virt n ps perm"
    from rest [OF r0 t(1) kend nu p cons] have "wpe K nofault (kvm_outcome d g ?P s) t"
      by (rule wpe_mono) (auto intro: lift)
    then show ?thesis using r0 by simp
  next
    assume rm: "r = -1" and L': "L' = []"
    have P: "?P = owned (mem t) d" using cons L' by simp
    have "kvm_outcome d g ?P s 0 t'" if "freed d [] t t'" for t'
      using that unfolding freed_def no_user_frames [OF nu]
      by (intro lift) (auto simp: kvm_outcome_def P)
    with freevm_spec [OF no_user_inv [OF t(1) kend nu, unfolded L']]
    have "wpe (freevm d) nofault (\<lambda>_. kvm_outcome d g ?P s 0) t" by (elim wpe_mono) blast+
    then show ?thesis using rm by (simp add: wpe_sq wpe_ret)
  qed
qed

lemma setupkvm_loop_spec:
  fixes s :: "'x kmemst_scheme"
  assumes "vm_inv s d L" "KERNBASE < kend s" "no_user (pte (mem s) d)" "kmap_ok (pte (mem s) d) ks"
  shows "wpe (setupkvm_loop d ks) nofault
    (kvm_outcome d (kmap_ptes (pte (mem s) d) ks) (owned (mem s) d \<union> set L) s) s"
  using assms
proof (induction ks arbitrary: s L)
  case Nil
  have "d \<noteq> 0" using Nil(1) by (auto simp: vm_inv_def pt_ok_def page_ok_def)
  then show ?case
    using no_user_inv [OF Nil(1-3)] by (auto simp: wpe_ret kvm_outcome_def)
next
  case (Cons k ks)
  obtain virt ps pe perm where k: "k = (virt, ps, pe, perm)" by (metis surj_pair)
  let ?sz = "pe - ps" and ?f = "pte (mem s) d"
  let ?n = "page_count virt ?sz"
  have ok: "0 < ?sz" "unat virt + unat ?sz \<le> 4294967296" "heap_pages \<le> pg virt"
    "\<not> range_mapped ?f virt ?n" "kmap_ok (map_range ?f virt ?n ps perm) ks"
    using Cons.prems(4) by (simp_all add: k)
  have mp: "wpe (mappages d virt ?sz ps perm) nofault (map_outcome d L virt ?n ps perm s) s"
    using mappages_spec [OF Cons.prems(1) ok(1,2), of ps perm] ok(4) by simp
  have "wpe (if r < 0 then sq (freevm d) (ret 0) else setupkvm_loop d ks) nofault
      (kvm_outcome d (kmap_ptes (map_range ?f virt ?n ps perm) ks) (owned (mem s) d \<union> set L) s) t"
    if "map_outcome d L virt ?n ps perm s r t" for r t
  proof (rule setupkvm_step [OF Cons.prems(1-3) ok(3) that])
    fix L'
    assume "vm_inv t d L'" "KERNBASE < kend t" "no_user (pte (mem t) d)"
      and "pte (mem t) d = map_range ?f virt ?n ps perm"
      and "owned (mem t) d \<union> set L' = owned (mem s) d \<union> set L"
    then show "wpe (setupkvm_loop d ks) nofault
        (kvm_outcome d (kmap_ptes (map_range ?f virt ?n ps perm) ks) (owned (mem s) d \<union> set L) t) t"
      using Cons.IH [of t L'] ok(5) by simp
  qed
  from wpe_mono [OF mp this] show ?case by (simp add: k wpe_bnd)
qed

lemma range_mapped_disjoint:
  assumes "\<not> range_mapped f b m" "pg a + n \<le> pg b \<or> pg b + m \<le> pg a"
  shows "\<not> range_mapped (map_range f a n pa perm) b m"
  using assms by (fastforce simp: range_mapped_def map_range_def)

lemma range_mapped_zero: "\<not> range_mapped (\<lambda>_. 0) b m"
  by (simp add: range_mapped_def)

lemma kmap_is_ok:
  assumes "pgaligned data" "KERNLINK < data" "data < P2V PHYSTOP"
  shows "kmap_ok (\<lambda>_. 0) (kmap data)"
proof -
  obtain k where k: "unat data = 4096 * k" using assms(1) by (rule pgalignedE)
  have b: "0x80100000 < unat data" "unat data < 0x8E000000"
    using assms(2,3) by (simp_all add: word_less_nat_alt P2V_def)
  have kb: "524544 < k" "k < 581632" using b k by simp_all
  have v: "unat (V2P data) = unat data - 0x80000000"
    using b by (simp add: V2P_def unat_sub word_le_nat_alt)
  have s2: "unat (V2P data - V2P KERNLINK) = unat data - 0x80100000"
    using b v by (simp add: unat_sub word_le_nat_alt V2P_def)
  have s3: "unat (PHYSTOP - V2P data) = 0x8E000000 - unat data"
    using b v by (simp add: unat_sub word_le_nat_alt)
  have e2: "KERNLINK + (V2P data - V2P KERNLINK) - 1 = data - 1" by (simp add: V2P_def)
  have e3: "data + (PHYSTOP - V2P data) - 1 = 0x8DFFFFFF" by (simp add: V2P_def)
  have "unat (data - 1) = 4096 * k - 1" using b k by (simp add: unat_sub word_le_nat_alt)
  moreover have "(4096 * k - 1) div 4096 = k - 1" using kb by (cases k) simp_all
  ultimately have p2: "pg (data - 1) = k - 1" by (simp add: pg_def)
  have pd: "pg data = k" by (simp add: pg_def k)
  have c1: "page_count KERNBASE EXTMEM = 256" by (simp add: page_count_def pg_def)
  have c2: "page_count KERNLINK (V2P data - V2P KERNLINK) = k - 524544"
    unfolding page_count_def e2 p2 using kb by (simp add: pg_def)
  have c3: "page_count data (PHYSTOP - V2P data) = 581632 - k"
    unfolding page_count_def e3 pd using kb by (simp add: pg_def)
  have "unat (- 1 :: u32) = 4294967295"
    by (simp add: unsigned_minus_1_eq_mask mask_eq_exp_minus_1)
  then have c4: "page_count DEVSPACE (0 - DEVSPACE) = 8192" by (simp add: page_count_def pg_def)
  have pos2: "0 < V2P data - V2P KERNLINK" using s2 b by (simp add: word_less_nat_alt)
  have pos3: "0 < PHYSTOP - V2P data" using s3 b by (simp add: word_less_nat_alt)
  have P: "pg KERNBASE = 524288" "pg KERNLINK = 524544" "pg DEVSPACE = 1040384"
    by (simp_all add: pg_def)
  have "unat data - 2148532224 \<le> 2146435072" using b by linarith
  moreover have "0 < (- 4261412864 :: u32)" unfolding word_gt_0 by simp
  ultimately show ?thesis
    using kb b pos2 pos3 s2 s3
    by (simp add: kmap_def c1 c2 c3 c4 [simplified] P pd range_mapped_disjoint range_mapped_zero)
qed

lemma fresh_directory:
  assumes r: "kmem_ready s" and fp: "free_pages s (d # L)"
  shows "vm_inv ((kalloc_state (d # L) s)\<lparr>mem := memset (mem s) d 0 PGSIZE\<rparr>) d L"
    and "pte (memset (mem s) d 0 PGSIZE) d = (\<lambda>_. 0)"
    and "owned (memset (mem s) d 0 PGSIZE) d = {d}"
proof -
  let ?m = "memset (mem s) d 0 PGSIZE"
  have d: "page_ok s d" "d \<notin> set L" "\<And>x. x \<in> set L \<Longrightarrow> page_ok s x"
    using fp by (auto simp: free_pages_def)
  have al: "pgaligned d" using d(1) by (rule page_ok_aligned)
  have "pde ?m d i = 0" if "unat i < 1024" for i
  proof -
    have "load32 ?m (d + 4 * i) = load32 (\<lambda>_. 0) (d + 4 * i)"
      using al that by (intro load32_page_cong) (simp_all add: waligned_off pg_entry memset_page)
    then show ?thesis by (simp add: pde_def load32_zero)
  qed
  then have T: "tables ?m d = {}" by (auto simp: tables_def)
  then show "pte ?m d = (\<lambda>_. 0)" and own: "owned ?m d = {d}"
    by (simp_all add: pte_def owned_def fun_eq_iff)
  have "free_pages ((kalloc_state (d # L) s)\<lparr>mem := ?m\<rparr>) L"
  proof (rule free_pages_mem)
    show "free_pages (kalloc_state (d # L) s) L" using free_pages_kalloc [OF fp] by simp
    show "?m x = mem (kalloc_state (d # L) s) x" if "pg x \<in> pg ` set L" for x
    proof -
      from that obtain y where y: "y \<in> set L" "pg x = pg y" by blast
      then have "pg x \<noteq> pg d" using page_eq_iff [OF d(3) [OF y(1)] d(1)] d(2) by auto
      then show ?thesis using al by (simp add: memset_page)
    qed
  qed
  moreover have "page_ok ((kalloc_state (d # L) s)\<lparr>mem := ?m\<rparr>) = page_ok s"
    by (rule page_ok_cong) simp
  ultimately show "vm_inv ((kalloc_state (d # L) s)\<lparr>mem := ?m\<rparr>) d L"
    using r d(1,2) by (simp add: vm_inv_def pt_ok_def T own ready_states)
qed

text \<open>
  The outcome of \<open>setupkvm\<close>: a directory whose only mappings are those of \<open>kmap\<close>, made of pages that were
  free; or 0, with all pages free as before.
\<close>

lemma setupkvm_spec:
  assumes r: "kmem_ready s" and fp: "free_pages s L" and k: "KERNBASE < kend s"
    and data: "pgaligned (kdata s)" "KERNLINK < kdata s" "kdata s < P2V PHYSTOP"
  shows "wpe setupkvm nofault
    (\<lambda>d s'. kvm_outcome d (kmap_ptes (\<lambda>_. 0) (kmap (kdata s))) (set L) s d s') s"
proof (cases L)
  case Nil
  have "kmem_ready (kalloc_state L s)" "free_pages (kalloc_state L s) []" "kframe s (kalloc_state L s)"
    using ready_states [OF r] free_pages_kalloc [OF fp] kframe_states(1) [OF r] Nil by simp_all
  then show ?thesis
    by (simp add: setupkvm_def wpe_bnd kmem_wpe [OF r fp] Nil head0_def wpe_ret kvm_outcome_def)
next
  case (Cons d L')
  let ?m = "memset (mem s) d 0 PGSIZE"
  let ?t = "(kalloc_state L s)\<lparr>mem := ?m\<rparr>"
  have d: "page_ok s d" using fp Cons by (simp add: free_pages_def)
  note fresh = fresh_directory [OF r fp [unfolded Cons], folded Cons]
  have K: "KERNBASE < kend ?t" "kdata ?t = kdata s"
    using k kframe_states(1) [OF r, of L] by (simp_all add: kframe_def)
  have lp: "wpe (setupkvm_loop d (kmap (kdata s))) nofault
      (kvm_outcome d (kmap_ptes (\<lambda>_. 0) (kmap (kdata s))) (set L) ?t) ?t"
    using setupkvm_loop_spec [OF fresh(1) K(1), of "kmap (kdata s)"] kmap_is_ok [OF data]
    by (simp add: fresh no_user_def Cons)
  have fr: "kframe s ?t" using kframe_states(1) [OF r] by simp
  have mm: "mem ?t x = mem s x" if "pg x \<notin> pg ` set L" for x
    using that page_ok_aligned [OF d] by (simp add: Cons memset_page)
  from lp have "wpe (setupkvm_loop d (kmap (kdata s))) nofault
      (kvm_outcome d (kmap_ptes (\<lambda>_. 0) (kmap (kdata s))) (set L) s) ?t"
    by (rule wpe_mono) (use kvm_outcome_trans [OF fr mm] in blast)+
  then have "wpe (setupkvm_loop d (kmap (kdata s))) nofault
      (\<lambda>d s'. kvm_outcome d (kmap_ptes (\<lambda>_. 0) (kmap (kdata s))) (set L) s d s') ?t"
    by (rule wpe_mono) (auto simp: kvm_outcome_def split: if_splits)
  moreover have h0: "head0 L = d" by (simp add: Cons head0_def)
  moreover have "d \<noteq> 0" using d by (simp add: page_ok_def)
  moreover have "\<not> P2V PHYSTOP > DEVSPACE" by (simp add: P2V_def)
  ultimately show ?thesis
    using K(2)
    by (simp add: setupkvm_def wpe_bnd wpe_sq kmem_wpe [OF r fp] wpe_kmemset wpe_gets)
qed

section \<open>Copying an address space\<close>

lemma in_page_iff: "pgaligned d \<Longrightarrow> unat (x - d) < 4096 \<longleftrightarrow> pg x = pg d"
  using memset_page [of d "\<lambda>_. 0" 1 x] memset_apply [of "\<lambda>_. 0" d 1 4096 x] by (auto split: if_splits)

lemma page_ok_bound:
  assumes "page_ok s v" "KERNBASE < kend s"
  shows "unat v < 0x8E000000"
proof -
  have "0x80000000 < unat v" using assms by (auto simp: page_ok_def word_less_nat_alt word_le_nat_alt)
  then have "unat (V2P v) = unat v - 0x80000000" by (simp add: V2P_def unat_sub word_le_nat_alt)
  moreover have "unat (V2P v) < 234881024" using assms(1) by (simp add: page_ok_def word_less_nat_alt)
  ultimately show ?thesis by linarith
qed

lemma memmove_page:
  assumes "pgaligned dst" "unat dst < 0x8E000000" "unat src < 0x8E000000"
  shows "pg x \<noteq> pg dst \<Longrightarrow> memmove m dst src PGSIZE x = m x"
    and "unat i < 4096 \<Longrightarrow> memmove m dst src PGSIZE (dst + i) = m (src + i)"
  using assms memmove_eq [of dst PGSIZE src m] in_page_iff [OF assms(1), of x] by simp_all

text \<open>All pages of \<open>P\<close>, and no others, are on the free list; nothing outside them has changed.\<close>

definition gone :: "u32 set \<Rightarrow> 'x kmemst_scheme \<Rightarrow> 'x kmemst_scheme \<Rightarrow> bool" where
  "gone P s s' \<longleftrightarrow> kframe s s' \<and> (\<forall>x. pg x \<notin> pg ` P \<longrightarrow> mem s' x = mem s x)
     \<and> (\<exists>L'. free_pages s' L' \<and> kmem_ready s' \<and> set L' = P)"

lemma resized_freevm:
  assumes r: "resized d {} s0 L0 0 k s L" and nu: "no_user (pte (mem s0) d)" and k: "k \<le> heap_pages"
  shows "wpe (freevm d) nofault (\<lambda>_. gone (owned (mem s0) d \<union> set L0) s0) s"
proof -
  let ?P = "owned (mem s0) d \<union> set L0"
  have R: "uvm_inv s d L" "kframe s0 s"
    "\<And>va. \<not> (0 \<le> pg va \<and> pg va < k) \<Longrightarrow> pte (mem s) d va = pte (mem s0) d va"
    "owned (mem s) d \<union> set L \<union> frames (mem s) d 0 k \<union> {} = ?P"
    "\<And>x. pg x \<notin> pg ` ?P \<Longrightarrow> mem s x = mem s0 x"
    using r unfolding resized_def by blast+
  have P: "set L \<union> owned (mem s) d \<union> frames (mem s) d 0 k = ?P" using R(4) by blast
  have "\<not> mapped (mem s) d va" if "k \<le> pg va" "pg va < heap_pages" for va
    using R(3) [of va] nu that by (simp add: mapped_def no_user_def)
  then have fr: "frames (mem s) d 0 heap_pages = frames (mem s) d 0 k" using k by (rule frames_upto)
  show ?thesis
  proof (rule wpe_mono [OF freevm_spec [OF R(1)]])
    fix s'
    assume "freed d L s s'"
    then obtain L' where L': "free_pages s' L'" "kmem_ready s'" "kframe s s'" "set L' = ?P"
      and mem: "\<And>x. pg x \<notin> pg ` (owned (mem s) d \<union> frames (mem s) d 0 k) \<Longrightarrow> mem s' x = mem s x"
      unfolding freed_def fr P by blast
    have "mem s' x = mem s0 x" if "pg x \<notin> pg ` ?P" for x
    proof -
      have "pg x \<notin> pg ` (owned (mem s) d \<union> frames (mem s) d 0 k)"
        using that unfolding P [symmetric] by blast
      then show ?thesis using mem R(5) [OF that] by simp
    qed
    then show "gone ?P s0 s'"
      unfolding gone_def using L' kframe_trans [OF R(2) L'(3)] by blast
  qed simp
qed

text \<open>The first \<open>k\<close> pages of directory \<open>p\<close> have been copied to directory \<open>d\<close>, flags and contents.\<close>

definition same_page :: "u32 \<Rightarrow> bytes \<Rightarrow> u32 \<Rightarrow> bytes \<Rightarrow> u32 \<Rightarrow> bool" where
  "same_page p m0 d m va \<longleftrightarrow> mapped m d va \<and> PTE_FLAGS (pte m d va) = PTE_FLAGS (pte m0 p va)
     \<and> (\<forall>i. unat i < 4096 \<longrightarrow> m (frame m d va + i) = m0 (frame m0 p va + i))"

definition copied ::
    "u32 \<Rightarrow> u32 \<Rightarrow> 'x kmemst_scheme \<Rightarrow> u32 list \<Rightarrow> nat \<Rightarrow> 'x kmemst_scheme \<Rightarrow> u32 list \<Rightarrow> bool" where
  "copied p d s0 L0 k s L \<longleftrightarrow> resized d {} s0 L0 0 k s L
     \<and> (\<forall>va. pg va < k \<longrightarrow> same_page p (mem s0) d (mem s) va)"

text \<open>Directory \<open>p\<close> lives in pages that the construction of \<open>d\<close> does not touch.\<close>

definition parent_ok :: "u32 \<Rightarrow> u32 \<Rightarrow> 'x kmemst_scheme \<Rightarrow> u32 list \<Rightarrow> bool" where
  "parent_ok p d s0 L0 \<longleftrightarrow> pt_ok s0 p \<and> KERNBASE < kend s0
     \<and> pg ` (owned (mem s0) p \<union> frames (mem s0) p 0 heap_pages) \<inter> pg ` (owned (mem s0) d \<union> set L0) = {}
     \<and> (\<forall>f \<in> frames (mem s0) p 0 heap_pages. page_ok s0 f)"

lemma parent_same:
  assumes p: "parent_ok p d s0 L0" and r: "resized d X s0 L0 lo k s L"
  shows "pte (mem s) p = pte (mem s0) p" "tables (mem s) p = tables (mem s0) p"
    "i \<in> tables (mem s0) p \<Longrightarrow> ptab (mem s) p i = ptab (mem s0) p i" "pt_ok s p"
    "f \<in> frames (mem s0) p 0 heap_pages \<Longrightarrow> pg x = pg f \<Longrightarrow> mem s x = mem s0 x"
proof -
  have out: "mem s x = mem s0 x" if "pg x \<in> pg ` (owned (mem s0) p \<union> frames (mem s0) p 0 heap_pages)" for x
    using p r that unfolding parent_ok_def resized_def by blast
  have ok: "pt_ok s0 p" using p by (simp add: parent_ok_def)
  have "mem s x = mem s0 x" if "pg x \<in> pg ` owned (mem s0) p" for x
    using that by (intro out) (simp add: image_Un)
  note c = pt_cong [OF page_ok_aligned [OF pt_ok_dir [OF ok]] this]
  show "pte (mem s) p = pte (mem s0) p" "tables (mem s) p = tables (mem s0) p"
    "i \<in> tables (mem s0) p \<Longrightarrow> ptab (mem s) p i = ptab (mem s0) p i" by (simp_all add: c)
  show "f \<in> frames (mem s0) p 0 heap_pages \<Longrightarrow> pg x = pg f \<Longrightarrow> mem s x = mem s0 x"
    by (rule out) (simp add: image_Un)
  have "kend s = kend s0" using r by (simp add: resized_def kframe_def)
  then have "page_ok s = page_ok s0" by (rule page_ok_cong)
  then show "pt_ok s p"
    using ok c(1,2) inj_on_cong [of "tables (mem s0) p" "ptab (mem s) p" "ptab (mem s0) p"]
    by (simp add: pt_ok_def)
qed

lemma frame_in_frames: "pg va < hi \<Longrightarrow> mapped m d va \<Longrightarrow> frame m d va \<in> frames m d 0 hi"
  by (auto simp: frames_def)

lemma pg_frame [simp]: "unat i < 4096 \<Longrightarrow> pg (frame m d va + i) = pg (frame m d va)"
  by (rule pg_off) (simp_all add: frame_def PTE_ADDR_eq_PGROUNDDOWN)

lemma PTE_FLAGS_low: "PTE_FLAGS e AND NOT 0xFFF = 0"
  by (simp only: PTE_FLAGS_def and.assoc bit.conj_cancel_right bit.conj_zero_right)

lemma flags_present: "e AND PTE_P \<noteq> 0 \<Longrightarrow> PTE_FLAGS e OR PTE_P = PTE_FLAGS e"
proof -
  assume "e AND PTE_P \<noteq> 0"
  then have e0: "bit e 0" by (metis and_one_eq bit_0 odd_iff_mod_2_eq_one even_iff_mod_2_eq_zero)
  have "bit (PTE_FLAGS e OR 1) n = bit (PTE_FLAGS e) n" for n
    using e0 by (cases "n = 0") (auto simp: PTE_FLAGS_def bit_or_iff bit_and_iff bit_1_iff)
  then show ?thesis by (rule bit_word_eqI)
qed

lemma copied_step:
  assumes c: "copied p d s0 L0 k s (m # L)" and par: "parent_ok p d s0 L0"
    and k: "pg a = k" "k < heap_pages" and mp: "mapped (mem s0) p a"
    and pa: "page_added d m L a (PTE_FLAGS (pte (mem s0) p a))
      (memmove (mem s) m (frame (mem s0) p a) PGSIZE) s 0 t"
  shows "\<exists>L'. copied p d s0 L0 (Suc k) t L'"
proof -
  let ?f = "frame (mem s0) p a" and ?fl = "PTE_FLAGS (pte (mem s0) p a)"
  let ?M = "memmove (mem s) m ?f PGSIZE"
  have r: "resized d {} s0 L0 0 k s (m # L)" and old: "\<And>va. pg va < k \<Longrightarrow> same_page p (mem s0) d (mem s) va"
    using c by (simp_all add: copied_def)
  obtain L' where t: "resized d {} s0 L0 0 (Suc k) t L'"
    "\<And>va. pg va = k \<Longrightarrow> frame (mem t) d va = m \<and> mapped (mem t) d va
       \<and> PTE_FLAGS (pte (mem t) d va) = ?fl OR PTE_P"
    "\<And>va. pg va \<noteq> k \<Longrightarrow> pte (mem t) d va = pte (mem s) d va"
    "\<And>x. pg x = pg m \<Longrightarrow> mem t x = ?M x"
    "\<And>x. pg x \<notin> pg ` (owned (mem s) d \<union> set (m # L)) \<Longrightarrow> mem t x = mem s x"
    using resized_step [OF r k(1) _ PTE_FLAGS_low pa] by simp metis
  have inv: "uvm_inv s d (m # L)" and kf: "kframe s0 s" using r by (simp_all add: resized_def)
  have mok: "page_ok s m" by (rule fresh_free_page(1) [OF uvm_invD(1) [OF inv]])
  have ff: "?f \<in> frames (mem s0) p 0 heap_pages" using frame_in_frames [OF _ mp] k by simp
  have fb: "unat ?f < 0x8E000000"
    using par ff page_ok_bound [of s0 ?f] by (simp add: parent_ok_def)
  have mb: "unat m < 0x8E000000" by (rule page_ok_bound [OF mok uvm_invD(5) [OF inv]])
  have "same_page p (mem s0) d (mem t) va" if "pg va < Suc k" for va
  proof (cases "pg va = k")
    case True
    then have pv: "pte (mem s0) p va = pte (mem s0) p a" using k(1) by (intro pte_same_page) simp
    then have fa: "frame (mem s0) p va = ?f" by (simp add: frame_def)
    have "mem t (m + i) = mem s0 (?f + i)" if "unat i < 4096" for i
    proof -
      have "pg (m + i) = pg m" using page_ok_aligned [OF mok] that by (rule pg_off)
      then have "mem t (m + i) = mem s (?f + i)"
        using t(4) memmove_page(2) [OF page_ok_aligned [OF mok] mb fb that] by simp
      then show ?thesis using parent_same(5) [OF par r ff, of "?f + i"] that by simp
    qed
    moreover have "?fl OR PTE_P = ?fl" using mp by (intro flags_present) (simp add: mapped_def)
    ultimately show ?thesis using t(2) [OF True] by (simp add: same_page_def fa pv)
  next
    case False
    then have lt: "pg va < k" using that by simp
    have o: "same_page p (mem s0) d (mem s) va" by (rule old [OF lt])
    then have "frame (mem s) d va \<in> frames (mem s) d 0 k" using lt by (intro frame_in_frames) (simp_all add: same_page_def)
    from frames_not_kernel [OF inv this] k(2)
    have out: "pg (frame (mem s) d va) \<notin> pg ` (owned (mem s) d \<union> set (m # L))" by simp
    have "mem t (frame (mem s) d va + i) = mem s (frame (mem s) d va + i)" if "unat i < 4096" for i
      using out that by (intro t(5)) simp
    then show ?thesis using o t(3) [OF False] by (simp add: same_page_def frame_def mapped_def)
  qed
  then show ?thesis using t(1) by (auto simp: copied_def)
qed

definition copy_outcome ::
    "u32 \<Rightarrow> u32 \<Rightarrow> u32 list \<Rightarrow> nat \<Rightarrow> 'x kmemst_scheme \<Rightarrow> u32 \<Rightarrow> 'x kmemst_scheme \<Rightarrow> bool" where
  "copy_outcome p d L n s r s' \<longleftrightarrow>
     r = d \<and> (\<exists>L'. copied p d s L n s' L') \<or> r = 0 \<and> gone (owned (mem s) d \<union> set L) s s'"

lemma copyuvm_iteration:
  fixes s0 s :: "'x kmemst_scheme"
  assumes c: "copied p d s0 L0 (pg a) s L" and par: "parent_ok p d s0 L0" and nu: "no_user (pte (mem s0) d)"
    and a: "pgaligned a" "pg a < heap_pages" "mapped (mem s0) p a"
    and rest: "\<And>(t :: 'x kmemst_scheme) L'. copied p d s0 L0 (Suc (pg a)) t L' \<Longrightarrow>
      wpe K nofault (copy_outcome p d L0 n s0) t"
  shows "wpe (bnd kalloc (\<lambda>m. if m = 0 then sq (freevm d) (ret 0)
      else sq (kmemmove m (P2V (PTE_ADDR (pte (mem s0) p a))) PGSIZE) (
        bnd (mappages d a PGSIZE (V2P m) (PTE_FLAGS (pte (mem s0) p a))) (\<lambda>r.
        if r < 0 then sq (kfree m) (sq (freevm d) (ret 0)) else K))))
    nofault (copy_outcome p d L0 n s0) s"
proof -
  have r: "resized d {} s0 L0 0 (pg a) s L" using c by (simp add: copied_def)
  have inv: "uvm_inv s d L" using r by (simp add: resized_def)
  have ready: "kmem_ready s" "free_pages s L" using inv by (simp_all add: uvm_invD)
  have hp: "pg a \<le> heap_pages" using a(2) by simp
  have free: "wpe (sq (freevm d) (ret 0)) nofault (copy_outcome p d L0 n s0) t"
    if "resized d {} s0 L0 0 (pg a) t L'" for t L'
    using resized_freevm [OF that nu hp] by (simp add: wpe_sq wpe_ret) (auto elim!: wpe_mono simp: copy_outcome_def)
  show ?thesis
  proof (cases L)
    case Nil
    from free [OF resized_kalloc_none [OF r [unfolded Nil]]] show ?thesis
      by (simp add: wpe_bnd kmem_wpe [OF ready] Nil head0_def)
  next
    case (Cons m L1)
    let ?fl = "PTE_FLAGS (pte (mem s0) p a)" and ?f = "frame (mem s0) p a"
    let ?M = "memmove (mem s) m ?f PGSIZE"
    have mok: "page_ok s m" using fresh_free_page(1) [OF uvm_invD(1) [OF inv [unfolded Cons]]] .
    have ff: "?f \<in> frames (mem s0) p 0 heap_pages" by (rule frame_in_frames [OF a(2,3)])
    have fb: "unat ?f < 0x8E000000" using par ff page_ok_bound [of s0 ?f] by (simp add: parent_ok_def)
    have "?M x = mem s x" if "pg x \<noteq> pg m" for x
      using memmove_page(1) [OF page_ok_aligned [OF mok] page_ok_bound [OF mok uvm_invD(5) [OF inv]] fb that] .
    moreover have "\<not> mapped (mem s) d a"
      using r nu a(2) unfolding resized_def by (simp add: mapped_def no_user_def)
    ultimately have pa: "wpe (mappages d a PGSIZE (V2P m) ?fl) nofault (page_added d m L1 a ?fl ?M s)
        ((kalloc_state L s)\<lparr>mem := ?M\<rparr>)"
      unfolding Cons by (intro page_added_spec [OF inv [unfolded Cons] a(1) _ PTE_FLAGS_low]) simp_all
    have step: "wpe (if r' < 0 then sq (kfree m) (sq (freevm d) (ret 0)) else K) nofault
        (copy_outcome p d L0 n s0) t" if t: "page_added d m L1 a ?fl ?M s r' t" for r' t
    proof -
      from t consider "r' = 0" | "r' = -1" unfolding page_added_def by blast
      then show ?thesis
      proof cases
        case 1
        obtain L' where "copied p d s0 L0 (Suc (pg a)) t L'"
          using copied_step [OF c [unfolded Cons] par refl a(2,3) t [unfolded 1]] by blast
        from rest [OF this] show ?thesis using 1 by simp
      next
        case 2
        note f = resized_failed_page [OF r [unfolded Cons] t [unfolded 2]]
        have ok: "page_ok t m" "uvm_inv t d []" using f(1) by (simp_all add: resized_def tracked_def)
        from free [OF resized_kfree [OF f]] show ?thesis
          using 2 by (simp add: wpe_sq wpe_ret wpe_ret_eq [where m = "kfree m" and s = t, OF kfree_eq [OF uvm_invD(3) [OF ok(2)] ok(1)]])
      qed
    qed
    have h0: "head0 L = m" and "m \<noteq> 0" using mok by (simp_all add: Cons head0_def page_ok_def)
    then show ?thesis
      using wpe_mono [OF pa step]
      by (simp add: wpe_bnd wpe_sq wpe_kmemmove kmem_wpe [OF ready, unfolded h0] frame_def)
  qed
qed

lemma copyuvm_loop_spec:
  fixes s0 s :: "'x kmemst_scheme"
  assumes "copied p d s0 L0 (pg i) s L" "pgaligned i" "pg i \<le> hi" "hi - pg i < fuel"
    and par: "parent_ok p d s0 L0" and nu: "no_user (pte (mem s0) d)"
    and hi: "hi = (unat sz + 4095) div 4096" "hi \<le> heap_pages"
    and mp: "\<And>va. pg va < hi \<Longrightarrow> mapped (mem s0) p va"
  shows "wpe (copyuvm_loop fuel p d sz i) nofault (copy_outcome p d L0 hi s0) s"
  using assms(1-4)
proof (induction fuel arbitrary: s L i)
  case 0
  then show ?case by simp
next
  case (Suc fuel)
  have lt_iff: "i < sz \<longleftrightarrow> pg i < hi" using below_pages [OF Suc.prems(2)] hi(1) by simp
  show ?case
  proof (cases "pg i < hi")
    case False
    then have "pg i = hi" using Suc.prems(3) by simp
    then show ?thesis using Suc.prems(1) False lt_iff by (auto simp: wpe_ret copy_outcome_def)
  next
    case lt: True
    have r: "resized d {} s0 L0 0 (pg i) s L" using Suc.prems(1) by (simp add: copied_def)
    note same = parent_same [OF par r]
    have m: "mapped (mem s0) p i" by (rule mp [OF lt])
    then have tab: "PDX i \<in> tables (mem s) p" unfolding same(2) by (rule mapped_table)
    have slot: "ptab (mem s) p (PDX i) + 4 * PTX i \<noteq> 0" by (rule slot_nonzero [OF same(4) tab])
    have "load32 (mem s) (ptab (mem s) p (PDX i) + 4 * PTX i) = pte (mem s) p i"
      using tab by (simp add: pte_def)
    then have e: "load32 (mem s) (ptab (mem s) p (PDX i) + 4 * PTX i) = pte (mem s0) p i"
      by (simp only: same(1))
    have "unat i + 4096 < 4294967296" using lt hi(2) Suc.prems(2) by (elim pgalignedE) (simp add: pg_def)
    note nx = pg_next [OF Suc.prems(2) this]
    have rest: "wpe (copyuvm_loop fuel p d sz (i + PGSIZE)) nofault (copy_outcome p d L0 hi s0) t"
      if "copied p d s0 L0 (Suc (pg i)) t L'" for t :: "'x kmemst_scheme" and L'
      using Suc.IH [of "i + PGSIZE" t L'] that nx Suc.prems(4) lt by simp
    have hp: "pg i < heap_pages" using lt hi(2) by simp
    note it = copyuvm_iteration [OF Suc.prems(1) par nu Suc.prems(2) hp m]
    have rd: "wpe (rd32 (ptab (mem s) p (PDX i) + 4 * PTX i)) E Q s = Q (pte (mem s0) p i) s" for E Q
      by (simp add: wpe_rd32 e)
    have w: "walkpgdir p i False s = Inr (ptab (mem s) p (PDX i) + 4 * PTX i, s)"
      using tab by (simp add: walkpgdir_lookup)
    have present: "pte (mem s0) p i AND PTE_P \<noteq> 0" using m by (simp add: mapped_def)
    show ?thesis
      using lt lt_iff slot present
      by (simp add: wpe_bnd wpe_ret_eq [where m = "walkpgdir p i False" and s = s, OF w] rd)
        (rule it [unfolded wpe_bnd], rule rest)
  qed
qed

text \<open>
  The outcome of \<open>copyuvm\<close> for a parent \<open>p\<close> whose free list was \<open>L\<close>: a new directory with the same user
  pages, or 0 and every page free as before. The parent is as it was.
\<close>

definition cloned :: "u32 \<Rightarrow> u32 list \<Rightarrow> nat \<Rightarrow> 'x kmemst_scheme \<Rightarrow> u32 \<Rightarrow> 'x kmemst_scheme \<Rightarrow> bool" where
  "cloned p L n s d s' \<longleftrightarrow> kframe s s' \<and> (\<forall>x. pg x \<notin> pg ` set L \<longrightarrow> mem s' x = mem s x)
     \<and> (\<exists>L'. if d = 0 then free_pages s' L' \<and> kmem_ready s' \<and> set L' = set L
        else uvm_inv s' d L' \<and> owned (mem s') d \<union> set L' \<union> frames (mem s') d 0 n = set L
          \<and> (\<forall>va. pg va < n \<longrightarrow> same_page p (mem s) d (mem s') va)
          \<and> (\<forall>va. n \<le> pg va \<longrightarrow> pte (mem s') d va = kmap_ptes (\<lambda>_. 0) (kmap (kdata s)) va))"

lemma no_user_kmap: "kmap_ok f ks \<Longrightarrow> no_user f \<Longrightarrow> no_user (kmap_ptes f ks)"
  by (induction ks arbitrary: f) (auto intro: no_user_map_range)

lemma parent_ok_kvm:
  assumes inv: "uvm_inv s p L" and fr: "kframe s t" and own: "owned (mem t) d \<union> set L' = set L"
    and mem: "\<And>x. pg x \<notin> pg ` set L \<Longrightarrow> mem t x = mem s x"
  shows "parent_ok p d t L'" "pte (mem t) p = pte (mem s) p"
    "pg va < heap_pages \<Longrightarrow> mapped (mem s) p va \<Longrightarrow> unat i < 4096 \<Longrightarrow>
      mem t (frame (mem s) p va + i) = mem s (frame (mem s) p va + i)"
proof -
  have ok: "pt_ok s p" "KERNBASE < kend s" using inv by (simp_all add: uvm_invD)
  have dis: "pg x \<notin> pg ` set L" if "x \<in> owned (mem s) p \<union> frames (mem s) p 0 heap_pages" for x
    using that owned_free_pages [OF uvm_invD(1) [OF inv], of x] frames_not_kernel [OF inv, of x 0 heap_pages]
    by auto
  have "mem t x = mem s x" if "pg x \<in> pg ` owned (mem s) p" for x
  proof (rule mem)
    from that obtain y where "y \<in> owned (mem s) p" "pg x = pg y" by blast
    then show "pg x \<notin> pg ` set L" using dis [of y] by simp
  qed
  note c = pt_cong [OF page_ok_aligned [OF pt_ok_dir [OF ok(1)]] this]
  show pt: "pte (mem t) p = pte (mem s) p" by (simp add: c)
  have kend: "kend t = kend s" using fr by (simp add: kframe_def)
  then have pok: "page_ok t = page_ok s" by (rule page_ok_cong)
  have "pt_ok t p"
    using ok(1) c(1,2) inj_on_cong [of "tables (mem s) p" "ptab (mem t) p" "ptab (mem s) p"]
    by (simp add: pt_ok_def pok)
  moreover have "pg ` (owned (mem t) p \<union> frames (mem t) p 0 heap_pages) \<inter> pg ` (owned (mem t) d \<union> set L') = {}"
    using dis unfolding own frames_cong(1) [OF pt] by (auto simp: c(4))
  ultimately show "parent_ok p d t L'"
    using ok(2) inv by (simp add: parent_ok_def kend pok frames_cong(1) [OF pt] uvm_inv_def)
  assume "pg va < heap_pages" "mapped (mem s) p va" "unat i < 4096"
  then show "mem t (frame (mem s) p va + i) = mem s (frame (mem s) p va + i)"
    using dis frame_in_frames by (intro mem) simp
qed

lemma copied_refl: "uvm_inv s d L \<Longrightarrow> copied p d s L 0 s L"
  by (simp add: copied_def resized_def tracked_def frames_def)

lemma cloned_of_copied:
  assumes fr: "kframe s t" and mem: "\<And>x. pg x \<notin> pg ` set L \<Longrightarrow> mem t x = mem s x"
    and t: "pte (mem t) d = kmap_ptes (\<lambda>_. 0) (kmap (kdata s))" "owned (mem t) d \<union> set L1 = set L" "d \<noteq> 0"
    and par: "pte (mem t) p = pte (mem s) p" "\<And>va i. pg va < n \<Longrightarrow> unat i < 4096 \<Longrightarrow>
      mem t (frame (mem s) p va + i) = mem s (frame (mem s) p va + i)"
    and out: "copy_outcome p d L1 n t r s'"
  shows "cloned p L n s r s'"
  using out unfolding copy_outcome_def t(2)
proof (elim disjE conjE exE)
  fix L'
  assume r: "r = d" and c: "copied p d t L1 n s' L'"
  have R: "uvm_inv s' d L'" "kframe t s'"
    "\<And>va. \<not> (0 \<le> pg va \<and> pg va < n) \<Longrightarrow> pte (mem s') d va = pte (mem t) d va"
    "owned (mem s') d \<union> set L' \<union> frames (mem s') d 0 n \<union> {} = set L"
    "\<And>x. pg x \<notin> pg ` set L \<Longrightarrow> mem s' x = mem t x"
    using c unfolding copied_def resized_def t(2) by blast+
  have "same_page p (mem s) d (mem s') va" if "pg va < n" for va
    using c that par by (simp add: copied_def same_page_def frame_def)
  moreover have "mem s' x = mem s x" if "pg x \<notin> pg ` set L" for x
    using R(5) [OF that] mem [OF that] by simp
  ultimately show ?thesis
    unfolding cloned_def using r t(1,3) R(1,3,4) kframe_trans [OF fr R(2)]
    by (auto intro!: exI [of _ L'])
next
  assume r: "r = 0" and g: "gone (set L) t s'"
  have "mem s' x = mem s x" if "pg x \<notin> pg ` set L" for x
    using g that mem [OF that] by (simp add: gone_def)
  moreover have "kframe s s'" using g kframe_trans [OF fr] by (simp add: gone_def)
  ultimately show ?thesis using r g by (simp add: cloned_def gone_def)
qed

lemma copyuvm_spec:
  assumes inv: "uvm_inv s p L"
    and data: "pgaligned (kdata s)" "KERNLINK < kdata s" "kdata s < P2V PHYSTOP"
    and n: "n = (unat sz + 4095) div 4096" "n \<le> heap_pages"
    and mp: "\<And>va. pg va < n \<Longrightarrow> mapped (mem s) p va"
  shows "wpe (copyuvm p sz) nofault (cloned p L n s) s"
  unfolding copyuvm_def wpe_bnd
proof (rule wpe_mono [OF setupkvm_spec [OF uvm_invD(3,4,5) [OF inv] data]])
  let ?f = "kmap_ptes (\<lambda>_. 0) (kmap (kdata s))"
  fix d t
  assume k: "kvm_outcome d ?f (set L) s d t"
  have fr: "kframe s t" and mem: "\<And>x. pg x \<notin> pg ` set L \<Longrightarrow> mem t x = mem s x"
    using k by (simp_all add: kvm_outcome_def)
  show "wpe (if d = 0 then ret 0 else copyuvm_loop 1048577 p d sz 0) nofault (cloned p L n s) t"
  proof (cases "d = 0")
    case True
    then show ?thesis using k by (simp add: wpe_ret kvm_outcome_def cloned_def)
  next
    case False
    then obtain L1 where t: "uvm_inv t d L1" "pte (mem t) d = ?f" "owned (mem t) d \<union> set L1 = set L"
      using k by (auto simp: kvm_outcome_def)
    note par = parent_ok_kvm [OF inv fr t(3) mem]
    have nu: "no_user (pte (mem t) d)"
      unfolding t(2) by (rule no_user_kmap [OF kmap_is_ok [OF data]]) (simp add: no_user_def)
    have "pte (mem t) p = pte (mem s) p" by (rule par(2))
    then have mp': "mapped (mem t) p va" if "pg va < n" for va using mp [OF that] by (simp add: mapped_def)
    have pg0: "pg 0 = 0" by (simp add: pg_def)
    have "wpe (copyuvm_loop 1048577 p d sz 0) nofault (copy_outcome p d L1 n t) t"
      by (rule copyuvm_loop_spec [OF _ _ _ _ par(1) nu n(1,2)])
        (use copied_refl [OF t(1)] n(2) mp' in \<open>simp_all add: pg0 pgaligned_def\<close>)
    then have "wpe (copyuvm_loop 1048577 p d sz 0) nofault (cloned p L n s) t"
    proof (rule wpe_mono)
      fix r s'
      assume out: "copy_outcome p d L1 n t r s'"
      show "cloned p L n s r s'"
      proof (rule cloned_of_copied [OF fr _ t(2,3) False _ _ out])
        show "mem t x = mem s x" if "pg x \<notin> pg ` set L" for x by (rule mem [OF that])
        show "pte (mem t) p = pte (mem s) p" by (rule par(2))
        show "mem t (frame (mem s) p va + i) = mem s (frame (mem s) p va + i)"
          if "pg va < n" "unat i < 4096" for va i
          using that n(2) mp by (intro par(3)) simp_all
      qed
    qed simp
    then show ?thesis using False by simp
  qed
qed simp

section \<open>Access rights of the kernel mappings\<close>

lemma map_range_not_user:
  assumes "\<And>va. f va AND PTE_U = 0" "pgaligned pa" "perm AND PTE_U = 0"
  shows "map_range f a n pa perm va AND PTE_U = 0"
proof -
  have "(pa + of_nat k * PGSIZE) AND PTE_U = 0" for k
  proof -
    obtain j where j: "unat pa = 4096 * j" using assms(2) by (rule pgalignedE)
    have "4096 dvd unat (pa + of_nat k * PGSIZE)"
      by (simp add: unat_word_ariths j dvd_mod_iff mod_mult_right_eq dvd_mod)
    then have "(pa + of_nat k * PGSIZE) AND 0xFFF = 0"
      using pgaligned_and_mask [of "pa + of_nat k * PGSIZE"] by (simp add: pgaligned_def)
    then have "((pa + of_nat k * PGSIZE) AND 0xFFF) AND PTE_U = 0" by simp
    then show ?thesis by (simp add: and.assoc)
  qed
  moreover have "((pa + of_nat k * PGSIZE) OR perm OR PTE_P) AND PTE_U =
      ((pa + of_nat k * PGSIZE) AND PTE_U) OR (perm AND PTE_U) OR (PTE_P AND PTE_U)" for k
    by (simp only: bit.conj_disj_distrib2)
  ultimately have "((pa + of_nat k * PGSIZE) OR perm OR PTE_P) AND PTE_U = 0" for k
    using assms(3) by simp
  then show ?thesis unfolding map_range_def using assms(1) by presburger
qed

lemma kmap_not_user:
  assumes "pgaligned data"
  shows "kmap_ptes (\<lambda>_. 0) (kmap data) va AND PTE_U = 0"
proof -
  have "pgaligned (V2P KERNLINK)" by (simp add: pgaligned_def V2P_def)
  moreover have "pgaligned (V2P data)" using assms by simp
  moreover have "pgaligned (0 :: u32)" "pgaligned DEVSPACE" by (simp_all add: pgaligned_def)
  ultimately show ?thesis
    unfolding kmap_def kmap_ptes.simps prod.case by (intro map_range_not_user) simp_all
qed

section \<open>Properties\<close>

text \<open>A kernel with an empty directory at \<open>0x80400000\<close> and two free pages.\<close>

definition vm_demo :: kmemst where
  "vm_demo = boot_kmem\<lparr>mem := store32 (\<lambda>_. 0) 0x80401000 0x80402000, kmem_freelist := 0x80401000\<rparr>"

lemma store32_zero_page: "waligned a \<Longrightarrow> pg x \<noteq> pg a \<Longrightarrow> store32 (\<lambda>_. 0) a v x = 0"
  by (simp add: store32_other_page)

lemma vm_demo_pages:
  "page_ok vm_demo 0x80400000" "page_ok vm_demo 0x80401000" "page_ok vm_demo 0x80402000"
  by (simp_all add: vm_demo_def page_ok_def pgaligned_def boot_kmem_def V2P_def)

lemma vm_demo_free: "free_pages vm_demo [0x80401000, 0x80402000]"
proof -
  have "load32 (mem vm_demo) 0x80402000 = load32 (\<lambda>_. 0) 0x80402000"
    by (rule load32_page_cong) (simp_all add: vm_demo_def store32_zero_page waligned_def pg_def)
  then have "load32 (mem vm_demo) 0x80402000 = 0" by (simp add: load32_zero)
  moreover have "load32 (mem vm_demo) 0x80401000 = 0x80402000" by (simp add: vm_demo_def)
  ultimately show ?thesis
    using vm_demo_pages by (simp add: free_pages_def) (simp add: vm_demo_def)
qed

lemma vm_demo_dir: "tables (mem vm_demo) 0x80400000 = {}"
proof -
  have "pde (mem vm_demo) 0x80400000 i = 0" if "unat i < 1024" for i
  proof -
    have al: "pgaligned 0x80400000" by (simp add: pgaligned_def)
    have "mem vm_demo x = 0" if "pg x = pg 0x80400000" for x
    proof -
      have "pg x \<noteq> pg 0x80401000" using that by (simp add: pg_def)
      moreover have "waligned 0x80401000" by (simp add: waligned_def)
      ultimately show ?thesis by (simp add: vm_demo_def store32_zero_page)
    qed
    then have "load32 (mem vm_demo) (0x80400000 + 4 * i) = load32 (\<lambda>_. 0) (0x80400000 + 4 * i)"
      using waligned_off [OF al that] pg_entry [OF al that] by (intro load32_page_cong) metis+
    then show ?thesis by (simp add: pde_def load32_zero)
  qed
  then show ?thesis by (auto simp: tables_def)
qed

lemma vm_demo_inv: "uvm_inv vm_demo 0x80400000 [0x80401000, 0x80402000]"
  "pte (mem vm_demo) 0x80400000 = (\<lambda>_. 0)"
proof -
  show z: "pte (mem vm_demo) 0x80400000 = (\<lambda>_. 0)" by (simp add: pte_def vm_demo_dir fun_eq_iff)
  have "kmem_ready vm_demo" using boot_kmem_ready by (simp add: vm_demo_def)
  then have "vm_inv vm_demo 0x80400000 [0x80401000, 0x80402000]"
    using vm_demo_free vm_demo_pages(1) by (simp add: vm_inv_def pt_ok_def owned_def vm_demo_dir)
  then show "uvm_inv vm_demo 0x80400000 [0x80401000, 0x80402000]"
    by (rule no_user_inv) (simp_all add: z no_user_def, simp add: vm_demo_def boot_kmem_def)
qed

text \<open>
  The same kernel with one user page: the first free page has become the page table of the lowest 4 MB,
  and address 0 is mapped to the frame at \<open>0x80404000\<close>.
\<close>

definition vm_user :: kmemst where
  "vm_user =
     (let t = (kalloc_state [0x80401000, 0x80402000] vm_demo)\<lparr>mem :=
        store32 (memset (mem vm_demo) 0x80401000 0 PGSIZE) (0x80400000 + 4 * PDX 0) (V2P 0x80401000 OR 7)\<rparr>
      in t\<lparr>mem := store32 (mem t) (ptab (mem t) 0x80400000 (PDX 0) + 4 * PTX 0) 0x404007\<rparr>)"

lemma vm_user_inv:
  "uvm_inv vm_user 0x80400000 [0x80402000]"
  "pte (mem vm_user) 0x80400000 = (\<lambda>va. if pg va = 0 then 0x404007 else 0)"
proof -
  let ?d = "0x80400000 :: u32"
  let ?t = "(kalloc_state [0x80401000, 0x80402000] vm_demo)\<lparr>mem :=
        store32 (memset (mem vm_demo) 0x80401000 0 PGSIZE) (?d + 4 * PDX 0) (V2P 0x80401000 OR 7)\<rparr>"
  have vm: "vm_inv vm_demo ?d [0x80401000, 0x80402000]" by (rule uvm_invD(1) [OF vm_demo_inv(1)])
  have no: "PDX 0 \<notin> tables (mem vm_demo) ?d" by (simp add: vm_demo_dir)
  note ins = install_table [OF vm no refl] and t = walkpgdir_install [OF vm no refl]
  have tab: "PDX 0 \<in> tables (mem ?t) ?d" using ins(1) by simp
  have pg0: "pg 0 = 0" by (simp add: pg_def)
  have pt: "pte (mem ?t) ?d = (\<lambda>_. 0)" using ins(4) vm_demo_inv(2) by simp
  note st = store_pte [where e = "0x404007", OF t(1) tab refl]
  have u: "vm_user = ?t\<lparr>mem := store32 (mem ?t) (ptab (mem ?t) ?d (PDX 0) + 4 * PTX 0) 0x404007\<rparr>"
    by (simp only: vm_user_def Let_def)
  have e: "mem vm_user = store32 (mem ?t) (ptab (mem ?t) ?d (PDX 0) + 4 * PTX 0) 0x404007"
    unfolding u by simp
  show P: "pte (mem vm_user) ?d = (\<lambda>va. if pg va = 0 then 0x404007 else 0)"
    unfolding e st(2) pt pg0 ..
  have v: "vm_inv vm_user ?d [0x80402000]" unfolding u by (rule st(1))
  have own: "owned (mem vm_user) ?d = {0x80401000, ?d}"
    unfolding e st(3) using ins(3) by (simp add: owned_def [of "mem vm_demo"] vm_demo_dir)
  have fr: "frames (mem vm_user) ?d 0 heap_pages = {0x80404000}"
  proof -
    have "frame (mem vm_user) ?d va = 0x80404000" if "pg va = 0" for va
      using that by (simp add: frame_def P PTE_ADDR_def P2V_def)
    moreover have "mapped (mem vm_user) ?d va \<longleftrightarrow> pg va = 0" for va by (simp add: mapped_def P)
    ultimately show ?thesis unfolding frames_def using pg0 by force
  qed
  have kend: "kend vm_user = kend vm_demo" by (simp add: u)
  have "page_ok vm_user 0x80404000"
    by (simp add: page_ok_def kend pgaligned_def V2P_def vm_demo_def boot_kmem_def)
  then show "uvm_inv vm_user ?d [0x80402000]"
    unfolding uvm_inv_def fr own using v uvm_invD(5) [OF vm_demo_inv(1)] kend
    by (auto simp: mapped_def P split: if_splits)
qed

text \<open>
  C13: \<open>mappages\<close> refines an update of the directory's address map. On a range of pages none of which is
  mapped it returns; either every page of the range now has its entry and no other entry has changed,
  or the result is -1, the free list is empty and only a prefix of the range has been mapped. The
  directory invariant holds afterwards, no page is lost, and no memory outside the directory, its
  tables and the free pages has changed.
\<close>

theorem mappages_maps_range:
  assumes "vm_inv s d L" and "0 < sz" and "unat va + unat sz \<le> 4294967296"
    and "\<not> range_mapped (pte (mem s) d) va (page_count va sz)"
  shows "\<exists>r s' L'. mappages d va sz pa perm s = Inr (r, s') \<and> vm_inv s' d L'
    \<and> (r = 0 \<and> pte (mem s') d = map_range (pte (mem s) d) va (page_count va sz) pa perm
       \<or> r = -1 \<and> L' = [] \<and>
          (\<exists>k < page_count va sz. pte (mem s') d = map_range (pte (mem s) d) va k pa perm))
    \<and> owned (mem s') d \<union> set L' = owned (mem s) d \<union> set L
    \<and> (\<forall>x. pg x \<notin> pg ` (owned (mem s) d \<union> set L) \<longrightarrow> mem s' x = mem s x)"
proof -
  have "wpe (mappages d va sz pa perm) nofault (map_outcome d L va (page_count va sz) pa perm s) s"
    using mappages_spec [OF assms(1-3), of pa perm] assms(4) by simp
  from wpe_returns [OF this] show ?thesis unfolding map_outcome_def pt_step_def by blast
qed

theorem mappages_maps_range_witness:
  "\<exists>r s' L'. mappages 0x80400000 0x3000 0x1001 0 2 vm_demo = Inr (r, s') \<and> vm_inv s' 0x80400000 L'"
proof -
  have "\<not> range_mapped (pte (mem vm_demo) 0x80400000) 0x3000 (page_count 0x3000 0x1001)"
    by (simp add: vm_demo_inv(2) range_mapped_zero)
  then show ?thesis
    using mappages_maps_range [OF uvm_invD(1) [OF vm_demo_inv(1)], of "0x1001" "0x3000" 0 2] by auto
qed

text \<open>
  C14: \<open>mappages\<close> never replaces a mapping: if some page of the range is mapped already, it does not return 0.
\<close>

theorem mappages_never_remaps:
  assumes "vm_inv s d L" and "0 < sz" and "unat va + unat sz \<le> 4294967296"
    and "range_mapped (pte (mem s) d) va (page_count va sz)"
  shows "mappages d va sz pa perm s \<noteq> Inr (0, s')"
  using wpeD [OF mappages_spec [OF assms(1-3), of pa perm], of 0 s'] assms(4)
  by (auto simp: map_outcome_def)

theorem mappages_never_remaps_witness: "\<forall>s'. mappages 0x80400000 0 1 0 2 vm_user \<noteq> Inr (0, s')"
proof -
  have "range_mapped (pte (mem vm_user) 0x80400000) 0 (page_count 0 1)"
    unfolding range_mapped_def by (intro exI [of _ 0]) (simp add: vm_user_inv(2) page_count_def pg_def)
  then show ?thesis
    using mappages_never_remaps [OF uvm_invD(1) [OF vm_user_inv(1)], of 1 0] by simp
qed

text \<open>
  C16: \<open>deallocuvm\<close> gives exactly the frames of the pages between the new and the old size back to the free
  list, each once, clears their entries, and leaves every other entry and every other page alone.
\<close>

theorem deallocuvm_frees_range:
  assumes "uvm_inv s d L" and "oldsz \<le> HEAPLIMIT" and "newsz < oldsz"
  shows "\<exists>s' F. deallocuvm d oldsz newsz s = Inr (newsz, s') \<and> uvm_inv s' d (F @ L)
    \<and> set F = frames (mem s) d ((unat newsz + 4095) div 4096) ((unat oldsz + 4095) div 4096)
    \<and> pte (mem s') d = unmap_range (pte (mem s) d) ((unat newsz + 4095) div 4096) ((unat oldsz + 4095) div 4096)
    \<and> (\<forall>x. pg x \<notin> pg ` (owned (mem s) d \<union> set F) \<longrightarrow> mem s' x = mem s x)"
proof -
  have "unat oldsz \<le> 0x7F000000" using assms(2) by (simp add: word_le_nat_alt)
  from wpe_returns [OF deallocuvm_spec [OF assms(1) this, of newsz]] assms(3)
  obtain s' where s': "deallocuvm d oldsz newsz s = Inr (newsz, s')"
    "dealloc_outcome d L ((unat newsz + 4095) div 4096) ((unat oldsz + 4095) div 4096) s s'" by auto
  from s'(2) obtain F where "uvm_inv s' d (F @ L)"
    "set F = frames (mem s) d ((unat newsz + 4095) div 4096) ((unat oldsz + 4095) div 4096)"
    "pte (mem s') d = unmap_range (pte (mem s) d) ((unat newsz + 4095) div 4096) ((unat oldsz + 4095) div 4096)"
    "\<forall>x. pg x \<notin> pg ` (owned (mem s) d \<union> set F) \<longrightarrow> mem s' x = mem s x"
    unfolding dealloc_outcome_def by metis
  with s'(1) show ?thesis by blast
qed

theorem deallocuvm_frees_range_witness:
  "\<exists>s' F. deallocuvm 0x80400000 0x5000 0 vm_user = Inr (0, s')
     \<and> set F = frames (mem vm_user) 0x80400000 0 5 \<and> uvm_inv s' 0x80400000 (F @ [0x80402000])"
  using deallocuvm_frees_range [OF vm_user_inv(1), of "0x5000" 0] by auto



text \<open>
  C17: \<open>freevm\<close> returns and puts every page of the address space (user frames, page tables and the
  directory) back on the free list, each exactly once.
\<close>

theorem freevm_frees_everything:
  assumes "uvm_inv s d L"
  shows "\<exists>s' L'. freevm d s = Inr ((), s') \<and> free_pages s' L'
    \<and> set L' = set L \<union> owned (mem s) d \<union> frames (mem s) d 0 heap_pages"
  using wpe_returns [OF freevm_spec [OF assms]] unfolding freed_def by auto

theorem freevm_frees_everything_witness:
  "\<exists>s' L'. freevm 0x80400000 vm_demo = Inr ((), s') \<and> free_pages s' L'
    \<and> set L' = {0x80400000, 0x80401000, 0x80402000}"
proof -
  have "frames (mem vm_demo) 0x80400000 0 heap_pages = {}"
    by (simp add: frames_def mapped_def vm_demo_inv(2))
  moreover have "owned (mem vm_demo) 0x80400000 = {0x80400000}" by (simp add: owned_def vm_demo_dir)
  ultimately show ?thesis using freevm_frees_everything [OF vm_demo_inv(1)] by auto
qed





end
