(* ===== verification/Proc.thy ===== *)
theory Proc
  imports Kvm
begin

text \<open>
  The process table of proc.c and proc.h: the process structure with its shared-memory slots, the
  lookup of the running process, the creation of a process, \<open>growproc\<close>, the context switch into the
  scheduler with \<open>sched\<close>, \<open>yield\<close>, \<open>sleep\<close>, \<open>wakeup\<close> and \<open>kill\<close>, the scheduler itself, and
  \<open>switchuvm\<close> of vm.c. A pointer to an element of \<open>ptable.proc\<close> is its index, the null pointer is
  \<open>None\<close>; trap frames and contexts are memory on the kernel stack, at their address.

  A run of the model follows one kernel thread up to its next context switch: \<open>swtch\<close> ends it with
  the fault \<open>Switched\<close>, in the state in which the other thread goes on. The code that follows a
  switch is part of the definitions; where a thread is resumed there, the part has a definition of
  its own (\<open>sleep_resume\<close>).
\<close>

section \<open>State\<close>

datatype procstate = UNUSED | EMBRYO | SLEEPING | RUNNABLE | RUNNING | ZOMBIE

record sharedPages =
  sp_key :: u32
  sp_size :: u32
  sp_shmid :: int
  sp_perm :: u32
  sp_virtualAddr :: u32

record proc =
  p_sz :: u32
  p_pgdir :: u32
  p_kstack :: u32
  p_state :: procstate
  p_pid :: int
  p_parent :: "nat option"
  p_tf :: u32
  p_context :: u32
  p_chan :: chan
  p_killed :: int
  p_ofile :: "nat option list"
  p_cwd :: "nat option"
  p_name :: "u8 list"
  p_pages :: "sharedPages list"

text \<open>
  \<open>trapret_addr\<close> and \<open>forkret_addr\<close> are the addresses of the two code labels, \<open>ts_addr i\<close> is the
  address of the task state of CPU \<open>i\<close>.
\<close>

record procst = vmst +
  ptable :: "proc list"
  initproc :: "nat option"
  nextpid :: int
  trapret_addr :: u32
  forkret_addr :: u32
  ts_addr :: "nat \<Rightarrow> u32"

definition upd_proc :: "nat \<Rightarrow> (proc \<Rightarrow> proc) \<Rightarrow> ('x procst_scheme, unit) kmon" where
  "upd_proc i f = modify (\<lambda>s. s\<lparr>ptable := (ptable s)[i := f (ptable s ! i)]\<rparr>)"

definition get_proc :: "nat \<Rightarrow> ('x procst_scheme, proc) kmon" where
  "get_proc i = gets (\<lambda>s. ptable s ! i)"

definition nonnull :: "string \<Rightarrow> 'a option \<Rightarrow> ('s, 'a) kmon" where
  "nonnull what p = (case p of Some x \<Rightarrow> ret x | None \<Rightarrow> fail (Undefined what))"

section \<open>The running process\<close>

definition pinit :: "('x procst_scheme, unit) kmon" where
  "pinit = initlock LPtable ''ptable''"

definition myproc :: "('x machine_scheme, nat option) kmon" where
  "myproc =
     sq pushcli (
     bnd mycpu (\<lambda>c.
     bnd (gets (\<lambda>s. c_proc (cpus s ! c))) (\<lambda>p.
     sq popcli (ret p))))"

text \<open>\<open>myproc()\<close> where the code goes on to dereference the result.\<close>

definition curproc :: "('x machine_scheme, nat) kmon" where
  "curproc = bnd myproc (nonnull ''myproc() is null'')"

section \<open>Creating a process\<close>

definition trapframe_size :: u32 where
  "trapframe_size = 76"

definition context_size :: u32 where
  "context_size = 20"

definition blank_page :: sharedPages where
  "blank_page = \<lparr>sp_key = -1, sp_size = 0, sp_shmid = -1, sp_perm = PTE_W OR PTE_U,
     sp_virtualAddr = 0\<rparr>"

definition init_pages :: "nat \<Rightarrow> ('x procst_scheme, unit) kmon" where
  "init_pages p =
     each 0 SHAREDREGIONS (\<lambda>i. upd_proc p (\<lambda>q. q\<lparr>p_pages := (p_pages q)[i := blank_page]\<rparr>))"

definition allocproc :: "('x procst_scheme, nat option) kmon" where
  "allocproc =
     sq (acquire LPtable) (
     bnd (gets (\<lambda>s. first_index (\<lambda>i. p_state (ptable s ! i) = UNUSED) NPROC)) (\<lambda>r.
     case r of
       None \<Rightarrow> sq (release LPtable) (ret None)
     | Some p \<Rightarrow>
         bnd (gets nextpid) (\<lambda>pid.
         sq (upd_proc p (\<lambda>q. q\<lparr>p_state := EMBRYO, p_pid := pid\<rparr>)) (
         sq (modify (\<lambda>s. s\<lparr>nextpid := pid + 1\<rparr>)) (
         sq (release LPtable) (
         bnd kalloc (\<lambda>kstack.
         sq (upd_proc p (\<lambda>q. q\<lparr>p_kstack := kstack\<rparr>)) (
         if kstack = 0 then sq (upd_proc p (\<lambda>q. q\<lparr>p_state := UNUSED\<rparr>)) (ret None)
         else
           let tf = kstack + KSTACKSIZE - trapframe_size; ra = tf - 4; ctx = ra - context_size in
           bnd (gets trapret_addr) (\<lambda>trapret.
           bnd (gets forkret_addr) (\<lambda>forkret.
           sq (upd_proc p (\<lambda>q. q\<lparr>p_tf := tf\<rparr>)) (
           sq (wr32 ra trapret) (
           sq (upd_proc p (\<lambda>q. q\<lparr>p_context := ctx\<rparr>)) (
           sq (kmemset ctx 0 context_size) (
           sq (wr32 (ctx + 16) forkret) (
           sq (init_pages p)
              (ret (Some p)))))))))))))))))"

section \<open>Switching address spaces\<close>

definition ltr :: "u16 \<Rightarrow> ('x machine_scheme, unit) kmon" where
  "ltr sel = modify (\<lambda>s. s\<lparr>tr := sel\<rparr>)"

definition switchuvm :: "nat option \<Rightarrow> ('x procst_scheme, unit) kmon" where
  "switchuvm p =
     (case p of None \<Rightarrow> panic ''switchuvm: no process'' | Some p \<Rightarrow>
       bnd (get_proc p) (\<lambda>q.
       if p_kstack q = 0 then panic ''switchuvm: no kstack''
       else if p_pgdir q = 0 then panic ''switchuvm: no pgdir''
       else
         sq pushcli (
         bnd mycpu (\<lambda>c.
         bnd (gets (\<lambda>s. ts_addr s c)) (\<lambda>a.
         sq (upd_cpu c (\<lambda>k. k\<lparr>c_gdt := (c_gdt k)[5 := (SEG16 0x9 a 103 0)\<lparr>sd_s := 0\<rparr>],
               c_ts := (c_ts k)\<lparr>ts_ss0 := 0x10, ts_esp0 := p_kstack q + KSTACKSIZE,
                 ts_iomb := 0xFFFF\<rparr>\<rparr>)) (
         sq (ltr 0x28) (
         sq (lcr3 (V2P (p_pgdir q)))
            popcli)))))))"

definition growproc :: "int \<Rightarrow> ('x procst_scheme, int) kmon" where
  "growproc n =
     bnd curproc (\<lambda>p.
     bnd (get_proc p) (\<lambda>q.
     let sz = p_sz q; d = p_pgdir q;
         finish = (\<lambda>sz'. sq (upd_proc p (\<lambda>q. q\<lparr>p_sz := sz'\<rparr>)) (
                         sq (switchuvm (Some p)) (ret 0))) in
     if 0 < n then
       bnd (allocuvm d sz (sz + of_int n)) (\<lambda>sz'. if sz' = 0 then ret (-1) else finish sz')
     else if n < 0 then
       bnd (deallocuvm d sz (sz + of_int n)) (\<lambda>sz'. if sz' = 0 then ret (-1) else finish sz')
     else finish sz))"

section \<open>Context switches\<close>

definition swtch :: "('s, unit) kmon" where
  "swtch = fail Switched"

definition sched :: "('x procst_scheme, unit) kmon" where
  "sched =
     bnd curproc (\<lambda>p.
     bnd (holding LPtable) (\<lambda>h.
     if \<not> h then panic ''sched ptable.lock''
     else bnd mycpu (\<lambda>c.
       bnd (gets (\<lambda>s. cpus s ! c)) (\<lambda>k.
       bnd (get_proc p) (\<lambda>q.
       bnd (gets eflags_IF) (\<lambda>fl.
       if c_ncli k \<noteq> 1 then panic ''sched locks''
       else if p_state q = RUNNING then panic ''sched running''
       else if fl then panic ''sched interruptible''
       else
         sq swtch (
         bnd mycpu (\<lambda>c'.
         upd_cpu c' (\<lambda>k'. k'\<lparr>c_intena := c_intena k\<rparr>)))))))))"

definition yield :: "('x procst_scheme, unit) kmon" where
  "yield =
     sq (acquire LPtable) (
     bnd curproc (\<lambda>p.
     sq (upd_proc p (\<lambda>q. q\<lparr>p_state := RUNNABLE\<rparr>)) (
     sq sched
        (release LPtable))))"

text \<open>The part of \<open>sleep\<close> that runs after the process has been woken and switched to.\<close>

definition sleep_resume :: "nat \<Rightarrow> lockid \<Rightarrow> ('x procst_scheme, unit) kmon" where
  "sleep_resume p lk =
     sq (upd_proc p (\<lambda>q. q\<lparr>p_chan := ChanNull\<rparr>))
        (whenk (lk \<noteq> LPtable) (sq (release LPtable) (acquire lk)))"

definition sleep :: "chan \<Rightarrow> lockid option \<Rightarrow> ('x procst_scheme, unit) kmon" where
  "sleep ch lk =
     bnd myproc (\<lambda>p.
     case p of None \<Rightarrow> panic ''sleep'' | Some p \<Rightarrow>
     case lk of None \<Rightarrow> panic ''sleep without lk'' | Some lk \<Rightarrow>
       sq (whenk (lk \<noteq> LPtable) (sq (acquire LPtable) (release lk))) (
       sq (upd_proc p (\<lambda>q. q\<lparr>p_chan := ch\<rparr>)) (
       sq (upd_proc p (\<lambda>q. q\<lparr>p_state := SLEEPING\<rparr>)) (
       sq sched
          (sleep_resume p lk)))))"

definition wakeup1 :: "chan \<Rightarrow> ('x procst_scheme, unit) kmon" where
  "wakeup1 ch =
     each 0 NPROC (\<lambda>i.
       bnd (get_proc i) (\<lambda>q.
       whenk (p_state q = SLEEPING \<and> p_chan q = ch)
         (upd_proc i (\<lambda>q. q\<lparr>p_state := RUNNABLE\<rparr>))))"

definition wakeup :: "chan \<Rightarrow> ('x procst_scheme, unit) kmon" where
  "wakeup ch = sq (acquire LPtable) (sq (wakeup1 ch) (release LPtable))"

definition kill :: "int \<Rightarrow> ('x procst_scheme, int) kmon" where
  "kill pid =
     sq (acquire LPtable) (
     bnd (for_loop 0 NPROC (\<lambda>i.
       bnd (get_proc i) (\<lambda>q.
       if p_pid q = pid then
         sq (upd_proc i (\<lambda>q. q\<lparr>p_killed := 1\<rparr>)) (
         sq (whenk (p_state q = SLEEPING) (upd_proc i (\<lambda>q. q\<lparr>p_state := RUNNABLE\<rparr>))) (
         sq (release LPtable)
            (ret (Some 0))))
       else ret None))) (\<lambda>r.
     case r of Some v \<Rightarrow> ret v
     | None \<Rightarrow> sq (release LPtable) (ret (-1))))"

section \<open>The scheduler\<close>

definition sched_slot :: "nat \<Rightarrow> nat \<Rightarrow> ('x procst_scheme, unit) kmon" where
  "sched_slot c i =
     bnd (get_proc i) (\<lambda>q.
     if p_state q \<noteq> RUNNABLE then ret ()
     else
       sq (upd_cpu c (\<lambda>k. k\<lparr>c_proc := Some i\<rparr>)) (
       sq (switchuvm (Some i)) (
       sq (upd_proc i (\<lambda>q. q\<lparr>p_state := RUNNING\<rparr>)) (
       sq swtch (
       sq switchkvm
          (upd_cpu c (\<lambda>k. k\<lparr>c_proc := None\<rparr>)))))))"

definition sched_round :: "nat \<Rightarrow> ('x procst_scheme, unit) kmon" where
  "sched_round c =
     sq sti (
     sq (acquire LPtable) (
     sq (each 0 NPROC (sched_slot c))
        (release LPtable)))"

text \<open>
  The endless loop of \<open>scheduler\<close>, cut off after \<open>rounds\<close> scans of the table that found nothing to
  run.
\<close>

definition scheduler :: "nat \<Rightarrow> ('x procst_scheme, unit) kmon" where
  "scheduler rounds =
     bnd mycpu (\<lambda>c.
     sq (upd_cpu c (\<lambda>k. k\<lparr>c_proc := None\<rparr>)) (
     sq (each 0 rounds (\<lambda>_. sched_round c))
        (fail Diverges)))"

section \<open>Listing the processes\<close>

definition state_name :: "procstate \<Rightarrow> string" where
  "state_name st = (case st of
      UNUSED \<Rightarrow> ''unused'' | EMBRYO \<Rightarrow> ''embryo'' | SLEEPING \<Rightarrow> ''sleep '' | RUNNABLE \<Rightarrow> ''runble''
    | RUNNING \<Rightarrow> ''run   '' | ZOMBIE \<Rightarrow> ''zombie'')"

definition procdump :: "('x procst_scheme, unit) kmon" where
  "procdump =
     each 0 NPROC (\<lambda>i.
       bnd (get_proc i) (\<lambda>q.
       if p_state q = UNUSED then ret ()
       else
         sq (cprintfa ''%d %s %s'' [AInt (p_pid q), AStr (state_name (p_state q)), AChars (p_name q)]) (
         sq (whenk (p_state q = SLEEPING)
              (bnd (rd32 (p_context q + 12)) (\<lambda>ebp.
               bnd (gets (\<lambda>s. takeWhile (\<lambda>pc. pc \<noteq> 0) (getcallerpcs (mem s) (ebp + 8)))) (\<lambda>pcs.
               each 0 (length pcs) (\<lambda>j. cprintfa '' %p'' [AWord (pcs ! j)])))))
            (cprintf ''\<newline>''))))"

section \<open>What locking leaves of the process table\<close>

text \<open>\<open>polled s\<close> is the state after a look at the CPU structure between \<open>pushcli\<close> and \<open>popcli\<close>.\<close>

definition polled :: "'x machine_scheme \<Rightarrow> 'x machine_scheme" where
  "polled s = popped (pushed s)"

lemma polled_id: "cpu_ok s \<Longrightarrow> 0 < c_ncli (cur_cpu s) \<Longrightarrow> polled s = s"
  by (simp add: polled_def popped_pushed)

lemma proc_locking [simp]:
  "ptable (acquired l s) = ptable s" "ptable (released l s) = ptable s" "ptable (polled s) = ptable s"
  "initproc (acquired l s) = initproc s" "initproc (released l s) = initproc s"
  "initproc (polled s) = initproc s"
  "nextpid (acquired l s) = nextpid s" "nextpid (released l s) = nextpid s"
  "nextpid (polled s) = nextpid s"
  "ts_addr (acquired l s) = ts_addr s" "ts_addr (released l s) = ts_addr s"
  "ts_addr (polled s) = ts_addr s"
  "ptable (bracket l s) = ptable s" "initproc (bracket l s) = initproc s"
  "nextpid (bracket l s) = nextpid s" "ts_addr (bracket l s) = ts_addr s"
  by (simp_all add: acquired_def pushed_def released_def popped_def polled_def bracket_def)

lemma ptable_upd_frame [simp]:
  "cpu_index (s\<lparr>ptable := t\<rparr>) = cpu_index s" "cur_cpu (s\<lparr>ptable := t\<rparr>) = cur_cpu s"
  "cpu_ok (s\<lparr>ptable := t\<rparr>) = cpu_ok s" "held l (s\<lparr>ptable := t\<rparr>) = held l s"
  "in_lock l (s\<lparr>ptable := t\<rparr>) = in_lock l s" "can_lock l (s\<lparr>ptable := t\<rparr>) = can_lock l s"
  "lockview (s\<lparr>ptable := t\<rparr>) = lockview s" "kmem_ready (s\<lparr>ptable := t\<rparr>) = kmem_ready s"
  "cpu_index (s\<lparr>nextpid := n\<rparr>) = cpu_index s" "cur_cpu (s\<lparr>nextpid := n\<rparr>) = cur_cpu s"
  "cpu_ok (s\<lparr>nextpid := n\<rparr>) = cpu_ok s" "held l (s\<lparr>nextpid := n\<rparr>) = held l s"
  "in_lock l (s\<lparr>nextpid := n\<rparr>) = in_lock l s" "can_lock l (s\<lparr>nextpid := n\<rparr>) = can_lock l s"
  "lockview (s\<lparr>nextpid := n\<rparr>) = lockview s" "kmem_ready (s\<lparr>nextpid := n\<rparr>) = kmem_ready s"
  by (simp_all add: cpu_ok_def cur_cpu_def cpu_index_def held_def in_lock_def can_lock_def
      lockview_def kmem_ready_def)

lemma released_ptable [simp]:
  "released l (s\<lparr>ptable := t\<rparr>) = (released l s)\<lparr>ptable := t\<rparr>"
  "released l (s\<lparr>nextpid := n\<rparr>) = (released l s)\<lparr>nextpid := n\<rparr>"
  by (simp_all add: released_def popped_def cur_cpu_def cpu_index_def)

lemma wpe_procs [wp]:
  "wpe (upd_proc i f) E Q s \<longleftrightarrow> Q () (s\<lparr>ptable := (ptable s)[i := f (ptable s ! i)]\<rparr>)"
  "wpe (get_proc i) E R s \<longleftrightarrow> R (ptable s ! i) s"
  by (simp_all add: upd_proc_def get_proc_def wp)

lemma run_procs [run]:
  "bnd (get_proc i) k s = k (ptable s ! i) s"
  "sq (upd_proc i f) n s = n (s\<lparr>ptable := (ptable s)[i := f (ptable s ! i)]\<rparr>)"
  by (simp_all add: get_proc_def upd_proc_def run)

lemma wpe_nonnull [wp]:
  "wpe (nonnull w p) E Q s \<longleftrightarrow> (case p of Some x \<Rightarrow> Q x s | None \<Rightarrow> E (Undefined w) s)"
  by (cases p) (simp_all add: nonnull_def wp)

lemma myproc_eq:
  assumes "cpu_ok s"
  shows "myproc s = Inr (c_proc (cur_cpu s), polled s)"
proof -
  have ok: "cpu_ok (pushed s)" "0 < c_ncli (cur_cpu (pushed s))"
    using assms by (simp_all add: cpu_ok_pushed ncli_pushed)
  have "cpus (pushed s) ! the (cpu_index s) = cur_cpu (pushed s)" by (simp add: cur_cpu_def)
  then show ?thesis
    using assms ok
    by (simp add: myproc_def sq_def bnd_def pushcli_eq mycpu_eq gets_def popcli_eq ret_def polled_def
        cur_cpu_pushed)
qed

lemma wpe_myproc: "cpu_ok s \<Longrightarrow> wpe myproc E Q s \<longleftrightarrow> Q (c_proc (cur_cpu s)) (polled s)"
  by (rule wpe_ret_eq) (rule myproc_eq)

lemma run_myproc [run]:
  "cpu_ok s \<Longrightarrow> bnd myproc k s = k (c_proc (cur_cpu s)) (polled s)"
  by (simp add: bnd_def myproc_eq)

lemma run_curproc:
  "cpu_ok s \<Longrightarrow> c_proc (cur_cpu s) = Some p \<Longrightarrow> bnd curproc k s = k p (polled s)"
  by (simp add: curproc_def bnd_def myproc_eq nonnull_def ret_def)

lemma wpe_curproc:
  "cpu_ok s \<Longrightarrow> c_proc (cur_cpu s) = Some p \<Longrightarrow> wpe curproc E Q s \<longleftrightarrow> Q p (polled s)"
  by (simp add: curproc_def wpe_bnd wpe_myproc wpe_nonnull)

lemma cpu_ok_polled:
  assumes "cpu_ok s"
  shows "cpu_ok (polled s)" "cur_cpu (polled s) = (cur_cpu s)\<lparr>c_intena :=
    (if c_ncli (cur_cpu s) = 0 then eflags_IF s else c_intena (cur_cpu s))\<rparr>"
    "eflags_IF (polled s) = eflags_IF s" "locks (polled s) = locks s"
    "cpu_index (polled s) = cpu_index s" "mem (polled s) = mem s" "cr3 (polled s) = cr3 s"
proof -
  have p: "cpu_ok (pushed s)" "0 < c_ncli (cur_cpu (pushed s))"
    using assms by (simp_all add: cpu_ok_pushed ncli_pushed)
  then show c: "cur_cpu (polled s) = (cur_cpu s)\<lparr>c_intena :=
    (if c_ncli (cur_cpu s) = 0 then eflags_IF s else c_intena (cur_cpu s))\<rparr>"
    by (simp add: polled_def cur_cpu_popped cur_cpu_pushed assms)
  show e: "eflags_IF (polled s) = eflags_IF s"
    using assms by (simp add: polled_def eflags_popped_pushed)
  show "cpu_ok (polled s)"
    using assms c e by (simp add: cpu_ok_def) (simp add: polled_def)
qed (simp_all add: polled_def)

lemma lockview_polled: "cpu_ok s \<Longrightarrow> lockview (polled s) = lockview s"
  by (simp add: lockview_def cpu_ok_polled)

lemma can_lock_polled: "can_lock l s \<Longrightarrow> can_lock l (polled s)"
  by (simp add: can_lock_def cpu_ok_polled)

section \<open>Waking and sleeping\<close>

definition woken :: "chan \<Rightarrow> proc \<Rightarrow> proc" where
  "woken ch q = (if p_state q = SLEEPING \<and> p_chan q = ch then q\<lparr>p_state := RUNNABLE\<rparr> else q)"

text \<open>A loop that rewrites the entries of the table one after the other rewrites the whole table.\<close>

lemma each_ptable:
  assumes body: "\<And>i u. i < length (ptable s) \<Longrightarrow>
      body i u = Inr ((), u\<lparr>ptable := (ptable u)[i := f (ptable u ! i)]\<rparr>)"
    and "i + k = length (ptable s)"
  shows "each i k body (s\<lparr>ptable := map f (take i (ptable s)) @ drop i (ptable s)\<rparr>)
    = Inr ((), s\<lparr>ptable := map f (ptable s)\<rparr>)"
  using assms(2)
proof (induction k arbitrary: i)
  case 0
  then show ?case by (simp add: ret_def)
next
  case (Suc k)
  let ?t = "ptable s"
  have i: "i < length ?t" using Suc.prems by simp
  have "(map f (take i ?t) @ drop i ?t)[i := f ((map f (take i ?t) @ drop i ?t) ! i)]
      = map f (take (Suc i) ?t) @ drop (Suc i) ?t"
    using i by (simp add: list_update_append nth_append take_Suc_conv_app_nth Cons_nth_drop_Suc [symmetric])
  then show ?case
    using i Suc.IH [of "Suc i"] Suc.prems by (simp add: sq_def bnd_def body)
qed

lemma wakeup1_eq:
  assumes "length (ptable s) = NPROC"
  shows "wakeup1 ch s = Inr ((), s\<lparr>ptable := map (woken ch) (ptable s)\<rparr>)"
proof -
  have "(bnd (get_proc i) (\<lambda>q. whenk (p_state q = SLEEPING \<and> p_chan q = ch)
          (upd_proc i (\<lambda>q. q\<lparr>p_state := RUNNABLE\<rparr>)))) u
      = Inr ((), u\<lparr>ptable := (ptable u)[i := woken ch (ptable u ! i)]\<rparr>)" for i and u :: "'x procst_scheme"
    by (auto simp: bnd_def get_proc_def gets_def whenk_def upd_proc_def modify_def ret_def woken_def)
  from each_ptable [of s _ "woken ch" 0, OF this] show ?thesis
    using assms by (simp add: wakeup1_def)
qed

lemma wpe_wakeup1:
  "length (ptable s) = NPROC \<Longrightarrow>
    wpe (wakeup1 ch) E Q s \<longleftrightarrow> Q () (s\<lparr>ptable := map (woken ch) (ptable s)\<rparr>)"
  by (rule wpe_ret_eq) (rule wakeup1_eq)

lemma wakeup_eq:
  assumes "can_lock LPtable s" and "length (ptable s) = NPROC"
  shows "wakeup ch s = Inr ((), (bracket LPtable s)\<lparr>ptable := map (woken ch) (ptable s)\<rparr>)"
proof -
  have "in_lock LPtable (acquired LPtable s)" using assms(1) by (rule in_lock_acquired)
  then show ?thesis
    using assms
    by (simp add: wakeup_def sq_def bnd_def acquire_eq can_lock_def wakeup1_eq release_eq in_lock_def
        bracket_def)
qed

text \<open>
  \<open>can_sleep p lk s\<close>: the running process \<open>p\<close> holds \<open>lk\<close> and no other lock, and nobody holds the lock
  of the process table.
\<close>

definition can_sleep :: "nat \<Rightarrow> lockid \<Rightarrow> 'x procst_scheme \<Rightarrow> bool" where
  "can_sleep p lk s \<longleftrightarrow>
     in_lock lk s \<and> c_ncli (cur_cpu s) = 1 \<and> c_proc (cur_cpu s) = Some p \<and> p < length (ptable s)
       \<and> (lk \<noteq> LPtable \<longrightarrow> can_lock LPtable s)"

definition asleep :: "nat \<Rightarrow> chan \<Rightarrow> lockid \<Rightarrow> 'x procst_scheme \<Rightarrow> 'x procst_scheme" where
  "asleep p ch lk s =
     (if lk = LPtable then s else released lk (acquired LPtable s))
       \<lparr>ptable := (ptable s)[p := (ptable s ! p)\<lparr>p_chan := ch, p_state := SLEEPING\<rparr>]\<rparr>"

lemma in_lock_swap:
  assumes "can_lock LPtable s" "in_lock lk s" "lk \<noteq> LPtable"
  shows "in_lock lk (acquired LPtable s)" "in_lock LPtable (released lk (acquired LPtable s))"
    "cur_cpu (released lk (acquired LPtable s)) = cur_cpu s"
proof -
  have ok: "cpu_ok s" "0 < c_ncli (cur_cpu s)" "held lk s"
    using assms(2) by (simp_all add: in_lock_def)
  have a: "cpu_ok (acquired LPtable s)" "0 < c_ncli (cur_cpu (acquired LPtable s))"
    "held LPtable (acquired LPtable s)"
    using in_lock_acquired [OF assms(1)] by (simp_all add: in_lock_def)
  show "in_lock lk (acquired LPtable s)"
    using a ok assms(3) by (simp add: in_lock_def held_def)
  have n: "c_ncli (cur_cpu s) \<noteq> 0" using ok by simp
  then show c: "cur_cpu (released lk (acquired LPtable s)) = cur_cpu s"
    using a(1) ok by (simp add: cur_cpu_released cur_cpu_pushed)
  show "in_lock LPtable (released lk (acquired LPtable s))"
    unfolding in_lock_def c
    using a ok assms(3) by (simp add: cpu_ok_released) (simp add: held_def)
qed

lemma sched_switches:
  assumes "in_lock LPtable s" "c_ncli (cur_cpu s) = 1" "c_proc (cur_cpu s) = Some p"
    "p_state (ptable s ! p) \<noteq> RUNNING"
  shows "sched s = Inl (Switched, s)"
proof -
  have ok: "cpu_ok s" "0 < c_ncli (cur_cpu s)" "\<not> eflags_IF s" "held LPtable s"
    using assms(1) by (simp_all add: in_lock_def cpu_ok_def)
  then have "cpus s ! the (cpu_index s) = cur_cpu s" by (simp add: cur_cpu_def)
  then show ?thesis
    using ok assms
    by (simp add: sched_def curproc_def bnd_def myproc_eq polled_id nonnull_def ret_def holding_eq
        mycpu_eq gets_def get_proc_def sq_def swtch_def fail_def)
qed

lemma sleep_eq:
  assumes "can_sleep p lk s"
  shows "sleep ch (Some lk) s = Inl (Switched, asleep p ch lk s)"
proof -
  have s: "in_lock lk s" "c_ncli (cur_cpu s) = 1" "c_proc (cur_cpu s) = Some p" "p < length (ptable s)"
    "cpu_ok s"
    using assms by (simp_all add: can_sleep_def in_lock_def)
  define u where "u = (if lk = LPtable then s else released lk (acquired LPtable s))"
  have u: "whenk (lk \<noteq> LPtable) (sq (acquire LPtable) (release lk)) s = Inr ((), u)"
  proof (cases "lk = LPtable")
    case False
    then have c: "can_lock LPtable s" using assms by (simp add: can_sleep_def)
    then have "in_lock lk (acquired LPtable s)" using in_lock_swap False s(1) by blast
    then show ?thesis
      using False c by (simp add: u_def whenk_def sq_def bnd_def acquire_eq can_lock_def release_eq
          in_lock_def)
  qed (simp add: u_def whenk_def ret_def)
  have i: "in_lock LPtable u" "cur_cpu u = cur_cpu s" "ptable u = ptable s"
    using in_lock_swap(2,3) [of s lk] s(1) assms by (auto simp: u_def can_sleep_def)
  have "sched (u\<lparr>ptable := (ptable s)[p := (ptable s ! p)\<lparr>p_chan := ch, p_state := SLEEPING\<rparr>]\<rparr>)
      = Inl (Switched, u\<lparr>ptable := (ptable s)[p := (ptable s ! p)\<lparr>p_chan := ch, p_state := SLEEPING\<rparr>]\<rparr>)"
    using i s by (intro sched_switches [of _ p]) simp_all
  then show ?thesis
    using s u i
    by (simp add: sleep_def bnd_def myproc_eq polled_id sq_def upd_proc_def modify_def asleep_def
        u_def [symmetric])
qed

section \<open>Switching to a user address space\<close>

definition load_user :: "u32 \<Rightarrow> proc \<Rightarrow> cpu \<Rightarrow> cpu" where
  "load_user a q k = k\<lparr>c_gdt := (c_gdt k)[5 := (SEG16 0x9 a 103 0)\<lparr>sd_s := 0\<rparr>],
     c_ts := (c_ts k)\<lparr>ts_ss0 := 0x10, ts_esp0 := p_kstack q + KSTACKSIZE, ts_iomb := 0xFFFF\<rparr>\<rparr>"

definition switched_to :: "proc \<Rightarrow> 'x procst_scheme \<Rightarrow> 'x procst_scheme" where
  "switched_to q s =
     s\<lparr>cpus := (cpus s)[the (cpu_index s) := load_user (ts_addr s (the (cpu_index s))) q (cur_cpu s)],
       tr := 0x28, cr3 := V2P (p_pgdir q)\<rparr>"

lemma load_user_simps [simp]:
  "c_ncli (load_user a q k) = c_ncli k" "c_intena (load_user a q k) = c_intena k"
  "c_apicid (load_user a q k) = c_apicid k" "c_proc (load_user a q k) = c_proc k"
  "load_user a q (k\<lparr>c_ncli := n\<rparr>) = (load_user a q k)\<lparr>c_ncli := n\<rparr>"
  "load_user a q (k\<lparr>c_intena := b\<rparr>) = (load_user a q k)\<lparr>c_intena := b\<rparr>"
  by (simp_all add: load_user_def)

lemma switched_to_simps [simp]:
  "cpu_index (switched_to q s) = cpu_index s" "mem (switched_to q s) = mem s"
  "locks (switched_to q s) = locks s" "ptable (switched_to q s) = ptable s"
  "eflags_IF (switched_to q s) = eflags_IF s" "ts_addr (switched_to q s) = ts_addr s"
  "cr3 (switched_to q s) = V2P (p_pgdir q)" "nextpid (switched_to q s) = nextpid s"
  "initproc (switched_to q s) = initproc s" "kpgdir (switched_to q s) = kpgdir s"
  by (simp_all add: switched_to_def cpu_index_def cur_cpu_def cpu_index_upd)

lemma cur_cpu_switched_to:
  assumes "cpu_ok s"
  shows "cur_cpu (switched_to q s) = load_user (ts_addr s (the (cpu_index s))) q (cur_cpu s)"
    and "cpu_ok (switched_to q s)"
proof -
  show c: "cur_cpu (switched_to q s) = load_user (ts_addr s (the (cpu_index s))) q (cur_cpu s)"
    using assms unfolding cur_cpu_def [of "switched_to q s"] switched_to_simps
    by (simp add: switched_to_def cpu_ok_def)
  show "cpu_ok (switched_to q s)"
    using assms unfolding cpu_ok_def c switched_to_simps by (simp add: switched_to_def)
qed

lemma in_lock_switched_to: "in_lock l s \<Longrightarrow> in_lock l (switched_to q s)"
  by (simp add: in_lock_def cur_cpu_switched_to held_def)

lemma lockview_switched_to: "cpu_ok s \<Longrightarrow> lockview (switched_to q s) = lockview s"
  by (simp add: lockview_def cur_cpu_switched_to)

lemma popped_switched_to:
  assumes "cpu_ok u"
  shows "popped (switched_to q u) = switched_to q (popped u)"
proof -
  have ts: "ts_addr (popped u) = ts_addr u" by (simp add: popped_def)
  show ?thesis
    unfolding popped_def [of "switched_to q u"] cur_cpu_switched_to(1) [OF assms] switched_to_simps
    unfolding switched_to_def cpu_index_popped cur_cpu_popped [OF assms] ts
    unfolding popped_def by simp
qed

lemma switchuvm_eq:
  assumes "cpu_ok s" "p_kstack (ptable s ! p) \<noteq> 0" "p_pgdir (ptable s ! p) \<noteq> 0"
  shows "switchuvm (Some p) s = Inr ((), switched_to (ptable s ! p) (polled s))"
proof -
  let ?q = "ptable s ! p" and ?u = "pushed s"
  have ok: "cpu_ok ?u" "0 < c_ncli (cur_cpu ?u)" "\<not> eflags_IF ?u"
    using assms(1) by (simp_all add: cpu_ok_pushed ncli_pushed)
  then have pop: "popcli (switched_to ?q ?u) = Inr ((), switched_to ?q (polled s))"
    using assms(1) by (simp add: popcli_eq cur_cpu_switched_to popped_switched_to polled_def)
  have ts: "ts_addr ?u = ts_addr s" by (simp add: pushed_def)
  show ?thesis
    using assms ok pop
    by (simp add: switchuvm_def get_proc_def gets_def bnd_def sq_def pushcli_eq mycpu_eq upd_cpu_def
        modify_def ltr_def lcr3_def switched_to_def load_user_def cur_cpu_def ts)
qed

lemma wpe_switchuvm:
  "cpu_ok s \<Longrightarrow> p_kstack (ptable s ! p) \<noteq> 0 \<Longrightarrow> p_pgdir (ptable s ! p) \<noteq> 0 \<Longrightarrow>
    wpe (switchuvm (Some p)) E Q s \<longleftrightarrow> Q () (switched_to (ptable s ! p) (polled s))"
  by (rule wpe_ret_eq) (rule switchuvm_eq)

section \<open>The scheduler picks the first runnable process\<close>

lemma each_skip:
  assumes "\<And>j. i \<le> j \<Longrightarrow> j < i + k \<Longrightarrow> body j s = Inr ((), s)"
  shows "each i (k + n) body s = each (i + k) n body s"
  using assms by (induction k arbitrary: i) (simp_all add: sq_def bnd_def)

definition dispatched :: "nat \<Rightarrow> 'x procst_scheme \<Rightarrow> 'x procst_scheme" where
  "dispatched i s =
     (switched_to (ptable s ! i)
       (s\<lparr>cpus := (cpus s)[the (cpu_index s) := (cur_cpu s)\<lparr>c_proc := Some i\<rparr>]\<rparr>))
       \<lparr>ptable := (ptable s)[i := (ptable s ! i)\<lparr>p_state := RUNNING\<rparr>]\<rparr>"

lemma cur_cpu_set_proc:
  fixes r :: "nat option"
  assumes "cpu_ok s"
  defines "t \<equiv> s\<lparr>cpus := (cpus s)[the (cpu_index s) := (cur_cpu s)\<lparr>c_proc := r\<rparr>]\<rparr>"
  shows "cpu_index t = cpu_index s" "cur_cpu t = (cur_cpu s)\<lparr>c_proc := r\<rparr>" "cpu_ok t"
proof -
  show i: "cpu_index t = cpu_index s"
    by (simp add: t_def cpu_index_def cur_cpu_def cpu_index_upd)
  then show c: "cur_cpu t = (cur_cpu s)\<lparr>c_proc := r\<rparr>"
    using assms(1) unfolding cur_cpu_def [of t] i by (simp add: t_def cpu_ok_def)
  show "cpu_ok t"
    using assms(1) unfolding cpu_ok_def c i by (simp add: t_def)
qed

lemma sched_slot_skips: "p_state (ptable s ! i) \<noteq> RUNNABLE \<Longrightarrow> sched_slot c i s = Inr ((), s)"
  by (simp add: sched_slot_def bnd_def get_proc_def gets_def ret_def)

lemma sched_slot_runs:
  assumes "cpu_ok s" "0 < c_ncli (cur_cpu s)" "p_state (ptable s ! i) = RUNNABLE"
    "p_kstack (ptable s ! i) \<noteq> 0" "p_pgdir (ptable s ! i) \<noteq> 0"
  shows "sched_slot (the (cpu_index s)) i s = Inl (Switched, dispatched i s)"
proof -
  let ?t = "s\<lparr>cpus := (cpus s)[the (cpu_index s) := (cur_cpu s)\<lparr>c_proc := Some i\<rparr>]\<rparr>"
  note t = cur_cpu_set_proc [OF assms(1), of "Some i"]
  have "polled ?t = ?t" using t assms(2) by (intro polled_id) simp_all
  then have "switchuvm (Some i) ?t = Inr ((), switched_to (ptable s ! i) ?t)"
    using switchuvm_eq [OF t(3), of i] assms by simp
  then show ?thesis
    using assms(3)
    by (simp add: sched_slot_def bnd_def get_proc_def gets_def sq_def upd_cpu_def modify_def
        cur_cpu_def upd_proc_def swtch_def fail_def dispatched_def)
qed

text \<open>
  A CPU in the scheduler loop: no lock held by this thread, the lock of the table free.
\<close>

definition idle :: "'x procst_scheme \<Rightarrow> bool" where
  "idle s \<longleftrightarrow> can_lock LPtable s \<and> c_ncli (cur_cpu s) = 0 \<and> length (ptable s) = NPROC"

lemma can_lock_sti: "can_lock l s \<Longrightarrow> c_ncli (cur_cpu s) = 0 \<Longrightarrow> can_lock l (s\<lparr>eflags_IF := True\<rparr>)"
  by (simp add: can_lock_def cpu_ok_def cur_cpu_def cpu_index_def)

lemma sched_round_runs:
  assumes "idle s" "first_index (\<lambda>j. p_state (ptable s ! j) = RUNNABLE) NPROC = Some i"
    "p_kstack (ptable s ! i) \<noteq> 0" "p_pgdir (ptable s ! i) \<noteq> 0"
  shows "sched_round (the (cpu_index s)) s =
    Inl (Switched, dispatched i (acquired LPtable (s\<lparr>eflags_IF := True\<rparr>)))"
proof -
  let ?s = "s\<lparr>eflags_IF := True\<rparr>" and ?c = "the (cpu_index s)"
  let ?u = "acquired LPtable ?s"
  have c: "can_lock LPtable ?s" using assms(1) by (simp add: idle_def can_lock_sti)
  have u: "cpu_ok ?u" "0 < c_ncli (cur_cpu ?u)" "cpu_index ?u = cpu_index s" "ptable ?u = ptable s"
    using in_lock_acquired [OF c] cpu_index_cong [of ?s s] by (simp_all add: in_lock_def)
  have i: "i < 64" "p_state (ptable s ! i) = RUNNABLE" "\<And>j. j < i \<Longrightarrow> p_state (ptable s ! j) \<noteq> RUNNABLE"
    using assms(2) by (auto simp: first_index_Some)
  have "each 0 (i + Suc (63 - i)) (sched_slot ?c) ?u = each i (Suc (63 - i)) (sched_slot ?c) ?u"
    using each_skip [of 0 i "sched_slot ?c" ?u "Suc (63 - i)"] i(3) u(4)
    by (simp add: sched_slot_skips)
  also have "\<dots> = Inl (Switched, dispatched i ?u)"
    using sched_slot_runs [of ?u i] u i(2) assms(3,4) by (simp add: sq_def bnd_def)
  finally have "each 0 64 (sched_slot ?c) ?u = Inl (Switched, dispatched i ?u)"
    using i(1) by simp
  then show ?thesis
    using c by (simp add: sched_round_def sti_def sq_def bnd_def modify_def acquire_eq can_lock_def)
qed

lemma sched_round_idle:
  assumes "idle s" "\<And>j. j < NPROC \<Longrightarrow> p_state (ptable s ! j) \<noteq> RUNNABLE"
  shows "sched_round c s = Inr ((), bracket LPtable (s\<lparr>eflags_IF := True\<rparr>))"
proof -
  let ?s = "s\<lparr>eflags_IF := True\<rparr>"
  have c: "can_lock LPtable ?s" using assms(1) by (simp add: idle_def can_lock_sti)
  have "each 0 (64 + 0) (sched_slot c) (acquired LPtable ?s) = Inr ((), acquired LPtable ?s)"
    using each_skip [of 0 64 "sched_slot c" "acquired LPtable ?s" 0] assms(2)
    by (simp add: sched_slot_skips ret_def)
  then show ?thesis
    using c in_lock_acquired [OF c]
    by (simp add: sched_round_def sti_def sq_def bnd_def modify_def acquire_eq can_lock_def
        release_eq in_lock_def bracket_def)
qed

section \<open>Killing a process\<close>

lemma for_loop_skip:
  assumes "\<And>j. i \<le> j \<Longrightarrow> j < i + k \<Longrightarrow> body j s = Inr (None, s)"
  shows "for_loop i (k + n) body s = for_loop (i + k) n body s"
  using assms by (induction k arbitrary: i) (simp_all add: bnd_def)

lemma for_loop_search:
  assumes "\<And>j. j < n \<Longrightarrow> \<not> P j \<Longrightarrow> body j s = Inr (None, s)"
    and "\<And>j. j < n \<Longrightarrow> P j \<Longrightarrow> body j s = Inr (Some (v j), t j)"
  shows "for_loop 0 n body s =
    (case first_index P n of None \<Rightarrow> Inr (None, s) | Some j \<Rightarrow> Inr (Some (v j), t j))"
proof (cases "first_index P n")
  case None
  then have "for_loop 0 (n + 0) body s = Inr (None, s)"
    using assms(1) by (subst for_loop_skip) (simp_all add: first_index_None ret_def)
  then show ?thesis using None by simp
next
  case (Some j)
  then have j: "j < n" "P j" "\<And>l. l < j \<Longrightarrow> \<not> P l" by (auto simp: first_index_Some)
  have "for_loop 0 (j + Suc (n - Suc j)) body s = Inr (Some (v j), t j)"
    using j assms by (subst for_loop_skip) (simp_all add: bnd_def ret_def)
  then show ?thesis using Some j(1) by simp
qed

definition shot :: "proc \<Rightarrow> proc" where
  "shot q = q\<lparr>p_killed := 1, p_state := (if p_state q = SLEEPING then RUNNABLE else p_state q)\<rparr>"

lemma kill_eq:
  assumes "can_lock LPtable s" and "length (ptable s) = NPROC"
  shows "kill pid s =
    (case first_index (\<lambda>i. p_pid (ptable s ! i) = pid) NPROC of
       None \<Rightarrow> Inr (-1, bracket LPtable s)
     | Some i \<Rightarrow> Inr (0, (bracket LPtable s)\<lparr>ptable := (ptable s)[i := shot (ptable s ! i)]\<rparr>))"
proof -
  let ?u = "acquired LPtable s"
  have i: "in_lock LPtable ?u" using assms(1) by (rule in_lock_acquired)
  have "for_loop 0 64 (\<lambda>i. bnd (get_proc i) (\<lambda>q.
       if p_pid q = pid then
         sq (upd_proc i (\<lambda>q. q\<lparr>p_killed := 1\<rparr>)) (
         sq (whenk (p_state q = SLEEPING) (upd_proc i (\<lambda>q. q\<lparr>p_state := RUNNABLE\<rparr>))) (
         sq (release LPtable)
            (ret (Some 0))))
       else ret None)) ?u =
    (case first_index (\<lambda>i. p_pid (ptable s ! i) = pid) NPROC of None \<Rightarrow> Inr (None, ?u)
     | Some i \<Rightarrow> Inr (Some (0 :: int),
        (bracket LPtable s)\<lparr>ptable := (ptable s)[i := shot (ptable s ! i)]\<rparr>))"
    using i assms(2)
    by (intro for_loop_search)
      (auto simp: bnd_def get_proc_def gets_def ret_def sq_def upd_proc_def modify_def whenk_def
        release_eq in_lock_def bracket_def shot_def)
  then show ?thesis
    using assms(1) i
    by (simp add: kill_def sq_def bnd_def acquire_eq can_lock_def release_eq in_lock_def bracket_def
        ret_def split: option.split)
qed

section \<open>Creating a process\<close>

lemma kmem_ready_bracket: "can_lock l s \<Longrightarrow> kmem_ready s \<Longrightarrow> kmem_ready (bracket l s)"
  by (auto simp: kmem_ready_def can_lock_lockview lockview_bracket cpu_ok_bracket
      can_lock_def [of LKmem s])

lemma free_pages_more [simp]:
  "free_pages (bracket l s) L = free_pages s L" "free_pages (t\<lparr>ptable := x\<rparr>) L = free_pages t L"
  "free_pages (t\<lparr>nextpid := n\<rparr>) L = free_pages t L"
  by (simp_all add: free_pages_def page_ok_def)

lemma init_pages_eq:
  assumes "p < length (ptable s)" "length (p_pages (ptable s ! p)) = SHAREDREGIONS"
  shows "init_pages p s = Inr ((), s\<lparr>ptable := (ptable s)
    [p := (ptable s ! p)\<lparr>p_pages := replicate SHAREDREGIONS blank_page\<rparr>]\<rparr>)"
proof -
  let ?q = "ptable s ! p"
  let ?st = "\<lambda>i. s\<lparr>ptable := (ptable s)
    [p := ?q\<lparr>p_pages := replicate i blank_page @ drop i (p_pages ?q)\<rparr>]\<rparr>"
  have "each i k (\<lambda>i. upd_proc p (\<lambda>q. q\<lparr>p_pages := (p_pages q)[i := blank_page]\<rparr>)) (?st i)
      = Inr ((), ?st 64)" if "i + k = 64" for i k
    using that
  proof (induction k arbitrary: i)
    case 0
    then show ?case by (simp add: ret_def)
  next
    case (Suc k)
    have "(replicate i blank_page @ drop i (p_pages ?q))[i := blank_page]
        = replicate (Suc i) blank_page @ drop (Suc i) (p_pages ?q)"
      using Suc.prems assms(2)
      by (simp add: list_update_append Cons_nth_drop_Suc [symmetric] replicate_append_same [symmetric])
    then show ?case
      using Suc.IH [of "Suc i"] Suc.prems assms(1)
      by (simp add: sq_def bnd_def upd_proc_def modify_def)
  qed
  from this [of 0 64] show ?thesis using assms by (simp add: init_pages_def)
qed

text \<open>
  The new process: its kernel stack page \<open>v\<close> holds, from the top, the trap frame, the return address
  \<open>trapret\<close> and a context that starts at \<open>forkret\<close>.
\<close>

definition newproc :: "int \<Rightarrow> u32 \<Rightarrow> proc \<Rightarrow> proc" where
  "newproc pid v q =
     q\<lparr>p_state := EMBRYO, p_pid := pid, p_kstack := v, p_tf := v + 4020, p_context := v + 3996,
       p_pages := replicate SHAREDREGIONS blank_page\<rparr>"

definition newstack :: "'x procst_scheme \<Rightarrow> bytes \<Rightarrow> u32 \<Rightarrow> bytes" where
  "newstack s m v =
     store32 (memset (store32 m (v + 4016) (trapret_addr s)) (v + 3996) 0 20) (v + 4012)
       (forkret_addr s)"

definition embryo :: "nat \<Rightarrow> 'x procst_scheme \<Rightarrow> 'x procst_scheme" where
  "embryo p s = (bracket LPtable s)
     \<lparr>ptable := (ptable s)[p := (ptable s ! p)\<lparr>p_state := EMBRYO, p_pid := nextpid s\<rparr>],
      nextpid := nextpid s + 1\<rparr>"

definition procs_sized :: "'x procst_scheme \<Rightarrow> bool" where
  "procs_sized s \<longleftrightarrow> length (ptable s) = NPROC \<and>
     (\<forall>q \<in> set (ptable s). length (p_ofile q) = NOFILE \<and> length (p_pages q) = SHAREDREGIONS
        \<and> length (p_name q) = 16)"

definition can_alloc :: "'x procst_scheme \<Rightarrow> u32 list \<Rightarrow> bool" where
  "can_alloc s L \<longleftrightarrow> can_lock LPtable s \<and> kmem_ready s \<and> free_pages s L \<and> procs_sized s"

lemma proc_klock [simp]:
  "ptable (klock s) = ptable s" "nextpid (klock s) = nextpid s" "initproc (klock s) = initproc s"
  "trapret_addr (klock s) = trapret_addr s" "forkret_addr (klock s) = forkret_addr s"
  by (simp_all add: klock_def bracket_def released_def popped_def acquired_def pushed_def)

lemma symbols_bracket [simp]:
  "trapret_addr (bracket l s) = trapret_addr s" "forkret_addr (bracket l s) = forkret_addr s"
  by (simp_all add: bracket_def released_def popped_def acquired_def pushed_def)

lemma allocproc_found:
  assumes "can_alloc s L" "first_index (\<lambda>i. p_state (ptable s ! i) = UNUSED) NPROC = Some p"
  shows "allocproc s =
    (case L of
       [] \<Rightarrow> Inr (None, (kalloc_state [] (embryo p s))\<lparr>ptable := (ptable s)
         [p := (ptable s ! p)\<lparr>p_pid := nextpid s, p_kstack := 0, p_state := UNUSED\<rparr>]\<rparr>)
     | v # _ \<Rightarrow> Inr (Some p, (kalloc_state L (embryo p s))
         \<lparr>mem := newstack s (mem s) v,
          ptable := (ptable s)[p := newproc (nextpid s) v (ptable s ! p)]\<rparr>))"
proof -
  let ?a = "acquired LPtable s" and ?q = "ptable s ! p"
  have c: "can_lock LPtable s" "kmem_ready s" "free_pages s L" "procs_sized s"
    using assms(1) by (simp_all add: can_alloc_def)
  have a: "in_lock LPtable ?a" using c(1) by (rule in_lock_acquired)
  have p: "p < length (ptable s)" "length (p_pages ?q) = 64"
    using assms(2) c(4) by (auto simp: first_index_Some procs_sized_def)
  have rel: "release LPtable (?a\<lparr>ptable := (ptable s)[p := ?q\<lparr>p_state := EMBRYO, p_pid := nextpid s\<rparr>],
      nextpid := nextpid s + 1\<rparr>) = Inr ((), embryo p s)"
    using a by (simp add: release_eq in_lock_def embryo_def bracket_def)
  have e: "kmem_ready (embryo p s)" "free_pages (embryo p s) L"
    using c by (simp_all add: embryo_def kmem_ready_bracket)
  note alloc = kalloc_pages [OF e]
  have lock: "acquire LPtable s = Inr ((), ?a)"
    using c(1) by (simp add: acquire_eq can_lock_def)
  have pre: "allocproc s = bnd kalloc (\<lambda>kstack.
         sq (upd_proc p (\<lambda>q. q\<lparr>p_kstack := kstack\<rparr>)) (
         if kstack = 0 then sq (upd_proc p (\<lambda>q. q\<lparr>p_state := UNUSED\<rparr>)) (ret None)
         else
           let tf = kstack + KSTACKSIZE - trapframe_size; ra = tf - 4; ctx = ra - context_size in
           bnd (gets trapret_addr) (\<lambda>trapret.
           bnd (gets forkret_addr) (\<lambda>forkret.
           sq (upd_proc p (\<lambda>q. q\<lparr>p_tf := tf\<rparr>)) (
           sq (wr32 ra trapret) (
           sq (upd_proc p (\<lambda>q. q\<lparr>p_context := ctx\<rparr>)) (
           sq (kmemset ctx 0 context_size) (
           sq (wr32 (ctx + 16) forkret) (
           sq (init_pages p)
              (ret (Some p))))))))))) (embryo p s)"
    using lock assms(2) rel
    by (simp add: allocproc_def sq_def bnd_def [of "acquire LPtable"] bnd_def [of "gets f" for f] gets_def
        upd_proc_def bnd_def [of "modify f" for f] modify_def bnd_def [of "release LPtable"])
  show ?thesis
  proof (cases L)
    case Nil
    then show ?thesis
      unfolding pre using alloc p
      by (simp add: bnd_def sq_def head0_def upd_proc_def modify_def ret_def kalloc_state_def embryo_def)
  next
    case (Cons v L')
    then have v: "v \<noteq> 0" using c(3) by (auto simp: free_pages_def page_ok_def)
    show ?thesis
      unfolding pre using alloc p v Cons
      by (simp add: bnd_def sq_def head0_def upd_proc_def modify_def ret_def kalloc_state_def embryo_def
          gets_def wr32_def kmemset_def trapframe_size_def context_size_def init_pages_eq newproc_def Let_def
          add.commute [of _ v]
          newstack_def)
  qed
qed

lemma allocproc_full:
  assumes "can_alloc s L" "first_index (\<lambda>i. p_state (ptable s ! i) = UNUSED) NPROC = None"
  shows "allocproc s = Inr (None, bracket LPtable s)"
proof -
  have c: "can_lock LPtable s" using assms(1) by (simp add: can_alloc_def)
  then show ?thesis
    using in_lock_acquired [OF c] assms(2)
    by (simp add: allocproc_def sq_def bnd_def acquire_eq can_lock_def gets_def release_eq in_lock_def
        ret_def bracket_def)
qed

section \<open>What the memory operations leave alone\<close>

text \<open>
  Whatever they return and wherever they fault, locking and the memory management of the previous
  theories keep the part of the state that extends \<open>kmemst\<close>, and so the process table.
\<close>

lemma keeps_machine [kp]:
  "keeps kmemst.more mycpu" "keeps kmemst.more (upd_cpu i f)" "keeps kmemst.more (upd_lock l g)"
  "keeps kmemst.more (rd32 a)" "keeps kmemst.more (wr32 a v)" "keeps kmemst.more (kmemset a c n)"
  "keeps kmemst.more (kmemmove a b n)" "keeps kmemst.more (panic msg)"
  "keeps kmemst.more (cprintf fm)" "keeps kmemst.more (cprintfa fm args)"
  "keeps kmemst.more cli" "keeps kmemst.more sti" "keeps kmemst.more (lcr3 v)" "keeps kmemst.more (ltr w)"
  unfolding mycpu_def upd_cpu_def upd_lock_def rd32_def wr32_def kmemset_def kmemmove_def panic_def
    cprintf_def cprintfa_def cli_def sti_def lcr3_def ltr_def
  by (intro kp; simp)+

lemma keeps_locking [kp]:
  "keeps kmemst.more pushcli" "keeps kmemst.more popcli" "keeps kmemst.more (holding l)"
  "keeps kmemst.more (acquire l)" "keeps kmemst.more (release l)" "keeps kmemst.more myproc"
  "keeps kmemst.more (initlock l nm)"
proof -
  show push: "keeps kmemst.more (pushcli :: ('x kmemst_scheme, unit) kmon)"
    unfolding pushcli_def by (intro kp)
  show pop: "keeps kmemst.more (popcli :: ('x kmemst_scheme, unit) kmon)"
    unfolding popcli_def by (intro kp)
  show hold: "keeps kmemst.more (holding l :: ('x kmemst_scheme, bool) kmon)"
    unfolding holding_def by (intro kp push pop)
  show "keeps kmemst.more (acquire l :: ('x kmemst_scheme, unit) kmon)"
    unfolding acquire_def by (intro kp push hold) simp
  show "keeps kmemst.more (release l :: ('x kmemst_scheme, unit) kmon)"
    unfolding release_def by (intro kp pop hold)
  show "keeps kmemst.more (myproc :: ('x kmemst_scheme, nat option) kmon)"
    unfolding myproc_def by (intro kp push pop)
  show "keeps kmemst.more (initlock l nm :: ('x kmemst_scheme, unit) kmon)"
    unfolding initlock_def by (intro kp)
qed

lemma keeps_nonnull [kp]: "keeps f (nonnull w p)"
  unfolding nonnull_def by (intro kp)

lemma keeps_pages [kp]:
  "keeps kmemst.more kalloc" "keeps kmemst.more (kfree v)" "keeps kmemst.more (walkpgdir d a b)"
  "keeps kmemst.more curproc"
  unfolding kalloc_def kfree_def kmem_lock_def kmem_unlock_def walkpgdir_def curproc_def
  by (intro kp; simp)+

text \<open>The loops of vm.c.\<close>

lemma keeps_mappages [kp]: "keeps kmemst.more (mappages d va sz pa perm :: ('x kmemst_scheme, int) kmon)"
proof -
  have "keeps kmemst.more (mappages_loop k d a lst pa perm :: ('x kmemst_scheme, int) kmon)" for k a lst pa
  proof (induction k arbitrary: a pa)
    case (Suc k)
    show ?case unfolding mappages_loop.simps by (intro kp Suc.IH)
  qed (simp add: kp)
  then show ?thesis unfolding mappages_def by simp
qed

lemma keeps_deallocuvm [kp]: "keeps kmemst.more (deallocuvm d a b :: ('x kmemst_scheme, u32) kmon)"
proof -
  have "keeps kmemst.more (deallocuvm_loop k d a old :: ('x kmemst_scheme, unit) kmon)" for k a old
  proof (induction k arbitrary: a)
    case (Suc k)
    show ?case unfolding deallocuvm_loop.simps by (intro kp Suc.IH)
  qed (simp add: kp)
  then show ?thesis unfolding deallocuvm_def by (intro kp)
qed

lemma keeps_freevm [kp]: "keeps kmemst.more (freevm d)"
  unfolding freevm_def by (intro kp)

lemma keeps_allocuvm [kp]: "keeps kmemst.more (allocuvm d a b :: ('x kmemst_scheme, u32) kmon)"
proof -
  have "keeps kmemst.more (allocuvm_loop k d a old new :: ('x kmemst_scheme, u32) kmon)" for k a old new
  proof (induction k arbitrary: a)
    case (Suc k)
    show ?case unfolding allocuvm_loop.simps by (intro kp Suc.IH)
  qed (simp add: kp)
  then show ?thesis unfolding allocuvm_def by (intro kp)
qed

lemma keeps_setupkvm [kp]: "keeps kmemst.more (setupkvm :: ('x kmemst_scheme, u32) kmon)"
proof -
  have "keeps kmemst.more (setupkvm_loop d ks :: ('x kmemst_scheme, u32) kmon)" for d ks
  proof (induction ks)
    case (Cons k ks)
    show ?case unfolding setupkvm_loop.simps by (intro kp Cons.IH)
  qed (simp add: kp)
  then show ?thesis unfolding setupkvm_def by (intro kp)
qed

lemma keeps_copyuvm [kp]: "keeps kmemst.more (copyuvm d a :: ('x kmemst_scheme, u32) kmon)"
proof -
  have "keeps kmemst.more (copyuvm_loop k d d' sz a :: ('x kmemst_scheme, u32) kmon)" for k d' a sz
  proof (induction k arbitrary: a)
    case (Suc k)
    show ?case unfolding copyuvm_loop.simps by (intro kp Suc.IH)
  qed (simp add: kp)
  then show ?thesis unfolding copyuvm_def by (intro kp)
qed

lemma keeps_user [kp]:
  "keeps kmemst.more (inituvm d a n)" "keeps kmemst.more (clearpteu d a)"
  "keeps kmemst.more (uva2ka d a)"
  unfolding inituvm_def clearpteu_def uva2ka_def by (intro kp)+

section \<open>The process table invariant\<close>

text \<open>
  The arrays inside the table have their declared sizes, the process identifiers of the slots in use
  are positive, below \<open>nextpid\<close> and pairwise distinct.
\<close>

definition pids_ok :: "proc list \<Rightarrow> int \<Rightarrow> bool" where
  "pids_ok pt n \<longleftrightarrow> 0 < n
     \<and> (\<forall>i < length pt. p_state (pt ! i) \<noteq> UNUSED \<longrightarrow> 0 < p_pid (pt ! i) \<and> p_pid (pt ! i) < n)
     \<and> (\<forall>i < length pt. \<forall>j < length pt. p_state (pt ! i) \<noteq> UNUSED \<and> p_state (pt ! j) \<noteq> UNUSED
          \<and> p_pid (pt ! i) = p_pid (pt ! j) \<longrightarrow> i = j)"

definition proc_inv :: "'x procst_scheme \<Rightarrow> bool" where
  "proc_inv s \<longleftrightarrow> procs_sized s \<and> pids_ok (ptable s) (nextpid s)"

text \<open>Updates of one slot that keep the sizes, and keep the identifier of a slot in use.\<close>

definition same_shape :: "proc \<Rightarrow> proc \<Rightarrow> bool" where
  "same_shape q q' \<longleftrightarrow> length (p_ofile q') = length (p_ofile q)
     \<and> length (p_pages q') = length (p_pages q) \<and> length (p_name q') = length (p_name q)"

lemma nth_upd: "j < length xs \<Longrightarrow> xs[i := x] ! j = (if j = i then x else xs ! j)"
  by (cases "i = j") auto

lemma pids_okD:
  assumes "pids_ok pt n"
  shows "0 < n"
    and "i < length pt \<Longrightarrow> p_state (pt ! i) \<noteq> UNUSED \<Longrightarrow> 0 < p_pid (pt ! i) \<and> p_pid (pt ! i) < n"
    and "i < length pt \<Longrightarrow> j < length pt \<Longrightarrow> p_state (pt ! i) \<noteq> UNUSED \<Longrightarrow> p_state (pt ! j) \<noteq> UNUSED
      \<Longrightarrow> p_pid (pt ! i) = p_pid (pt ! j) \<Longrightarrow> i = j"
  using assms unfolding pids_ok_def by blast+

lemma pids_ok_upd:
  assumes ok: "pids_ok pt n"
    and q: "p_state q \<noteq> UNUSED \<Longrightarrow> p_state (pt ! i) \<noteq> UNUSED \<and> p_pid q = p_pid (pt ! i)"
  shows "pids_ok (pt[i := q]) n"
proof -
  have live: "p_state (pt ! j) \<noteq> UNUSED \<and> p_pid (pt[i := q] ! j) = p_pid (pt ! j)"
    if "j < length pt" "p_state (pt[i := q] ! j) \<noteq> UNUSED" for j
    using that q by (cases "j = i") (simp_all add: nth_upd)
  show ?thesis
    unfolding pids_ok_def length_list_update
  proof (intro conjI allI impI)
    show "0 < n" using ok by (rule pids_okD)
    fix j assume j: "j < length pt" "p_state (pt[i := q] ! j) \<noteq> UNUSED"
    show "0 < p_pid (pt[i := q] ! j)" "p_pid (pt[i := q] ! j) < n"
      using live [OF j] pids_okD(2) [OF ok j(1)] by simp_all
  next
    fix j k assume jk: "j < length pt" "k < length pt" "p_state (pt[i := q] ! j) \<noteq> UNUSED \<and>
      p_state (pt[i := q] ! k) \<noteq> UNUSED \<and> p_pid (pt[i := q] ! j) = p_pid (pt[i := q] ! k)"
    note lj = live [OF jk(1) conjunct1 [OF jk(3)]]
      and lk = live [OF jk(2) conjunct1 [OF conjunct2 [OF jk(3)]]]
    show "j = k"
      by (rule pids_okD(3) [OF ok jk(1,2)]) (use lj lk jk(3) in simp_all)
  qed
qed

lemma pids_ok_new:
  assumes ok: "pids_ok pt n" and q: "p_pid q = n"
  shows "pids_ok (pt[i := q]) (n + 1)"
proof -
  have pid: "j = i \<and> p_pid (pt[i := q] ! j) = n \<or>
      j \<noteq> i \<and> p_pid (pt[i := q] ! j) = p_pid (pt ! j) \<and> p_state (pt ! j) \<noteq> UNUSED
        \<and> 0 < p_pid (pt ! j) \<and> p_pid (pt ! j) < n"
    if "j < length pt" "p_state (pt[i := q] ! j) \<noteq> UNUSED" for j
    using that q pids_okD(2) [OF ok that(1)] by (cases "j = i") (simp_all add: nth_upd)
  show ?thesis
    unfolding pids_ok_def length_list_update
  proof (intro conjI allI impI)
    show "0 < n + 1" using pids_okD(1) [OF ok] by simp
    fix j assume j: "j < length pt" "p_state (pt[i := q] ! j) \<noteq> UNUSED"
    show "0 < p_pid (pt[i := q] ! j)" "p_pid (pt[i := q] ! j) < n + 1"
      using pid [OF j] pids_okD(1) [OF ok] by auto
  next
    fix j k assume jk: "j < length pt" "k < length pt" "p_state (pt[i := q] ! j) \<noteq> UNUSED \<and>
      p_state (pt[i := q] ! k) \<noteq> UNUSED \<and> p_pid (pt[i := q] ! j) = p_pid (pt[i := q] ! k)"
    note pj = pid [OF jk(1) conjunct1 [OF jk(3)]]
      and pk = pid [OF jk(2) conjunct1 [OF conjunct2 [OF jk(3)]]]
    show "j = k"
    proof (rule ccontr)
      assume "j \<noteq> k"
      then have "j \<noteq> i" "k \<noteq> i" using pj pk jk(3) by auto
      then have "j = k" using pj pk jk by (intro pids_okD(3) [OF ok jk(1,2)]) simp_all
      then show False using \<open>j \<noteq> k\<close> by simp
    qed
  qed
qed

lemma procs_sized_upd:
  assumes "procs_sized s" "i < NPROC \<Longrightarrow> same_shape (ptable s ! i) q"
  shows "procs_sized (s\<lparr>ptable := (ptable s)[i := q]\<rparr>)"
proof (cases "i < 64")
  case True
  then have "ptable s ! i \<in> set (ptable s)" using assms(1) by (simp add: procs_sized_def)
  then show ?thesis
    using assms True unfolding procs_sized_def same_shape_def
    by (auto dest!: set_update_subset_insert [THEN subsetD])
qed (use assms(1) in \<open>simp add: procs_sized_def list_update_beyond\<close>)

lemma proc_inv_upd:
  assumes "proc_inv s" "same_shape (ptable s ! i) q"
    "p_state q \<noteq> UNUSED \<Longrightarrow> p_state (ptable s ! i) \<noteq> UNUSED \<and> p_pid q = p_pid (ptable s ! i)"
  shows "proc_inv (s\<lparr>ptable := (ptable s)[i := q]\<rparr>)"
  using assms by (simp add: proc_inv_def pids_ok_upd procs_sized_upd)

lemma more_procs:
  fixes s s' :: "'x procst_scheme"
  assumes "kmemst.more s' = kmemst.more s"
  shows "ptable s' = ptable s" "initproc s' = initproc s" "nextpid s' = nextpid s"
  using assms by (cases s; cases s'; simp)+

lemma keeps_proc_view:
  fixes m :: "('x procst_scheme, 'a) kmon"
  assumes "keeps kmemst.more m"
  shows "keeps (\<lambda>s. (ptable s, initproc s, nextpid s)) m"
  unfolding keeps_def
proof
  fix s
  have eq: "(ptable s', initproc s', nextpid s') = (ptable s, initproc s, nextpid s)"
    if "kmemst.more s' = kmemst.more s" for s' :: "'x procst_scheme"
    using more_procs [OF that] by simp
  show "wpe m (\<lambda>_ s'. (ptable s', initproc s', nextpid s') = (ptable s, initproc s, nextpid s))
      (\<lambda>_ s'. (ptable s', initproc s', nextpid s') = (ptable s, initproc s, nextpid s)) s"
    by (rule wpe_mono [OF assms [unfolded keeps_def, rule_format]]) (erule eq)+
qed

lemma wpe_kept:
  assumes "keeps f m" "\<And>e s'. f s' = f s \<Longrightarrow> E e s'" "\<And>x s'. f s' = f s \<Longrightarrow> Q x s'"
  shows "wpe m E Q s"
  by (rule wpe_mono [OF assms(1) [unfolded keeps_def, rule_format]]) (erule assms(2,3))+

lemma proc_inv_cong:
  "ptable s' = ptable s \<Longrightarrow> nextpid s' = nextpid s \<Longrightarrow> proc_inv s' = proc_inv s"
  by (simp add: proc_inv_def procs_sized_def)

lemma stable_proc_keeps:
  fixes m :: "('x procst_scheme, 'a) kmon"
  assumes "keeps kmemst.more m"
  shows "stable (\<lambda>_. proc_inv) proc_inv m"
  unfolding stable_def
proof (intro allI impI)
  fix s :: "'x procst_scheme"
  assume "proc_inv s"
  then have inv: "proc_inv s'"
    if "(ptable s', initproc s', nextpid s') = (ptable s, initproc s, nextpid s)" for s' :: "'x procst_scheme"
    using that proc_inv_cong [of s' s] by simp
  show "wpe m (\<lambda>_. proc_inv) (\<lambda>_. proc_inv) s"
    by (rule wpe_kept [OF keeps_proc_view [OF assms]]) (erule inv)+
qed

lemmas stable_proc_ops [st] =
  keeps_machine [THEN stable_proc_keeps] keeps_locking [THEN stable_proc_keeps]
  keeps_pages [THEN stable_proc_keeps] keeps_mappages [THEN stable_proc_keeps]
  keeps_deallocuvm [THEN stable_proc_keeps] keeps_allocuvm [THEN stable_proc_keeps]
  keeps_freevm [THEN stable_proc_keeps] keeps_setupkvm [THEN stable_proc_keeps]
  keeps_copyuvm [THEN stable_proc_keeps] keeps_user [THEN stable_proc_keeps]

lemma stable_upd_proc [st]:
  assumes "\<And>q. same_shape q (f q)"
    "\<And>q. p_state (f q) \<noteq> UNUSED \<Longrightarrow> p_state q \<noteq> UNUSED \<and> p_pid (f q) = p_pid q"
  shows "stable (\<lambda>_. proc_inv) proc_inv (upd_proc i f)"
  unfolding stable_def using assms by (auto simp: wp intro!: proc_inv_upd)

lemma same_shape_simps [simp]:
  "same_shape q (q'\<lparr>p_state := a\<rparr>) = same_shape q q'" "same_shape q (q'\<lparr>p_pid := b\<rparr>) = same_shape q q'"
  "same_shape q (q'\<lparr>p_kstack := c\<rparr>) = same_shape q q'" "same_shape q (q'\<lparr>p_tf := c\<rparr>) = same_shape q q'"
  "same_shape q (q'\<lparr>p_context := c\<rparr>) = same_shape q q'" "same_shape q (q'\<lparr>p_chan := d\<rparr>) = same_shape q q'"
  "same_shape q (q'\<lparr>p_killed := b\<rparr>) = same_shape q q'" "same_shape q (q'\<lparr>p_sz := c\<rparr>) = same_shape q q'"
  "same_shape q (q'\<lparr>p_pgdir := c\<rparr>) = same_shape q q'" "same_shape q (q'\<lparr>p_parent := e\<rparr>) = same_shape q q'"
  "same_shape q (q'\<lparr>p_cwd := e\<rparr>) = same_shape q q'" "same_shape q q"
  by (simp_all add: same_shape_def)

lemma stable_get_proc [st]: "stable E I (get_proc i)"
  unfolding get_proc_def by (rule st)

lemma stable_wakeup1 [st]: "stable (\<lambda>_. proc_inv) proc_inv (wakeup1 ch)"
  unfolding wakeup1_def
  by (rule stable_each) (auto simp: stable_def wp intro!: proc_inv_upd)

lemma stable_wakeup [st]: "stable (\<lambda>_. proc_inv) proc_inv (wakeup ch)"
  unfolding wakeup_def by (intro st)

lemma stable_kill [st]:
  "stable (\<lambda>_. proc_inv) proc_inv (kill pid :: ('x procst_scheme, int) kmon)"
proof -
  let ?tail = "sq (release LPtable) (ret (Some 0)) :: ('x procst_scheme, int option) kmon"
  have tail: "stable (\<lambda>_. proc_inv) proc_inv ?tail" by (intro st)
  have body: "stable (\<lambda>_. proc_inv) proc_inv (bnd (get_proc i) (\<lambda>q.
       if p_pid q = pid then
         sq (upd_proc i (\<lambda>q. q\<lparr>p_killed := 1\<rparr>)) (
         sq (whenk (p_state q = SLEEPING) (upd_proc i (\<lambda>q. q\<lparr>p_state := RUNNABLE\<rparr>))) ?tail)
       else ret None))" for i
    unfolding stable_def
  proof (intro allI impI)
    fix s :: "'x procst_scheme"
    assume s: "proc_inv s"
    let ?s1 = "s\<lparr>ptable := (ptable s)[i := (ptable s ! i)\<lparr>p_killed := 1\<rparr>]\<rparr>"
    have k: "proc_inv ?s1" using s by (auto intro!: proc_inv_upd)
    have k': "proc_inv (?s1\<lparr>ptable := (ptable ?s1)[i := (ptable ?s1 ! i)\<lparr>p_state := RUNNABLE\<rparr>]\<rparr>)"
      if "p_state (ptable s ! i) = SLEEPING"
    proof (rule proc_inv_upd [OF k])
      show "p_state (ptable ?s1 ! i) \<noteq> UNUSED \<and>
          p_pid ((ptable ?s1 ! i)\<lparr>p_state := RUNNABLE\<rparr>) = p_pid (ptable ?s1 ! i)"
        using that by (cases "i < length (ptable s)") (simp_all add: list_update_beyond)
    qed simp
    show "wpe (bnd (get_proc i) (\<lambda>q.
       if p_pid q = pid then
         sq (upd_proc i (\<lambda>q. q\<lparr>p_killed := 1\<rparr>)) (
         sq (whenk (p_state q = SLEEPING) (upd_proc i (\<lambda>q. q\<lparr>p_state := RUNNABLE\<rparr>))) ?tail)
       else ret None)) (\<lambda>_. proc_inv) (\<lambda>_. proc_inv) s"
      unfolding wpe_bnd wpe_procs wpe_if wpe_sq [of _ "sq x y" for x y] wpe_whenk wpe_ret
      using s k k' tail [unfolded stable_def] by presburger
  qed
  show ?thesis unfolding kill_def by (intro body st)
qed

lemma stable_init_pages [st]: "stable (\<lambda>_. proc_inv) proc_inv (init_pages p)"
  unfolding init_pages_def by (intro st) (simp_all add: same_shape_def)

lemma wpe_stable:
  "stable E I m \<Longrightarrow> I s \<Longrightarrow> wpe m E (\<lambda>_. I) s"
  by (simp add: stable_def)

lemma stable_allocproc [st]:
  "stable (\<lambda>_. proc_inv) proc_inv (allocproc :: ('x procst_scheme, nat option) kmon)"
proof -
  let ?I = "\<lambda>_ :: fault. proc_inv :: 'x procst_scheme \<Rightarrow> bool"
  have start: "stable ?I proc_inv (bnd (gets nextpid) (\<lambda>pid.
         sq (upd_proc p (\<lambda>q. q\<lparr>p_state := EMBRYO, p_pid := pid\<rparr>)) (
         sq (modify (\<lambda>s. s\<lparr>nextpid := pid + 1\<rparr>)) rest)))"
    if "stable ?I proc_inv rest" for p and rest :: "('x procst_scheme, nat option) kmon"
    unfolding stable_def
  proof (intro allI impI)
    fix s :: "'x procst_scheme"
    assume s: "proc_inv s"
    let ?s = "s\<lparr>ptable := (ptable s)[p := (ptable s ! p)\<lparr>p_state := EMBRYO, p_pid := nextpid s\<rparr>],
      nextpid := nextpid s + 1\<rparr>"
    have "procs_sized ?s"
      using s procs_sized_upd [of s p "(ptable s ! p)\<lparr>p_state := EMBRYO, p_pid := nextpid s\<rparr>"]
      by (simp add: proc_inv_def procs_sized_def)
    moreover have "pids_ok (ptable ?s) (nextpid ?s)"
      using s pids_ok_new [of "ptable s" "nextpid s"] by (simp add: proc_inv_def)
    ultimately have "proc_inv ?s" by (simp only: proc_inv_def)
    then show "wpe (bnd (gets nextpid) (\<lambda>pid.
         sq (upd_proc p (\<lambda>q. q\<lparr>p_state := EMBRYO, p_pid := pid\<rparr>)) (
         sq (modify (\<lambda>s. s\<lparr>nextpid := pid + 1\<rparr>)) rest))) ?I (\<lambda>_. proc_inv) s"
      using wpe_stable [OF that, of ?s] by (simp only: wp)
  qed
  show ?thesis
    unfolding allocproc_def by (intro start st) simp_all
qed

end
