(* ===== verification/Umem.thy ===== *)
theory Umem
  imports Proc
begin

text \<open>
  Memory accesses of the kernel at virtual addresses. An address from \<open>KERNBASE\<close> up is kernel memory
  and is the same in every page table; a lower one is a user address, which the processor translates
  through the page directory that \<open>cr3\<close> points to. An access that has no translation, or a write
  to a page without write permission (\<open>CR0_WP\<close> is set), raises a page fault.
\<close>

section \<open>Translation\<close>

definition translate :: "'x machine_scheme \<Rightarrow> bool \<Rightarrow> u32 \<Rightarrow> u32 option" where
  "translate s wr va =
     (if KERNBASE \<le> va then Some va
      else
        let e = load32 (mem s) (P2V (PTE_ADDR (cr3 s)) + 4 * PDX va) in
        if e AND PTE_P = 0 \<or> (wr \<and> e AND PTE_W = 0) then None
        else
          let p = load32 (mem s) (P2V (PTE_ADDR e) + 4 * PTX va) in
          if p AND PTE_P = 0 \<or> (wr \<and> p AND PTE_W = 0) then None
          else Some (P2V (PTE_ADDR p) + (va AND 0xFFF)))"

section \<open>Loads and stores\<close>

definition vld8 :: "u32 \<Rightarrow> ('x machine_scheme, u8) kmon" where
  "vld8 va =
     bnd (gets (\<lambda>s. translate s False va)) (\<lambda>a.
     case a of None \<Rightarrow> fail (PageFault va) | Some ka \<Rightarrow> gets (\<lambda>s. mem s ka))"

definition vst8 :: "u32 \<Rightarrow> u8 \<Rightarrow> ('x machine_scheme, unit) kmon" where
  "vst8 va b =
     bnd (gets (\<lambda>s. translate s True va)) (\<lambda>a.
     case a of None \<Rightarrow> fail (PageFault va) | Some ka \<Rightarrow> modify (\<lambda>s. s\<lparr>mem := (mem s)(ka := b)\<rparr>))"

text \<open>The \<open>n\<close> bytes from \<open>va\<close> upwards, and a run of bytes stored there.\<close>

primrec vload :: "u32 \<Rightarrow> nat \<Rightarrow> ('x machine_scheme, u8 list) kmon" where
  "vload va 0 = ret []"
| "vload va (Suc n) = bnd (vld8 va) (\<lambda>b. bnd (vload (va + 1) n) (\<lambda>bs. ret (b # bs)))"

primrec vstore :: "u32 \<Rightarrow> u8 list \<Rightarrow> ('x machine_scheme, unit) kmon" where
  "vstore va [] = ret ()"
| "vstore va (b # bs) = sq (vst8 va b) (vstore (va + 1) bs)"

section \<open>Integers in byte arrays\<close>

text \<open>32-bit and 16-bit integers in an array of bytes, low byte first.\<close>

definition get32 :: "u8 list \<Rightarrow> nat \<Rightarrow> u32" where
  "get32 xs i = ucast (xs ! i) OR push_bit 8 (ucast (xs ! (i + 1)))
     OR push_bit 16 (ucast (xs ! (i + 2))) OR push_bit 24 (ucast (xs ! (i + 3)))"

definition put32 :: "u8 list \<Rightarrow> nat \<Rightarrow> u32 \<Rightarrow> u8 list" where
  "put32 xs i v = xs[i := ucast v, i + 1 := ucast (drop_bit 8 v),
     i + 2 := ucast (drop_bit 16 v), i + 3 := ucast (drop_bit 24 v)]"

definition get16 :: "u8 list \<Rightarrow> nat \<Rightarrow> u16" where
  "get16 xs i = ucast (xs ! i) OR push_bit 8 (ucast (xs ! (i + 1)))"

definition put16 :: "u8 list \<Rightarrow> nat \<Rightarrow> u16 \<Rightarrow> u8 list" where
  "put16 xs i v = xs[i := ucast v, i + 1 := ucast (drop_bit 8 v)]"

definition bytes_of :: "u32 \<Rightarrow> u8 list" where
  "bytes_of w = put32 [0, 0, 0, 0] 0 w"

definition vld32 :: "u32 \<Rightarrow> ('x machine_scheme, u32) kmon" where
  "vld32 va = bnd (vload va 4) (\<lambda>bs. ret (get32 bs 0))"

definition vst32 :: "u32 \<Rightarrow> u32 \<Rightarrow> ('x machine_scheme, unit) kmon" where
  "vst32 va w = vstore va (bytes_of w)"

lemma length_put [simp]: "length (put32 xs i v) = length xs" "length (put16 xs i w) = length xs"
  by (simp_all add: put32_def put16_def)

lemma get32_put32_same: "i + 3 < length xs \<Longrightarrow> get32 (put32 xs i v) i = v"
  using join_bytes [of v] by (simp add: get32_def put32_def)

lemma get32_put32_other: "i + 3 < j \<or> j + 3 < i \<Longrightarrow> get32 (put32 xs i v) j = get32 xs j"
  by (auto simp: get32_def put32_def)

lemma get16_put16_same:
  assumes "i + 1 < length xs"
  shows "get16 (put16 xs i v) i = v"
proof -
  have "ucast (ucast v :: u8) OR push_bit 8 (ucast (ucast (drop_bit 8 v) :: u8)) = v"
  proof (rule bit_word_eqI)
    fix n
    assume "n < LENGTH(16)"
    then show "bit (ucast (ucast v :: u8) OR push_bit 8 (ucast (ucast (drop_bit 8 v) :: u8)) :: u16) n = bit v n"
      by (cases "n < 8") (auto simp: bit_or_iff bit_push_bit_iff bit_unsigned_iff bit_drop_bit_eq)
  qed
  then show ?thesis using assms by (simp add: get16_def put16_def)
qed

lemma get16_put16_other: "i + 1 < j \<or> j + 1 < i \<Longrightarrow> get16 (put16 xs i v) j = get16 xs j"
  by (auto simp: get16_def put16_def)

section \<open>What an access changes\<close>

lemma keeps_access [kp]:
  "keeps kmemst.more (vld8 a)" "keeps kmemst.more (vst8 a b)" "keeps kmemst.more (vload a n)"
  "keeps kmemst.more (vstore a bs)" "keeps kmemst.more (vld32 a)" "keeps kmemst.more (vst32 a v)"
proof -
  show ld: "keeps kmemst.more (vld8 a :: ('x kmemst_scheme, u8) kmon)" for a
    unfolding vld8_def by (intro kp)
  show st: "keeps kmemst.more (vst8 a b :: ('x kmemst_scheme, unit) kmon)" for a b
    unfolding vst8_def by (intro kp) simp
  show "keeps kmemst.more (vload a n :: ('x kmemst_scheme, u8 list) kmon)" for a n
  proof (induction n arbitrary: a)
    case (Suc n)
    show ?case unfolding vload.simps by (intro kp ld Suc.IH)
  qed (simp add: kp)
  then show "keeps kmemst.more (vld32 a :: ('x kmemst_scheme, u32) kmon)"
    unfolding vld32_def by (intro kp)
  show "keeps kmemst.more (vstore a bs :: ('x kmemst_scheme, unit) kmon)" for a bs
  proof (induction bs arbitrary: a)
    case (Cons b bs)
    show ?case unfolding vstore.simps by (intro kp st Cons.IH)
  qed (simp add: kp)
  then show "keeps kmemst.more (vst32 a v :: ('x kmemst_scheme, unit) kmon)"
    unfolding vst32_def .
qed

lemmas stable_access [st] = keeps_access [THEN stable_proc_keeps]

end
