(* ===== verification/Shm.thy ===== *)
theory Shm
  imports Umem
begin

text \<open>
  The shared-memory segments of vm.c: the table of regions, \<open>shmget\<close>, \<open>shmat\<close>, \<open>shmdt\<close>, \<open>shmctl\<close>,
  the initialisation of the table and the helpers that \<open>fork\<close> and \<open>exit\<close> call. A region is named by
  its index in the table; the slots of a process are the \<open>p_pages\<close> of its process structure. A read
  of \<open>allRegions\<close> beyond its 64 elements is the fault \<open>Undefined\<close>.
\<close>

section \<open>State\<close>

record ipc_perm =
  ip_key :: u32
  ip_mode :: int

record shmid_ds =
  shm_perm :: ipc_perm
  shm_segsz :: u32
  shm_nattch :: int
  shm_cpid :: int
  shm_lpid :: int

record shmRegion =
  r_key :: u32
  r_size :: u32
  r_shmid :: int
  r_toBeDeleted :: int
  r_physicalAddr :: "u32 list"
  r_buffer :: shmid_ds

record shmst = procst +
  allRegions :: "shmRegion list"

abbreviation (input) READ_SHM :: int where "READ_SHM \<equiv> 4"
abbreviation (input) RW_SHM :: int where "RW_SHM \<equiv> 6"
abbreviation (input) IPC_CREAT :: int where "IPC_CREAT \<equiv> 512"
abbreviation (input) IPC_EXCL :: int where "IPC_EXCL \<equiv> 1024"
abbreviation (input) IPC_PRIVATE :: u32 where "IPC_PRIVATE \<equiv> 0"
abbreviation (input) SHM_RDONLY :: int where "SHM_RDONLY \<equiv> 4096"
abbreviation (input) SHM_RND :: int where "SHM_RND \<equiv> 8192"
abbreviation (input) SHM_REMAP :: int where "SHM_REMAP \<equiv> 16384"
abbreviation (input) IPC_RMID :: int where "IPC_RMID \<equiv> 0"
abbreviation (input) IPC_SET :: int where "IPC_SET \<equiv> 1"
abbreviation (input) IPC_STAT :: int where "IPC_STAT \<equiv> 2"
abbreviation (input) SHM_STAT :: int where "SHM_STAT \<equiv> 13"

definition get_region :: "int \<Rightarrow> ('x shmst_scheme, shmRegion) kmon" where
  "get_region i =
     (if 0 \<le> i \<and> i < 64 then gets (\<lambda>s. allRegions s ! nat i)
      else fail (Undefined ''allRegions: index out of bounds''))"

definition upd_region :: "int \<Rightarrow> (shmRegion \<Rightarrow> shmRegion) \<Rightarrow> ('x shmst_scheme, unit) kmon" where
  "upd_region i f =
     (if 0 \<le> i \<and> i < 64 then
        modify (\<lambda>s. s\<lparr>allRegions := (allRegions s)[nat i := f (allRegions s ! nat i)]\<rparr>)
      else fail (Undefined ''allRegions: index out of bounds''))"

definition upd_buffer :: "int \<Rightarrow> (shmid_ds \<Rightarrow> shmid_ds) \<Rightarrow> ('x shmst_scheme, unit) kmon" where
  "upd_buffer i f = upd_region i (\<lambda>r. r\<lparr>r_buffer := f (r_buffer r)\<rparr>)"

definition upd_slot :: "nat \<Rightarrow> nat \<Rightarrow> (sharedPages \<Rightarrow> sharedPages) \<Rightarrow> ('x procst_scheme, unit) kmon" where
  "upd_slot p i f = upd_proc p (\<lambda>q. q\<lparr>p_pages := (p_pages q)[i := f (p_pages q ! i)]\<rparr>)"

text \<open>\<open>release(&shmTable.lock); return v;\<close>\<close>

definition leave :: "'a \<Rightarrow> ('x machine_scheme, 'a) kmon" where
  "leave v = sq (release LShm) (ret v)"

section \<open>Creating and finding a region\<close>

text \<open>The search of \<open>shmget\<close> for the key, one region per step.\<close>

definition shmget_lookup :: "u32 \<Rightarrow> nat \<Rightarrow> int \<Rightarrow> nat \<Rightarrow> ('x shmst_scheme, int option) kmon" where
  "shmget_lookup key noOfPages shmflag i =
     bnd (get_region (int i)) (\<lambda>r.
     if r_key r = key then
       if r_size r \<noteq> of_nat noOfPages then leave (Some (-1))
       else if shmflag = IPC_CREAT OR IPC_EXCL then leave (Some (-1))
       else
         let checkPerm = ip_mode (shm_perm (r_buffer r)) in
         if (checkPerm = READ_SHM \<or> checkPerm = RW_SHM)
            \<and> ((shmflag = 0 \<and> key \<noteq> IPC_PRIVATE) \<or> shmflag = IPC_CREAT)
         then sq (release LShm) (bnd (get_region (int i)) (\<lambda>r. ret (Some (r_shmid r))))
         else leave (Some (-1))
     else ret None)"

definition shmget_alloc :: "int \<Rightarrow> nat \<Rightarrow> ('x shmst_scheme, int option) kmon" where
  "shmget_alloc index i =
     bnd kalloc (\<lambda>newPage.
     if newPage = 0 then
       sq (cprintf ''shmget: failed to allocate a page (out of memory)\<newline>'') (leave (Some (-1)))
     else
       sq (kmemset newPage 0 PGSIZE) (
       sq (upd_region index (\<lambda>r. r\<lparr>r_physicalAddr := (r_physicalAddr r)[i := V2P newPage]\<rparr>))
          (ret None)))"

definition shmget_fill :: "u32 \<Rightarrow> u32 \<Rightarrow> nat \<Rightarrow> int \<Rightarrow> int \<Rightarrow> ('x shmst_scheme, int) kmon" where
  "shmget_fill key sz noOfPages permission index =
     sq (upd_region index (\<lambda>r. r\<lparr>r_size := of_nat noOfPages, r_key := key\<rparr>)) (
     sq (upd_buffer index (\<lambda>b. b\<lparr>shm_segsz := sz, shm_perm := \<lparr>ip_key = key, ip_mode = permission\<rparr>\<rparr>)) (
     bnd curproc (\<lambda>p.
     bnd (get_proc p) (\<lambda>q.
     sq (upd_buffer index (\<lambda>b. b\<lparr>shm_cpid := p_pid q\<rparr>)) (
     sq (upd_region index (\<lambda>r. r\<lparr>r_shmid := index\<rparr>))
        (leave index))))))"

definition shmget_create :: "u32 \<Rightarrow> u32 \<Rightarrow> nat \<Rightarrow> int \<Rightarrow> int \<Rightarrow> int \<Rightarrow> ('x shmst_scheme, int) kmon" where
  "shmget_create key sz noOfPages permission shmflag index =
     (if key = IPC_PRIVATE \<or> shmflag = IPC_CREAT \<or> shmflag = IPC_CREAT OR IPC_EXCL then
        bnd (for_loop 0 noOfPages (shmget_alloc index)) (\<lambda>r.
        case r of Some v \<Rightarrow> ret v | None \<Rightarrow> shmget_fill key sz noOfPages permission index)
      else leave (-1))"

text \<open>The requested permission, and the flags without it; \<open>None\<close> when the flags are refused.\<close>

definition shmget_flags :: "u32 \<Rightarrow> int \<Rightarrow> (int \<times> int) option" where
  "shmget_flags key shmflag =
     (let lowerBits = shmflag AND 7 in
      if lowerBits = READ_SHM then Some (READ_SHM, shmflag XOR READ_SHM)
      else if lowerBits = RW_SHM then Some (RW_SHM, shmflag XOR RW_SHM)
      else if shmflag = 0 \<and> key \<noteq> IPC_PRIVATE then Some (-1, shmflag)
      else None)"

definition shmget :: "u32 \<Rightarrow> u32 \<Rightarrow> int \<Rightarrow> ('x shmst_scheme, int) kmon" where
  "shmget key sz shmflag =
     sq (acquire LShm) (
     case shmget_flags key shmflag of
       None \<Rightarrow> leave (-1)
     | Some (permission, shmflag) \<Rightarrow>
         if sz = 0 then leave (-1)
         else
           let noOfPages = unat (sz div PGSIZE) + 1 in
           if SHAREDREGIONS < noOfPages then leave (-1)
           else
             bnd (for_loop 0 SHAREDREGIONS (shmget_lookup key noOfPages shmflag)) (\<lambda>r.
             case r of
               Some v \<Rightarrow> ret v
             | None \<Rightarrow>
                 bnd (gets (\<lambda>s. first_index (\<lambda>i. r_key (allRegions s ! i) = -1) SHAREDREGIONS)) (\<lambda>free.
                 case free of
                   None \<Rightarrow> leave (-1)
                 | Some i \<Rightarrow> shmget_create key sz noOfPages permission shmflag (int i))))"

section \<open>Detaching\<close>

text \<open>Return the pages of a region and reset it to its initial values (in \<open>shmdt\<close> and \<open>shmctl\<close>).\<close>

definition remove_region :: "int \<Rightarrow> ('x shmst_scheme, unit) kmon" where
  "remove_region index =
     bnd (get_region index) (\<lambda>r.
     sq (each 0 (unat (r_size r)) (\<lambda>i.
          bnd (get_region index) (\<lambda>r.
          sq (kfree (P2V (r_physicalAddr r ! i)))
             (upd_region index (\<lambda>r. r\<lparr>r_physicalAddr := (r_physicalAddr r)[i := 0]\<rparr>))))) (
     sq (upd_region index (\<lambda>r. r\<lparr>r_size := 0, r_key := -1, r_shmid := -1, r_toBeDeleted := 0\<rparr>))
        (upd_buffer index (\<lambda>b. b\<lparr>shm_nattch := 0, shm_segsz := 0,
           shm_perm := \<lparr>ip_key = -1, ip_mode = 0\<rparr>, shm_cpid := -1, shm_lpid := -1\<rparr>))))"

definition clear_pte :: "u32 \<Rightarrow> u32 \<Rightarrow> nat \<Rightarrow> ('x kmemst_scheme, int option) kmon" where
  "clear_pte pgdir va i =
     bnd (walkpgdir pgdir (va + of_nat i * PGSIZE) False) (\<lambda>pte.
     if pte = 0 then leave (Some (-1))
     else sq (wr32 pte 0) (ret None))"

definition shmdt_release :: "nat \<Rightarrow> nat \<Rightarrow> int \<Rightarrow> ('x shmst_scheme, int) kmon" where
  "shmdt_release p index shmid =
     sq (upd_slot p index (\<lambda>g. g\<lparr>sp_shmid := -1, sp_key := -1, sp_size := 0, sp_virtualAddr := 0\<rparr>)) (
     bnd (get_region shmid) (\<lambda>r.
     sq (whenk (0 < shm_nattch (r_buffer r)) (upd_buffer shmid (\<lambda>b. b\<lparr>shm_nattch := shm_nattch b - 1\<rparr>))) (
     bnd (get_region shmid) (\<lambda>r.
     sq (whenk (shm_nattch (r_buffer r) = 0 \<and> r_toBeDeleted r = 1) (remove_region (int index))) (
     bnd (get_proc p) (\<lambda>q.
     sq (upd_buffer shmid (\<lambda>b. b\<lparr>shm_lpid := p_pid q\<rparr>))
        (leave 0)))))))"

definition shmdt :: "u32 \<Rightarrow> ('x shmst_scheme, int) kmon" where
  "shmdt shmaddr =
     sq (acquire LShm) (
     bnd curproc (\<lambda>p.
     bnd (get_proc p) (\<lambda>q.
     case first_index (\<lambda>i. sp_key (p_pages q ! i) \<noteq> -1 \<and> sp_virtualAddr (p_pages q ! i) = shmaddr)
            SHAREDREGIONS of
       None \<Rightarrow> leave (-1)
     | Some index \<Rightarrow>
         let va = sp_virtualAddr (p_pages q ! index); shmid = sp_shmid (p_pages q ! index);
             sz = sp_size (p_pages q ! index) in
         if va = 0 then leave (-1)
         else
           bnd (for_loop 0 (unat sz) (clear_pte (p_pgdir q) va)) (\<lambda>r.
           case r of Some v \<Rightarrow> ret v | None \<Rightarrow> shmdt_release p index shmid))))"

section \<open>Attaching\<close>

primrec least_va :: "sharedPages list \<Rightarrow> nat \<Rightarrow> u32 \<Rightarrow> u32 \<Rightarrow> int \<Rightarrow> int" where
  "least_va [] i curr_va leastva idx = idx"
| "least_va (g # gs) i curr_va leastva idx =
     (if sp_key g \<noteq> -1 \<and> curr_va \<le> sp_virtualAddr g \<and> sp_virtualAddr g \<le> leastva
      then least_va gs (Suc i) curr_va (sp_virtualAddr g) (int i)
      else least_va gs (Suc i) curr_va leastva idx)"

definition getLeastvaidx :: "u32 \<Rightarrow> sharedPages list \<Rightarrow> int" where
  "getLeastvaidx curr_va pages = least_va (take SHAREDREGIONS pages) 0 curr_va (KERNBASE - 1) (-1)"

text \<open>The search of \<open>shmat\<close> for the first gap of \<open>sz\<close> pages, at most \<open>k\<close> steps.\<close>

primrec first_gap :: "nat \<Rightarrow> sharedPages list \<Rightarrow> u32 \<Rightarrow> u32 \<Rightarrow> u32" where
  "first_gap 0 pages sz va = va"
| "first_gap (Suc k) pages sz va =
     (let idx = getLeastvaidx va pages in
      if idx \<noteq> -1 then
        let g = pages ! nat idx in
        if va + sz * PGSIZE \<le> sp_virtualAddr g then va
        else first_gap k pages sz (sp_virtualAddr g + sp_size g * PGSIZE)
      else va)"

text \<open>The address to attach at, from the address and the flags of the caller.\<close>

definition shmat_addr :: "sharedPages list \<Rightarrow> u32 \<Rightarrow> u32 \<Rightarrow> int \<Rightarrow> u32 option" where
  "shmat_addr pages sz shmaddr shmflag =
     (if shmaddr \<noteq> 0 then
        if KERNBASE \<le> shmaddr \<or> shmaddr < HEAPLIMIT then None
        else
          let rounded = shmaddr AND NOT (PGSIZE - 1) in
          if shmflag AND SHM_RND \<noteq> 0 then (if rounded = 0 then None else Some rounded)
          else if rounded = shmaddr then Some shmaddr
          else Some HEAPLIMIT
      else Some (first_gap SHAREDREGIONS pages sz HEAPLIMIT))"

text \<open>
  The \<open>SHM_REMAP\<close> loop detaches one segment of the process per step; a process has 64 slots, so 65
  steps are enough. \<open>Some v\<close> is a return with the lock already released.
\<close>

primrec remap_loop :: "nat \<Rightarrow> nat \<Rightarrow> int \<Rightarrow> u32 \<Rightarrow> u32 \<Rightarrow> int \<Rightarrow> ('x shmst_scheme, u32 option) kmon" where
  "remap_loop 0 p index va segment idx = fail Diverges"
| "remap_loop (Suc k) p index va segment idx =
     bnd (get_region index) (\<lambda>r.
     if segment < va + r_size r * PGSIZE then
       bnd (get_proc p) (\<lambda>q.
       let sz = sp_size (p_pages q ! nat idx) in
       sq (release LShm) (
       bnd (shmdt segment) (\<lambda>v.
       if v = -1 then ret (Some (-1))
       else
         sq (acquire LShm) (
         bnd (get_proc p) (\<lambda>q.
         let idx' = getLeastvaidx (segment + sz * PGSIZE) (p_pages q) in
         if idx' = -1 then ret None
         else remap_loop k p index va (sp_virtualAddr (p_pages q ! nat idx')) idx')))))
     else ret None)"

definition shmat_perm :: "shmRegion \<Rightarrow> int \<Rightarrow> u32 option" where
  "shmat_perm r shmflag =
     (if shmflag AND SHM_RDONLY \<noteq> 0 \<or> ip_mode (shm_perm (r_buffer r)) = READ_SHM then Some PTE_U
      else if ip_mode (shm_perm (r_buffer r)) = RW_SHM then Some (PTE_W OR PTE_U)
      else None)"

definition map_region_page :: "u32 \<Rightarrow> u32 \<Rightarrow> int \<Rightarrow> u32 \<Rightarrow> nat \<Rightarrow> ('x shmst_scheme, unit option) kmon" where
  "map_region_page pgdir va index perm k =
     bnd (get_region index) (\<lambda>r.
     bnd (mappages pgdir (va + of_nat k * PGSIZE) PGSIZE (r_physicalAddr r ! k) perm) (\<lambda>v.
     if v < 0 then sq (deallocuvm pgdir va (va + r_size r)) (ret (Some ()))
     else ret None))"

definition shmat_attach :: "nat \<Rightarrow> int \<Rightarrow> int \<Rightarrow> u32 \<Rightarrow> int \<Rightarrow> ('x shmst_scheme, u32) kmon" where
  "shmat_attach p shmid index va shmflag =
     bnd (get_region index) (\<lambda>r.
     bnd (get_proc p) (\<lambda>q.
     case shmat_perm r shmflag of
       None \<Rightarrow> leave (-1)
     | Some permflag \<Rightarrow>
         bnd (for_loop 0 (unat (r_size r)) (map_region_page (p_pgdir q) va index permflag)) (\<lambda>f.
         case f of
           Some _ \<Rightarrow> leave (-1)
         | None \<Rightarrow>
             bnd (get_proc p) (\<lambda>q.
             case first_index (\<lambda>i. sp_key (p_pages q ! i) = -1) SHAREDREGIONS of
               None \<Rightarrow> leave (-1)
             | Some idx \<Rightarrow>
                 bnd (get_region index) (\<lambda>r.
                 sq (upd_slot p idx (\<lambda>g. g\<lparr>sp_shmid := shmid, sp_virtualAddr := va, sp_key := r_key r,
                       sp_size := r_size r, sp_perm := permflag\<rparr>)) (
                 sq (upd_buffer index (\<lambda>b. b\<lparr>shm_nattch := shm_nattch b + 1, shm_lpid := p_pid q\<rparr>))
                    (leave va)))))))"

definition shmat :: "int \<Rightarrow> u32 \<Rightarrow> int \<Rightarrow> ('x shmst_scheme, u32) kmon" where
  "shmat shmid shmaddr shmflag =
     (if shmid < 0 \<or> 64 < shmid then ret (-1)
      else
        sq (acquire LShm) (
        bnd curproc (\<lambda>p.
        bnd (get_region shmid) (\<lambda>r0.
        let index = r_shmid r0 in
        if index = -1 then leave (-1)
        else
          bnd (get_region index) (\<lambda>r.
          bnd (get_proc p) (\<lambda>q.
          case shmat_addr (p_pages q) (r_size r) shmaddr shmflag of
            None \<Rightarrow> leave (-1)
          | Some va \<Rightarrow>
              if KERNBASE \<le> va + r_size r * PGSIZE then leave (-1)
              else
                case first_index (\<lambda>i. let g = p_pages q ! i in
                       sp_key g \<noteq> -1 \<and> va < sp_virtualAddr g + sp_size g * PGSIZE
                         \<and> sp_virtualAddr g \<le> va) SHAREDREGIONS of
                  None \<Rightarrow> shmat_attach p shmid index va shmflag
                | Some idx \<Rightarrow>
                    if shmflag AND SHM_REMAP \<noteq> 0 then
                      bnd (remap_loop 65 p index va (sp_virtualAddr (p_pages q ! idx)) (int idx)) (\<lambda>f.
                      case f of Some v \<Rightarrow> ret v | None \<Rightarrow> shmat_attach p shmid index va shmflag)
                    else leave (-1)))))))"

section \<open>Control\<close>

definition shmctl_set :: "int \<Rightarrow> u32 \<Rightarrow> ('x shmst_scheme, int) kmon" where
  "shmctl_set index buf =
     (if buf \<noteq> 0 then
        bnd (vld32 (buf + 4)) (\<lambda>mode.
        if sint mode = READ_SHM \<or> sint mode = RW_SHM then
          sq (upd_buffer index (\<lambda>b. b\<lparr>shm_perm := (shm_perm b)\<lparr>ip_mode := sint mode\<rparr>\<rparr>)) (leave 0)
        else leave (-1))
      else leave (-1))"

definition shmctl_stat :: "int \<Rightarrow> u32 \<Rightarrow> int \<Rightarrow> ('x shmst_scheme, int) kmon" where
  "shmctl_stat index buf checkPerm =
     (if buf \<noteq> 0 \<and> (checkPerm = READ_SHM \<or> checkPerm = RW_SHM) then
        bnd (get_region index) (\<lambda>r.
        let b = r_buffer r in
        sq (vst32 (buf + 12) (of_int (shm_nattch b))) (
        sq (vst32 (buf + 8) (shm_segsz b)) (
        sq (vst32 buf (ip_key (shm_perm b))) (
        sq (vst32 (buf + 4) (of_int checkPerm)) (
        sq (vst32 (buf + 16) (of_int (shm_cpid b))) (
        sq (vst32 (buf + 20) (of_int (shm_lpid b)))
           (leave 0)))))))
      else leave (-1))"

definition shmctl_rmid :: "int \<Rightarrow> ('x shmst_scheme, int) kmon" where
  "shmctl_rmid index =
     bnd (get_region index) (\<lambda>r.
     sq (if shm_nattch (r_buffer r) = 0 then remove_region index
         else upd_region index (\<lambda>r. r\<lparr>r_toBeDeleted := 1\<rparr>))
        (leave 0))"

definition shmctl :: "int \<Rightarrow> int \<Rightarrow> u32 \<Rightarrow> ('x shmst_scheme, int) kmon" where
  "shmctl shmid cmd buf =
     (if shmid < 0 \<or> 64 < shmid then ret (-1)
      else
        sq (acquire LShm) (
        bnd (get_region shmid) (\<lambda>r0.
        let index = r_shmid r0 in
        if index = -1 then leave (-1)
        else
          bnd (get_region index) (\<lambda>r.
          let checkPerm = ip_mode (shm_perm (r_buffer r)) in
          if cmd = IPC_SET then shmctl_set index buf
          else if cmd = SHM_STAT \<or> cmd = IPC_STAT then shmctl_stat index buf checkPerm
          else if cmd = IPC_RMID then shmctl_rmid index
          else leave (-1)))))"

section \<open>Initialisation and helpers\<close>

definition blank_region :: shmRegion where
  "blank_region = \<lparr>r_key = -1, r_size = 0, r_shmid = -1, r_toBeDeleted = 0,
     r_physicalAddr = replicate SHAREDREGIONS 0,
     r_buffer = \<lparr>shm_perm = \<lparr>ip_key = -1, ip_mode = 0\<rparr>, shm_segsz = 0, shm_nattch = 0,
       shm_cpid = -1, shm_lpid = -1\<rparr>\<rparr>"

definition sharedMemoryInit :: "('x shmst_scheme, unit) kmon" where
  "sharedMemoryInit =
     sq (initlock LShm ''Shared Memory'') (
     sq (acquire LShm) (
     sq (each 0 SHAREDREGIONS (\<lambda>i. upd_region (int i) (\<lambda>_. blank_region)))
        (release LShm)))"

definition getShmidIndex :: "int \<Rightarrow> ('x shmst_scheme, int) kmon" where
  "getShmidIndex shmid =
     (if shmid < 0 \<or> 64 < shmid then ret (-1)
      else bnd (get_region shmid) (\<lambda>r. ret (r_shmid r)))"

definition mappagesWrapper :: "nat \<Rightarrow> int \<Rightarrow> nat \<Rightarrow> ('x shmst_scheme, unit) kmon" where
  "mappagesWrapper p shmIndex index =
     bnd (get_proc p) (\<lambda>q.
     let g = p_pages q ! index in
     bnd (for_loop 0 (unat (sp_size g)) (\<lambda>i.
       bnd (get_region shmIndex) (\<lambda>r.
       bnd (mappages (p_pgdir q) (sp_virtualAddr g + of_nat i * PGSIZE) PGSIZE
              (r_physicalAddr r ! i) (sp_perm g)) (\<lambda>v.
       if v < 0 then
         sq (deallocuvm (p_pgdir q) (sp_virtualAddr g) (sp_virtualAddr g + r_size r)) (ret (Some ()))
       else ret None)))) (\<lambda>_.
     ret ()))"

definition shmdtWrapper :: "u32 \<Rightarrow> ('x shmst_scheme, unit) kmon" where
  "shmdtWrapper addr = sq (shmdt addr) (ret ())"

section \<open>The table invariant\<close>

text \<open>
  A region is either free, with the initial values, or in use under its own index as identifier.
  Two parts of a free region may differ from their initial values: a failed \<open>shmget\<close> leaves page
  addresses behind, and an \<open>shmat\<close> with \<open>SHM_REMAP\<close> counts an attachment even when the detaching it
  did has removed the region.
\<close>

definition region_free :: "shmRegion \<Rightarrow> bool" where
  "region_free r \<longleftrightarrow> r_key r = -1 \<and> r_shmid r = -1 \<and> r_size r = 0 \<and> r_toBeDeleted r = 0"

definition region_used :: "nat \<Rightarrow> shmRegion \<Rightarrow> bool" where
  "region_used i r \<longleftrightarrow> r_key r \<noteq> -1 \<and> r_shmid r = int i \<and> 1 \<le> r_size r \<and> r_size r \<le> 64
     \<and> r_size r = shm_segsz (r_buffer r) div PGSIZE + 1 \<and> ip_key (shm_perm (r_buffer r)) = r_key r
     \<and> (ip_mode (shm_perm (r_buffer r)) = READ_SHM \<or> ip_mode (shm_perm (r_buffer r)) = RW_SHM)
     \<and> r_toBeDeleted r \<in> {0, 1}"

definition region_ok :: "nat \<Rightarrow> shmRegion \<Rightarrow> bool" where
  "region_ok i r \<longleftrightarrow> length (r_physicalAddr r) = SHAREDREGIONS \<and> 0 \<le> shm_nattch (r_buffer r)
     \<and> (region_free r \<or> region_used i r)"

definition table_ok :: "shmRegion list \<Rightarrow> bool" where
  "table_ok R \<longleftrightarrow> length R = SHAREDREGIONS \<and> (\<forall>i < SHAREDREGIONS. region_ok i (R ! i))
     \<and> (\<forall>i < SHAREDREGIONS. \<forall>j < SHAREDREGIONS. r_key (R ! i) = r_key (R ! j) \<and> r_key (R ! i) \<noteq> -1
          \<longrightarrow> i = j)"

lemma table_okD:
  assumes "table_ok R"
  shows "length R = 64" "i < 64 \<Longrightarrow> region_ok i (R ! i)"
    "i < 64 \<Longrightarrow> j < 64 \<Longrightarrow> r_key (R ! i) = r_key (R ! j) \<Longrightarrow> r_key (R ! i) \<noteq> -1 \<Longrightarrow> i = j"
  using assms unfolding table_ok_def by blast+

lemma region_key_free: "region_ok i r \<Longrightarrow> r_key r = -1 \<longleftrightarrow> region_free r"
  by (auto simp: region_ok_def region_free_def region_used_def)

text \<open>Changing a region keeps the table as long as its key stays or is new.\<close>

lemma table_ok_upd:
  assumes ok: "table_ok R" and r: "region_ok i r"
    and key: "r_key r = -1 \<or> r_key r = r_key (R ! i) \<or> (\<forall>j < 64. r_key (R ! j) \<noteq> r_key r)"
  shows "table_ok (R[i := r])"
  unfolding table_ok_def
proof (intro conjI allI impI)
  show "length (R[i := r]) = 64" using table_okD(1) [OF ok] by simp
  fix j assume j: "j < (64 :: nat)"
  then have nth: "R[i := r] ! j = (if j = i then r else R ! j)"
    using table_okD(1) [OF ok] by (simp add: nth_upd)
  show "region_ok j (R[i := r] ! j)" unfolding nth using r table_okD(2) [OF ok j] by simp
  fix k assume k: "k < (64 :: nat)"
    and eq: "r_key (R[i := r] ! j) = r_key (R[i := r] ! k) \<and> r_key (R[i := r] ! j) \<noteq> - 1"
  have nth': "R[i := r] ! k = (if k = i then r else R ! k)"
    using k table_okD(1) [OF ok] by (simp add: nth_upd)
  show "j = k"
  proof (rule ccontr)
    assume "j \<noteq> k"
    then show False
      using eq key j k table_okD(3) [OF ok j k] table_okD(3) [OF ok, of i k] table_okD(3) [OF ok, of i j]
      unfolding nth nth' by (auto split: if_splits)
  qed
qed

lemma table_ok_region:
  assumes "table_ok R" "i < 64"
    "region_ok i (R ! i) \<Longrightarrow> region_ok i r \<and> (r_key r = -1 \<or> r_key r = r_key (R ! i))"
  shows "table_ok (R[i := r])"
  using table_ok_upd [OF assms(1), of i r] assms(3) [OF table_okD(2) [OF assms(1,2)]] by blast

section \<open>What the operations leave of the table\<close>

lemma more_regions:
  fixes s s' :: "'x shmst_scheme"
  assumes "kmemst.more s' = kmemst.more s"
  shows "allRegions s' = allRegions s"
  using assms by (cases s; cases s'; simp)

lemma keeps_regions:
  fixes m :: "('x shmst_scheme, 'a) kmon"
  assumes "keeps kmemst.more m"
  shows "keeps allRegions m"
  unfolding keeps_def
  by (intro allI wpe_mono [OF assms [unfolded keeps_def, rule_format]]) (erule more_regions)+

lemmas keeps_regions_ops [kp] =
  keeps_machine [THEN keeps_regions] keeps_locking [THEN keeps_regions]
  keeps_pages [THEN keeps_regions] keeps_mappages [THEN keeps_regions]
  keeps_deallocuvm [THEN keeps_regions] keeps_access [THEN keeps_regions]

lemma keeps_regions_more [kp]:
  "keeps f (get_region i)" "keeps f (get_proc p)" "keeps allRegions (upd_proc p g)"
  "keeps allRegions (upd_slot p k h)" "keeps allRegions (leave v)" "keeps allRegions (clear_pte d a n)"
  unfolding get_region_def get_proc_def upd_proc_def upd_slot_def leave_def clear_pte_def
  by (intro kp; simp)+

lemma keeps_wpe:
  assumes "keeps f m" "\<And>x s'. f s' = f s \<Longrightarrow> Q x s'"
  shows "wpe m anyfault Q s"
  by (rule wpe_kept [OF assms(1)]) (simp_all add: assms(2))

lemma stable_table_keeps:
  "keeps allRegions m \<Longrightarrow> stable anyfault (\<lambda>s. table_ok (allRegions s)) m"
  by (rule stable_keeps)

lemmas stable_table_ops [st] =
  keeps_regions_ops [THEN stable_table_keeps] keeps_regions_more [THEN stable_table_keeps]

lemma stable_upd_region [st]:
  assumes "\<And>r. region_ok (nat i) r \<Longrightarrow> region_ok (nat i) (f r) \<and> (r_key (f r) = -1 \<or> r_key (f r) = r_key r)"
  shows "stable anyfault (\<lambda>s. table_ok (allRegions s)) (upd_region i f)"
  unfolding stable_def upd_region_def using assms by (auto simp: wp intro!: table_ok_region)

lemma stable_upd_buffer [st]:
  assumes "\<And>r. region_ok (nat i) r \<Longrightarrow> region_ok (nat i) (r\<lparr>r_buffer := f (r_buffer r)\<rparr>)"
  shows "stable anyfault (\<lambda>s. table_ok (allRegions s)) (upd_buffer i f)"
  unfolding upd_buffer_def using assms by (intro st) simp

lemma used_size:
  assumes "region_used i r"
  shows "1 \<le> unat (r_size r)" "unat (r_size r) \<le> 64"
proof -
  have "1 \<le> r_size r" "r_size r \<le> 64" using assms unfolding region_used_def by blast+
  then show "1 \<le> unat (r_size r)" "unat (r_size r) \<le> 64" by (simp_all add: word_le_nat_alt)
qed

lemma wpe_region:
  "wpe (get_region i) anyfault Q s \<longleftrightarrow> (0 \<le> i \<and> i < 64 \<longrightarrow> Q (allRegions s ! nat i) s)"
  "wpe (upd_region i f) anyfault P s \<longleftrightarrow> (0 \<le> i \<and> i < 64 \<longrightarrow>
     P () (s\<lparr>allRegions := (allRegions s)[nat i := f (allRegions s ! nat i)]\<rparr>))"
  by (auto simp: get_region_def upd_region_def wp)

lemma wpe_get_region:
  "0 \<le> i \<Longrightarrow> i < 64 \<Longrightarrow> wpe (get_region i) E Q s \<longleftrightarrow> Q (allRegions s ! nat i) s"
  by (simp add: get_region_def wp)

lemma run_region [run]:
  "0 \<le> i \<Longrightarrow> i < 64 \<Longrightarrow> bnd (get_region i) k s = k (allRegions s ! nat i) s"
  "0 \<le> i \<Longrightarrow> i < 64 \<Longrightarrow> sq (upd_region i f) n s
    = n (s\<lparr>allRegions := (allRegions s)[nat i := f (allRegions s ! nat i)]\<rparr>)"
  by (simp_all add: get_region_def upd_region_def run)

lemma stable_upd_pair:
  assumes "\<And>r. region_ok (nat i) r \<Longrightarrow> region_ok (nat i) ((f r)\<lparr>r_buffer := g (r_buffer (f r))\<rparr>)
    \<and> (r_key (f r) = -1 \<or> r_key (f r) = r_key r)"
  shows "stable anyfault (\<lambda>s. table_ok (allRegions s)) (sq (upd_region i f) (upd_buffer i g))"
  unfolding stable_def upd_buffer_def
proof (intro allI impI)
  fix s :: "'a shmst_scheme"
  assume ok: "table_ok (allRegions s)"
  let ?r = "allRegions s ! nat i"
  have "table_ok ((allRegions s)[nat i := (f ?r)\<lparr>r_buffer := g (r_buffer (f ?r))\<rparr>])" if "0 \<le> i" "i < 64"
    by (rule table_ok_region [OF ok]) (use that assms [of ?r] in auto)
  then show "wpe (sq (upd_region i f) (upd_region i (\<lambda>r. r\<lparr>r_buffer := g (r_buffer r)\<rparr>))) anyfault
      (\<lambda>_ s. table_ok (allRegions s)) s"
    using table_okD(1) [OF ok] by (auto simp: wpe_sq wpe_region nat_less_iff)
qed

lemma stable_remove_region [st]: "stable anyfault (\<lambda>s. table_ok (allRegions s)) (remove_region i)"
  unfolding remove_region_def
  by (intro stable_upd_pair st) (auto simp: region_ok_def region_free_def region_used_def)

text \<open>The count of attachments is decremented only when it is positive.\<close>

lemma stable_dec_nattch:
  assumes "stable anyfault (\<lambda>s. table_ok (allRegions s)) k"
  shows "stable anyfault (\<lambda>s. table_ok (allRegions s)) (bnd (get_region i) (\<lambda>r.
    sq (whenk (0 < shm_nattch (r_buffer r)) (upd_buffer i (\<lambda>b. b\<lparr>shm_nattch := shm_nattch b - 1\<rparr>))) k))"
  unfolding stable_def
proof (intro allI impI)
  fix s :: "'a shmst_scheme"
  assume ok: "table_ok (allRegions s)"
  let ?r = "allRegions s ! nat i"
  let ?r' = "?r\<lparr>r_buffer := (r_buffer ?r)\<lparr>shm_nattch := shm_nattch (r_buffer ?r) - 1\<rparr>\<rparr>"
  have "table_ok ((allRegions s)[nat i := ?r'])" if "0 < shm_nattch (r_buffer ?r)" "0 \<le> i" "i < 64"
    by (rule table_ok_region [OF ok])
      (use that in \<open>auto simp: region_ok_def region_free_def region_used_def\<close>)
  then show "wpe (bnd (get_region i) (\<lambda>r. sq (whenk (0 < shm_nattch (r_buffer r))
      (upd_buffer i (\<lambda>b. b\<lparr>shm_nattch := shm_nattch b - 1\<rparr>))) k)) anyfault
      (\<lambda>_ s. table_ok (allRegions s)) s"
    using ok assms unfolding stable_def
    by (simp add: get_region_def upd_buffer_def upd_region_def wpe_bnd wpe_sq wpe_whenk wpe_gets
        wpe_modify wpe_fail)
qed

lemma stable_shmdt [st]: "stable anyfault (\<lambda>s. table_ok (allRegions s)) (shmdt a)"
  unfolding shmdt_def shmdt_release_def
  by (intro stable_dec_nattch st) (auto simp: region_ok_def region_free_def region_used_def)

lemma stable_remap_loop [st]:
  "stable anyfault (\<lambda>s. table_ok (allRegions s)) (remap_loop k p i va sg idx :: ('x shmst_scheme, u32 option) kmon)"
proof (induction k arbitrary: sg idx)
  case (Suc k)
  show ?case unfolding remap_loop.simps by (intro st Suc.IH)
qed (simp add: st)

lemma stable_shmat [st]: "stable anyfault (\<lambda>s. table_ok (allRegions s)) (shmat i a fl)"
  unfolding shmat_def shmat_attach_def map_region_page_def
  by (intro st) (auto simp: region_ok_def region_free_def region_used_def)

text \<open>\<open>shmctl\<close> works on a region in use: the identifier it reads is the index of the region.\<close>

lemma used_index:
  assumes "table_ok R" "0 \<le> i" "i < 64" "r_shmid (R ! nat i) \<noteq> -1"
  shows "r_shmid (R ! nat i) = i" "region_used (nat i) (R ! nat i)"
proof -
  have "region_ok (nat i) (R ! nat i)" using assms by (intro table_okD(2)) simp_all
  then show u: "region_used (nat i) (R ! nat i)"
    using assms(4) by (auto simp: region_ok_def region_free_def)
  then show "r_shmid (R ! nat i) = i" using assms(2) by (simp add: region_used_def)
qed

lemma stable_shmctl [st]:
  "stable anyfault (\<lambda>s. table_ok (allRegions s)) (shmctl i cmd buf :: ('x shmst_scheme, int) kmon)"
proof -
  let ?P = "\<lambda>s :: 'x shmst_scheme. table_ok (allRegions s)"
  have mark: "wpe (shmctl_rmid i) anyfault (\<lambda>_. ?P) s"
    if "?P s" "region_used (nat i) (allRegions s ! nat i)" for s :: "'x shmst_scheme"
  proof -
    have "table_ok ((allRegions s)[nat i := (allRegions s ! nat i)\<lparr>r_toBeDeleted := 1\<rparr>])"
      if "0 \<le> i" "i < 64"
      by (rule table_ok_region [OF \<open>?P s\<close>])
        (use that \<open>region_used (nat i) (allRegions s ! nat i)\<close> in \<open>auto simp: region_ok_def region_used_def\<close>)
    moreover have "stable anyfault ?P (leave (0 :: int))"
      and "stable anyfault ?P (sq (remove_region i) (leave (0 :: int)))" by (intro st)+
    ultimately show ?thesis
      using that(1) unfolding shmctl_rmid_def stable_def
      by (simp add: wpe_bnd wpe_region wpe_sq)
  qed
  have rest: "stable anyfault ?P (shmctl_set i buf)" "stable anyfault ?P (shmctl_stat i buf c)" for c
    unfolding shmctl_stat_def shmctl_set_def
    by (intro st; auto simp: region_ok_def region_free_def region_used_def)+
  have lv: "stable anyfault ?P (leave v)" for v :: int by (intro st)
  have body: "stable anyfault ?P (bnd (get_region i) (\<lambda>r0.
        let index = r_shmid r0 in
        if index = -1 then leave (-1)
        else
          bnd (get_region index) (\<lambda>r.
          let checkPerm = ip_mode (shm_perm (r_buffer r)) in
          if cmd = IPC_SET then shmctl_set index buf
          else if cmd = SHM_STAT \<or> cmd = IPC_STAT then shmctl_stat index buf checkPerm
          else if cmd = IPC_RMID then shmctl_rmid index
          else leave (-1))))" (is "stable _ _ ?body")
    unfolding stable_def
  proof (intro allI impI)
    fix s :: "'x shmst_scheme"
    assume that: "?P s"
    show "wpe ?body anyfault (\<lambda>_. ?P) s"
  proof (cases "0 \<le> i \<and> i < 64 \<and> r_shmid (allRegions s ! nat i) \<noteq> -1")
    case True
    then have u: "r_shmid (allRegions s ! nat i) = i" "region_used (nat i) (allRegions s ! nat i)"
      using used_index [OF that] by blast+
    then show ?thesis
      using that mark [OF that u(2)] rest lv unfolding stable_def
      by (simp add: wpe_bnd wpe_region Let_def)
  next
    case False
    then show ?thesis
      using that lv unfolding stable_def by (auto simp add: wpe_bnd wpe_region Let_def)
  qed
  qed
  show ?thesis
    unfolding shmctl_def by (intro body st)
qed

section \<open>Frames with a changing table of regions\<close>

lemma shm_locking [simp]:
  "allRegions (acquired l s) = allRegions s" "allRegions (released l s) = allRegions s"
  "allRegions (polled s) = allRegions s" "allRegions (bracket l s) = allRegions s"
  "allRegions (klock s) = allRegions s" "allRegions (kalloc_state L s) = allRegions s"
  "allRegions (kfree_state v s) = allRegions s"
  by (simp_all add: acquired_def pushed_def released_def popped_def polled_def bracket_def klock_def
      kalloc_state_def kfree_state_def)

lemma regions_upd_frame [simp]:
  "cpu_index (s\<lparr>allRegions := R\<rparr>) = cpu_index s" "cur_cpu (s\<lparr>allRegions := R\<rparr>) = cur_cpu s"
  "cpu_ok (s\<lparr>allRegions := R\<rparr>) = cpu_ok s" "held l (s\<lparr>allRegions := R\<rparr>) = held l s"
  "in_lock l (s\<lparr>allRegions := R\<rparr>) = in_lock l s" "can_lock l (s\<lparr>allRegions := R\<rparr>) = can_lock l s"
  "lockview (s\<lparr>allRegions := R\<rparr>) = lockview s" "kmem_ready (s\<lparr>allRegions := R\<rparr>) = kmem_ready s"
  "free_pages (s\<lparr>allRegions := R\<rparr>) L = free_pages s L" "page_ok (s\<lparr>allRegions := R\<rparr>) = page_ok s"
  "released l (s\<lparr>allRegions := R\<rparr>) = (released l s)\<lparr>allRegions := R\<rparr>"
  by (simp_all add: cpu_ok_def cur_cpu_def cpu_index_def held_def in_lock_def can_lock_def
      lockview_def kmem_ready_def free_pages_def page_ok_def fun_eq_iff released_def popped_def)

text \<open>\<open>sframe s u\<close>: up to the table of regions, only what \<open>kframe\<close> allows has changed.\<close>

definition sframe :: "'x shmst_scheme \<Rightarrow> 'x shmst_scheme \<Rightarrow> bool" where
  "sframe s u \<longleftrightarrow> kframe s (u\<lparr>allRegions := allRegions s\<rparr>)"

lemma kframe_sframe:
  fixes s u :: "'x shmst_scheme"
  assumes "kframe s u"
  shows "sframe s u"
proof -
  have "allRegions u = allRegions s" using assms by (intro more_regions) (simp add: kframe_def)
  then have "u\<lparr>allRegions := allRegions s\<rparr> = u" by simp
  then show ?thesis using assms by (simp add: sframe_def)
qed

lemma kframe_regions:
  "kframe s t \<Longrightarrow> kframe (s\<lparr>allRegions := R\<rparr>) (t\<lparr>allRegions := R\<rparr>)"
  by (cases s; cases t) (simp add: kframe_def lockview_def cur_cpu_def cpu_index_def)

lemma sframe_upd [simp]: "sframe s (u\<lparr>allRegions := R\<rparr>) = sframe s u" "sframe (s\<lparr>allRegions := R\<rparr>) u = sframe s u"
proof -
  show "sframe s (u\<lparr>allRegions := R\<rparr>) = sframe s u" by (simp add: sframe_def)
  show "sframe (s\<lparr>allRegions := R\<rparr>) u = sframe s u"
    using kframe_regions [of s "u\<lparr>allRegions := allRegions s\<rparr>" R]
      kframe_regions [of "s\<lparr>allRegions := R\<rparr>" "u\<lparr>allRegions := R\<rparr>" "allRegions s"]
    by (auto simp: sframe_def)
qed

lemma sframe_mem [simp]: "sframe s (u\<lparr>mem := m\<rparr>) = sframe s u"
proof -
  have "(u\<lparr>mem := m\<rparr>)\<lparr>allRegions := R\<rparr> = (u\<lparr>allRegions := R\<rparr>)\<lparr>mem := m\<rparr>" for R by simp
  then show ?thesis by (simp only: sframe_def kframe_upd)
qed

lemma sframe_refl [simp]: "sframe s s"
  by (simp add: sframe_def)

lemma sframe_trans [trans]: "sframe s t \<Longrightarrow> sframe t u \<Longrightarrow> sframe s u"
  using kframe_regions [of t "u\<lparr>allRegions := allRegions t\<rparr>" "allRegions s"]
  by (auto simp: sframe_def intro: kframe_trans)

lemma sframe_cpu:
  assumes "sframe s u" "cpu_ok s"
  shows "cpu_ok u" "cpu_index u = cpu_index s" "c_proc (cur_cpu u) = c_proc (cur_cpu s)"
    "c_ncli (cur_cpu u) = c_ncli (cur_cpu s)" "in_lock l u = in_lock l s" "can_lock l u = can_lock l s"
  using kframe_cpu [OF assms(1) [unfolded sframe_def] assms(2)]
    kframe_locks [OF assms(1) [unfolded sframe_def] assms(2)] by simp_all

lemma sframe_fields:
  fixes s u :: "'x shmst_scheme"
  assumes "sframe s u"
  shows "ptable u = ptable s" "initproc u = initproc s" "kend u = kend s" "lockview u = lockview s"
    "cr3 u = cr3 s"
proof -
  have "kmemst.more (u\<lparr>allRegions := allRegions s\<rparr>) = kmemst.more s"
    using assms by (simp add: sframe_def kframe_def)
  from more_procs [OF this] show "ptable u = ptable s" "initproc u = initproc s" by simp_all
  show "kend u = kend s" "lockview u = lockview s" "cr3 u = cr3 s"
    using assms by (simp_all add: sframe_def kframe_def)
qed

lemma sframe_section:
  assumes "can_lock l s" "sframe (acquired l s) t"
  shows "in_lock l t" "sframe s (released l t)"
  using kframe_section [OF assms(1) assms(2) [unfolded sframe_def]] by (simp_all add: sframe_def)

lemma leave_eq:
  assumes "can_lock LShm s" "sframe (acquired LShm s) t"
  shows "leave v t = Inr (v, released LShm t)"
  using sframe_section(1) [OF assms]
  by (simp add: leave_def sq_def bnd_def release_eq in_lock_def ret_def)

section \<open>What shmget decides\<close>

text \<open>
  The decision of \<open>shmget\<close> as a function of the request and of the table: refuse, return a region that
  exists, or create one (its index, number of pages and permission).
\<close>

datatype shmget_plan = Refused | Found int | Create nat nat int

definition shmget_plan :: "u32 \<Rightarrow> u32 \<Rightarrow> int \<Rightarrow> shmRegion list \<Rightarrow> shmget_plan" where
  "shmget_plan key sz shmflag R =
     (let n = unat (sz div PGSIZE) + 1 in
      case shmget_flags key shmflag of
        None \<Rightarrow> Refused
      | Some (permission, fl) \<Rightarrow>
          if sz = 0 \<or> SHAREDREGIONS < n then Refused
          else
            case first_index (\<lambda>i. r_key (R ! i) = key) SHAREDREGIONS of
              Some i \<Rightarrow>
                let r = R ! i; mode = ip_mode (shm_perm (r_buffer r)) in
                if r_size r = of_nat n \<and> (mode = READ_SHM \<or> mode = RW_SHM)
                   \<and> (fl = 0 \<and> key \<noteq> IPC_PRIVATE \<or> fl = IPC_CREAT)
                then Found (r_shmid r) else Refused
            | None \<Rightarrow>
                case first_index (\<lambda>i. r_key (R ! i) = -1) SHAREDREGIONS of
                  None \<Rightarrow> Refused
                | Some i \<Rightarrow>
                    if key = IPC_PRIVATE \<or> fl = IPC_CREAT \<or> fl = IPC_CREAT OR IPC_EXCL
                    then Create i n permission else Refused)"

lemma shmget_lookup_eq:
  fixes s :: "'x shmst_scheme"
  assumes "can_lock LShm s"
  defines "R \<equiv> allRegions s"
  shows "for_loop 0 64 (shmget_lookup key n fl) (acquired LShm s) =
    (case first_index (\<lambda>i. r_key (R ! i) = key) 64 of
       None \<Rightarrow> Inr (None, acquired LShm s)
     | Some i \<Rightarrow> Inr (Some (let r = R ! i; mode = ip_mode (shm_perm (r_buffer r)) in
         if r_size r = of_nat n \<and> (mode = READ_SHM \<or> mode = RW_SHM)
            \<and> (fl = 0 \<and> key \<noteq> IPC_PRIVATE \<or> fl = IPC_CREAT) then r_shmid r else -1), bracket LShm s))"
proof (rule for_loop_search)
  let ?a = "acquired LShm s"
  have lv: "leave v ?a = Inr (v, bracket LShm s)" for v :: "int option"
    using leave_eq [OF assms(1), of ?a v] by (simp add: bracket_def)
  have rel: "release LShm ?a = Inr ((), bracket LShm s)"
    using in_lock_acquired [OF assms(1)] by (simp add: release_eq in_lock_def bracket_def)
  fix j assume j: "j < (64 :: nat)"
  show "shmget_lookup key n fl j ?a = Inr (None, ?a)" if "r_key (R ! j) \<noteq> key"
    using that j
    by (simp add: shmget_lookup_def get_region_def bnd_def gets_def ret_def R_def)
  show "shmget_lookup key n fl j ?a = Inr (Some (let r = R ! j; mode = ip_mode (shm_perm (r_buffer r)) in
         if r_size r = of_nat n \<and> (mode = READ_SHM \<or> mode = RW_SHM)
            \<and> (fl = 0 \<and> key \<noteq> IPC_PRIVATE \<or> fl = IPC_CREAT) then r_shmid r else -1), bracket LShm s)"
    if "r_key (R ! j) = key"
    using that j lv rel
    by (auto simp: shmget_lookup_def get_region_def bnd_def gets_def ret_def R_def Let_def sq_def)
qed

lemma shmget_no_create:
  assumes "can_lock LShm s"
  shows "shmget_plan key sz fl (allRegions s) = Refused \<Longrightarrow> shmget key sz fl s = Inr (-1, bracket LShm s)"
    and "shmget_plan key sz fl (allRegions s) = Found v \<Longrightarrow> shmget key sz fl s = Inr (v, bracket LShm s)"
proof -
  let ?a = "acquired LShm s"
  have acq: "acquire LShm s = Inr ((), ?a)" using assms by (simp add: acquire_eq can_lock_def)
  have lv: "leave v ?a = Inr (v, bracket LShm s)" for v :: int
    using leave_eq [OF assms, of ?a v] by (simp add: bracket_def)
  note look = shmget_lookup_eq [OF assms]
  show "shmget_plan key sz fl (allRegions s) = Refused \<Longrightarrow> shmget key sz fl s = Inr (-1, bracket LShm s)"
    by (auto simp: shmget_plan_def shmget_def sq_def bnd_def acq lv look Let_def gets_def ret_def
        shmget_create_def split: option.splits prod.splits if_splits)
  show "shmget_plan key sz fl (allRegions s) = Found v \<Longrightarrow> shmget key sz fl s = Inr (v, bracket LShm s)"
    by (auto simp: shmget_plan_def shmget_def sq_def bnd_def acq lv look Let_def gets_def ret_def
        split: option.splits prod.splits if_splits)
qed

section \<open>Creating a region\<close>

lemma free_pages_locking [simp]:
  "free_pages (released l u) L = free_pages u L" "free_pages (acquired l u) L = free_pages u L"
  by (simp_all add: free_pages_def page_ok_def)

lemma can_lock_acquired:
  assumes "can_lock l s" "can_lock k s" "k \<noteq> l"
  shows "can_lock k (acquired l s)"
  using assms in_lock_acquired [OF assms(1)] by (simp add: can_lock_def in_lock_def)

lemma kmem_ready_acquired: "can_lock l s \<Longrightarrow> kmem_ready s \<Longrightarrow> l \<noteq> LKmem \<Longrightarrow> kmem_ready (acquired l s)"
  by (simp add: kmem_ready_def can_lock_acquired)

lemma kmem_ready_sframe:
  assumes "sframe s u" "kmem_ready s" "cpu_ok s"
  shows "kmem_ready u"
proof -
  have "kmem_use_lock u = kmem_use_lock s" using assms(1) by (simp add: sframe_def kframe_def)
  then show ?thesis using assms(2) sframe_cpu(6) [OF assms(1,3)] by (simp add: kmem_ready_def)
qed

text \<open>
  The state in the allocation loop of \<open>shmget\<close>, entered in \<open>a\<close> with free pages \<open>L\<close>: the first \<open>j\<close> of
  them are zero and noted in region \<open>i\<close>.
\<close>

definition allocated :: "nat \<Rightarrow> u32 list \<Rightarrow> 'x shmst_scheme \<Rightarrow> nat \<Rightarrow> 'x shmst_scheme \<Rightarrow> bool" where
  "allocated i L a j u \<longleftrightarrow>
     sframe a u \<and> j \<le> length L \<and> free_pages u (drop j L)
       \<and> allRegions u = (allRegions a)[i := (allRegions a ! i)
           \<lparr>r_physicalAddr := map V2P (take j L) @ drop j (r_physicalAddr (allRegions a ! i))\<rparr>]
       \<and> mem u = (\<lambda>x. if pg x \<in> pg ` set (take j L) then 0 else mem a x)"

lemma free_pages_drop: "free_pages s L \<Longrightarrow> distinct L \<and> (\<forall>v \<in> set L. page_ok s v \<and> pgaligned v)"
  by (auto simp: free_pages_def)

lemma allocated_step:
  assumes al: "allocated i L a j u" and j: "j < length L"
    and a: "kmem_ready a" "cpu_ok a" "i < length (allRegions a)"
      "j < length (r_physicalAddr (allRegions a ! i))" and L: "distinct L" "\<forall>v \<in> set L. pgaligned v"
  defines "u' \<equiv> (kalloc_state (drop j L) u)
    \<lparr>mem := memset (mem u) (L ! j) 0 PGSIZE,
     allRegions := (allRegions u)[i := (allRegions u ! i)
       \<lparr>r_physicalAddr := (r_physicalAddr (allRegions u ! i))[j := V2P (L ! j)]\<rparr>]\<rparr>"
  shows "allocated i L a (Suc j) u'"
proof -
  let ?r = "allRegions a ! i"
  have f: "sframe a u" "free_pages u (drop j L)"
    and R: "allRegions u = (allRegions a)[i := ?r\<lparr>r_physicalAddr := map V2P (take j L) @ drop j (r_physicalAddr ?r)\<rparr>]"
    and m: "mem u = (\<lambda>x. if pg x \<in> pg ` set (take j L) then 0 else mem a x)"
    using al by (simp_all add: allocated_def)
  have rdy: "kmem_ready u" using kmem_ready_sframe [OF f(1) a(1,2)] .
  have v: "pgaligned (L ! j)" using L(2) j by simp
  have tk: "take (Suc j) L = take j L @ [L ! j]" using j by (rule take_Suc_conv_app_nth)
  have dr: "drop j L = L ! j # drop (Suc j) L" using j by (simp add: Cons_nth_drop_Suc)
  have mem: "mem u' = (\<lambda>x. if pg x \<in> pg ` set (take (Suc j) L) then 0 else mem a x)"
    unfolding u'_def tk by (auto simp: memset_page [OF v] m)
  have fr: "sframe a u'"
    using f(1) kframe_sframe [OF kframe_states(1) [OF rdy, of "drop j L"]]
    by (auto simp: u'_def intro: sframe_trans)
  have "free_pages (kalloc_state (drop j L) u) (drop (Suc j) L)"
    using free_pages_kalloc [OF f(2)] by (simp add: dr)
  then have "free_pages ((kalloc_state (drop j L) u)\<lparr>mem := memset (mem u) (L ! j) 0 PGSIZE\<rparr>) (drop (Suc j) L)"
  proof (rule free_pages_mem)
    fix x assume "pg x \<in> pg ` set (drop (Suc j) L)"
    then obtain y where y: "y \<in> set (drop (Suc j) L)" "pg x = pg y" by auto
    then have "y \<noteq> L ! j" using L(1) dr distinct_drop [of L j] by auto
    moreover have "pgaligned y" using y(1) L(2) in_set_dropD by metis
    ultimately have "pg x \<noteq> pg (L ! j)" using y(2) v pgaligned_eq_pg by metis
    then show "memset (mem u) (L ! j) 0 PGSIZE x = mem (kalloc_state (drop j L) u) x"
      by (simp add: memset_page [OF v] kalloc_state_def)
  qed
  then have fp: "free_pages u' (drop (Suc j) L)" by (simp add: u'_def)
  have "(map V2P (take j L) @ drop j (r_physicalAddr ?r))[j := V2P (L ! j)]
      = map V2P (take (Suc j) L) @ drop (Suc j) (r_physicalAddr ?r)"
    using j a(4) unfolding tk by (simp add: list_update_append Cons_nth_drop_Suc [symmetric])
  then have "allRegions u' = (allRegions a)[i := ?r\<lparr>r_physicalAddr :=
      map V2P (take (Suc j) L) @ drop (Suc j) (r_physicalAddr ?r)\<rparr>]"
    using a(3) by (simp add: u'_def R)
  then show ?thesis using fr fp mem j by (simp add: allocated_def)
qed

lemma klog_sframe [simp]: "sframe s (u\<lparr>klog := k\<rparr>) = sframe s u"
proof -
  have "(u\<lparr>klog := k\<rparr>)\<lparr>allRegions := R\<rparr> = (u\<lparr>allRegions := R\<rparr>)\<lparr>klog := k\<rparr>" for R by simp
  then show ?thesis by (simp only: sframe_def klog_frame)
qed

definition exhausted :: "nat \<Rightarrow> u32 list \<Rightarrow> 'x shmst_scheme \<Rightarrow> 'x shmst_scheme \<Rightarrow> bool" where
  "exhausted i L s u \<longleftrightarrow>
     sframe s u \<and> free_pages u []
       \<and> allRegions u = (allRegions s)[i := (allRegions s ! i)
           \<lparr>r_physicalAddr := map V2P L @ drop (length L) (r_physicalAddr (allRegions s ! i))\<rparr>]
       \<and> mem u = (\<lambda>x. if pg x \<in> pg ` set L then 0 else mem s x)"

text \<open>
  The loop with enough pages ends in a state where all of them are allocated; with too few it has
  taken every page when it gives up.
\<close>

lemma shmget_alloc_loop:
  assumes s: "can_lock LShm s" "kmem_ready s" "free_pages s L" "i < length (allRegions s)" "i < 64"
      "length (r_physicalAddr (allRegions s ! i)) = 64" "n \<le> 64"
  shows "wpe (for_loop 0 n (shmget_alloc (int i))) nofault (\<lambda>r u.
    case r of
      None \<Rightarrow> n \<le> length L \<and> allocated i L (acquired LShm s) n u
    | Some v \<Rightarrow> v = -1 \<and> length L < n \<and>
        exhausted i L s u) (acquired LShm s)"
proof (rule wpe_for_loop [where I = "\<lambda>j u. allocated i L (acquired LShm s) j u"])
  let ?a = "acquired LShm s"
  have fa: "free_pages ?a L" using s(3) by (simp add: free_pages_def page_ok_def)
  then show "allocated i L ?a 0 ?a"
    using s by (simp add: allocated_def)
  have a: "kmem_ready ?a" "cpu_ok ?a"
    using s(1,2) in_lock_acquired [OF s(1)] by (simp_all add: kmem_ready_acquired in_lock_def)
  fix j u
  assume j: "0 \<le> j" "j < 0 + n" and al: "allocated i L ?a j u"
  have f: "sframe ?a u" "free_pages u (drop j L)" "length (allRegions u) = length (allRegions s)"
    using al by (simp_all add: allocated_def)
  have rdy: "kmem_ready u" using kmem_ready_sframe [OF f(1) a] .
  note alloc = kmem_wpe [OF rdy f(2)]
  show "wpe (shmget_alloc (int i) j) nofault (\<lambda>r. case r of
      None \<Rightarrow> allocated i L ?a (Suc j)
    | Some v \<Rightarrow> \<lambda>u. case Some v of
        None \<Rightarrow> n \<le> length L \<and> allocated i L (acquired LShm s) n u
      | Some v \<Rightarrow> v = -1 \<and> length L < n \<and>
          exhausted i L s u) u"
  proof (cases "j < length L")
    case True
    then have h: "head0 (drop j L) = L ! j" by (simp add: head0_def Cons_nth_drop_Suc [symmetric])
    moreover have "L ! j \<noteq> 0" using True s(3) by (auto simp: free_pages_def page_ok_def)
    ultimately show ?thesis
      using allocated_step [OF al True a] s(4-7) j free_pages_drop [OF s(3)] f(3)
      by (simp add: shmget_alloc_def wpe_bnd alloc wpe_sq wpe_kmemset upd_region_def wpe_modify wpe_ret
          kalloc_state_def)
  next
    case False
    then have jl: "j = length L" using al by (simp add: allocated_def)
    let ?t = "kalloc_state [] u"
    let ?t' = "?t\<lparr>klog := klog ?t @ [(''shmget: failed to allocate a page (out of memory)\<newline>'', [])]\<rparr>"
    have t: "sframe u ?t" using kframe_sframe [OF kframe_states(1) [OF rdy, of "[]"]] .
    then have t': "sframe ?a ?t'" using f(1) sframe_trans by auto
    have "leave (Some (-1 :: int)) ?t' = Inr (Some (-1), released LShm ?t')"
      using leave_eq [OF s(1) t'] .
    moreover have "free_pages ?t []"
      using free_pages_kalloc [OF f(2)] jl by (simp add: kalloc_state_def)
    then have "free_pages (released LShm ?t') []" by (simp add: free_pages_def page_ok_def)
    then have "exhausted i L s (released LShm ?t')"
      using sframe_section(2) [OF s(1) t'] al jl by (simp add: exhausted_def allocated_def kalloc_state_def cong: if_cong)
    ultimately show ?thesis
      using False jl al alloc j
      by (auto simp: shmget_alloc_def wpe_bnd head0_def wpe_sq cprintf_def cprintfa_def wpe_modify
          wpe_def [of "leave v" for v])
  qed
next
  fix u
  assume "allocated i L (acquired LShm s) (0 + n) u"
  then show "case None of None \<Rightarrow> n \<le> length L \<and> allocated i L (acquired LShm s) n u
    | Some v \<Rightarrow> v = -1 \<and> length L < n \<and>
        exhausted i L s u"
    by (simp add: allocated_def)
qed

definition filled :: "u32 \<Rightarrow> u32 \<Rightarrow> nat \<Rightarrow> int \<Rightarrow> int \<Rightarrow> nat \<Rightarrow> shmRegion \<Rightarrow> shmRegion" where
  "filled key sz n permission pid i r =
     r\<lparr>r_size := of_nat n, r_key := key,
       r_buffer := (r_buffer r)\<lparr>shm_segsz := sz, shm_perm := \<lparr>ip_key = key, ip_mode = permission\<rparr>,
         shm_cpid := pid\<rparr>,
       r_shmid := int i\<rparr>"

lemma shmget_fill_eq:
  assumes s: "can_lock LShm s" "c_proc (cur_cpu s) = Some p" and u: "sframe (acquired LShm s) u"
    and i: "i < length (allRegions u)" "i < 64"
  shows "shmget_fill key sz n permission (int i) u = Inr (int i, released LShm
    (u\<lparr>allRegions := (allRegions u)[i := filled key sz n permission (p_pid (ptable s ! p)) i (allRegions u ! i)]\<rparr>))"
proof -
  let ?a = "acquired LShm s"
  have a: "cpu_ok ?a" "0 < c_ncli (cur_cpu ?a)" "c_proc (cur_cpu ?a) = Some p"
    using in_lock_acquired [OF s(1)] s by (simp_all add: in_lock_def can_lock_def cur_cpu_pushed)
  note c = sframe_cpu [OF u a(1)]
  have pt: "ptable u = ptable s" using sframe_fields(1) [OF u] by simp
  have cur: "curproc (u\<lparr>allRegions := R\<rparr>) = Inr (p, u\<lparr>allRegions := R\<rparr>)" for R
    using c a polled_id [of "u\<lparr>allRegions := R\<rparr>"]
    by (simp add: curproc_def bnd_def myproc_eq nonnull_def ret_def)
  have "leave v (u\<lparr>allRegions := R\<rparr>) = Inr (v, released LShm (u\<lparr>allRegions := R\<rparr>))" for R and v :: int
    using u by (intro leave_eq [OF s(1)]) simp
  then show ?thesis
    using i cur
    by (simp add: shmget_fill_def upd_region_def upd_buffer_def sq_def bnd_def modify_def get_proc_def
        gets_def pt filled_def)
qed

definition shm_ready :: "'x shmst_scheme \<Rightarrow> u32 list \<Rightarrow> nat \<Rightarrow> bool" where
  "shm_ready s L p \<longleftrightarrow> can_lock LShm s \<and> kmem_ready s \<and> free_pages s L \<and> table_ok (allRegions s)
     \<and> c_proc (cur_cpu s) = Some p"

lemma shmget_plan_Create:
  assumes "shmget_plan key sz fl R = Create i n permission"
  shows "i < 64" "r_key (R ! i) = -1" "1 \<le> n" "n \<le> 64" "n = unat (sz div PGSIZE) + 1"
    "\<And>j. j < 64 \<Longrightarrow> r_key (R ! j) \<noteq> key"
    "shmget_flags key fl = Some (permission, fl') \<Longrightarrow>
       key = IPC_PRIVATE \<or> fl' = IPC_CREAT \<or> fl' = IPC_CREAT OR IPC_EXCL"
  using assms
  by (auto simp: shmget_plan_def Let_def first_index_Some first_index_None
      split: option.splits prod.splits if_splits)

lemma shmget_to_create:
  assumes "can_lock LShm s" "shmget_plan key sz fl (allRegions s) = Create i n permission"
  shows "shmget key sz fl s =
    bnd (for_loop 0 n (shmget_alloc (int i))) (\<lambda>r.
      case r of Some v \<Rightarrow> ret v | None \<Rightarrow> shmget_fill key sz n permission (int i)) (acquired LShm s)"
proof -
  have acq: "acquire LShm s = Inr ((), acquired LShm s)"
    using assms by (simp add: acquire_eq can_lock_def)
  show ?thesis
    using assms(2)
    by (auto simp: shmget_plan_def shmget_def sq_def bnd_def [of "acquire LShm"]
        bnd_def [of "for_loop 0 64 f" for f] bnd_def [of "gets f" for f] acq
        shmget_lookup_eq [OF assms(1)] Let_def gets_def ret_def
        shmget_create_def split: option.splits prod.splits if_splits)
qed

lemma shmget_create_spec:
  assumes r: "shm_ready s L p" and pl: "shmget_plan key sz fl (allRegions s) = Create i n permission"
  shows "wpe (shmget key sz fl) nofault (\<lambda>v s'.
    if n \<le> length L then
      v = int i \<and> sframe s s' \<and> free_pages s' (drop n L)
      \<and> allRegions s' = (allRegions s)[i := filled key sz n permission (p_pid (ptable s ! p)) i
          ((allRegions s ! i)\<lparr>r_physicalAddr :=
             map V2P (take n L) @ drop n (r_physicalAddr (allRegions s ! i))\<rparr>)]
      \<and> mem s' = (\<lambda>x. if pg x \<in> pg ` set (take n L) then 0 else mem s x)
    else v = -1 \<and> exhausted i L s s') s"
proof -
  have s: "can_lock LShm s" "kmem_ready s" "free_pages s L" "c_proc (cur_cpu s) = Some p"
    "table_ok (allRegions s)" using r by (simp_all add: shm_ready_def)
  note P = shmget_plan_Create [OF pl]
  have i: "i < length (allRegions s)" "length (r_physicalAddr (allRegions s ! i)) = 64"
    using table_okD(1,2) [OF s(5)] P(1) by (auto simp: region_ok_def)
  have fill: "wpe (shmget_fill key sz n permission (int i)) nofault (\<lambda>v s'.
      v = int i \<and> sframe s s' \<and> free_pages s' (drop n L)
      \<and> allRegions s' = (allRegions s)[i := filled key sz n permission (p_pid (ptable s ! p)) i
          ((allRegions s ! i)\<lparr>r_physicalAddr :=
             map V2P (take n L) @ drop n (r_physicalAddr (allRegions s ! i))\<rparr>)]
      \<and> mem s' = (\<lambda>x. if pg x \<in> pg ` set (take n L) then 0 else mem s x)) u"
    if u: "allocated i L (acquired LShm s) n u" for u
  proof -
    have f: "sframe (acquired LShm s) u" "i < length (allRegions u)"
      using u i by (simp_all add: allocated_def)
    have fp: "free_pages (released LShm u) (drop n L)"
      using u by (simp add: allocated_def)
    show ?thesis
      using u i(1) sframe_section(2) [OF s(1) f(1)] fp
      by (simp add: wpe_def shmget_fill_eq [OF s(1,4) f P(1)] allocated_def cong: if_cong)
  qed
  show ?thesis
    unfolding wpe_def [of "shmget key sz fl"] shmget_to_create [OF s(1) pl]
    unfolding wpe_def [symmetric] wpe_bnd
    by (rule wpe_mono [OF shmget_alloc_loop [OF s(1-3) i(1) P(1) i(2) P(4)]])
      (use fill in \<open>auto simp: wpe_ret split: option.splits elim: wpe_mono\<close>)
qed

section \<open>shmget keeps the table invariant\<close>

lemma filled_used:
  assumes "n = unat (sz div PGSIZE) + 1" "n \<le> 64" "key \<noteq> -1" "permission = READ_SHM \<or> permission = RW_SHM"
    "length (r_physicalAddr r) = 64" "0 \<le> shm_nattch (r_buffer r)" "r_toBeDeleted r = 0"
  shows "region_ok i (filled key sz n permission pid i r)"
proof -
  have "of_nat n = sz div PGSIZE + 1" using assms(1) by simp
  moreover have u: "unat (of_nat n :: u32) = n" using assms(2) by (intro unat_of_nat_small) simp
  have "1 \<le> (of_nat n :: u32)" "(of_nat n :: u32) \<le> 64"
    unfolding word_le_nat_alt u using assms(1,2) by simp_all
  ultimately show ?thesis
    using assms by (simp add: region_ok_def region_used_def filled_def)
qed

lemma shmget_flags_perm:
  assumes "shmget_flags key fl = Some (permission, fl')"
    "key = IPC_PRIVATE \<or> fl' = IPC_CREAT \<or> fl' = IPC_CREAT OR IPC_EXCL"
  shows "permission = READ_SHM \<or> permission = RW_SHM"
  using assms by (auto simp: shmget_flags_def Let_def split: if_splits)

lemma shmget_fill_keeps:
  assumes "allRegions u = R[i := r]" "table_ok R" "i < 64" "r_key (R ! i) = -1"
    "\<forall>j < 64. r_key (R ! j) \<noteq> key" "r = (R ! i)\<lparr>r_physicalAddr := ps\<rparr>" "length ps = 64"
    "n = unat (sz div PGSIZE) + 1" "n \<le> 64" "permission = READ_SHM \<or> permission = RW_SHM"
  shows "wpe (shmget_fill key sz n permission (int i)) anyfault (\<lambda>_ s'. table_ok (allRegions s')) u"
proof -
  have R: "length R = 64" "region_ok i (R ! i)" using table_okD [OF assms(2)] assms(3) by auto
  then have fr: "region_free (R ! i)" using assms(4) region_key_free by blast
  have "key \<noteq> -1" using assms(3-5) by metis
  then have "region_ok i (filled key sz n permission pid i r)" for pid
    using assms fr R by (intro filled_used) (auto simp: region_free_def region_ok_def)
  then have ok: "table_ok (R[i := filled key sz n permission pid i r])" for pid
    using assms(5) by (intro table_ok_upd [OF assms(2)]) (auto simp: filled_def)
  have tail: "wpe (leave (int i)) anyfault (\<lambda>_ s'. table_ok (allRegions s')) u'"
    if "allRegions u' = R[i := filled key sz n permission pid i r]" for pid and u' :: "'a shmst_scheme"
    using that ok by (intro keeps_wpe [OF keeps_regions_more(5)]) simp
  have cur: "wpe curproc anyfault (\<lambda>p. wpe (bnd (get_proc p) (\<lambda>q.
      sq (upd_buffer (int i) (\<lambda>b. b\<lparr>shm_cpid := p_pid q\<rparr>)) (
      sq (upd_region (int i) (\<lambda>r. r\<lparr>r_shmid := int i\<rparr>)) (leave (int i)))))
      anyfault (\<lambda>_ s'. table_ok (allRegions s'))) u'"
    if u': "allRegions u' = R[i := r\<lparr>r_size := of_nat n, r_key := key, r_buffer := (r_buffer r)
      \<lparr>shm_segsz := sz, shm_perm := \<lparr>ip_key = key, ip_mode = permission\<rparr>\<rparr>\<rparr>]" for u' :: "'a shmst_scheme"
    by (rule keeps_wpe [OF keeps_pages(4) [THEN keeps_regions]])
      (use assms(3) R(1) u' in \<open>simp add: wpe_bnd wpe_procs wpe_sq upd_buffer_def wpe_region tail filled_def\<close>)
  show ?thesis
    unfolding shmget_fill_def wpe_sq wpe_bnd [of curproc]
    using assms(1,3) R(1) by (simp add: upd_buffer_def wpe_region) (rule cur [unfolded upd_buffer_def], simp)
qed

lemma shmget_alloc_keeps:
  fixes u :: "'x shmst_scheme"
  assumes "allRegions u = R[i := (R ! i)\<lparr>r_physicalAddr := ps\<rparr>]" "i < 64" "length R = 64" "length ps = 64"
  shows "wpe (shmget_alloc (int i) j) anyfault (\<lambda>r u'. \<exists>ps'. length ps' = 64
    \<and> allRegions u' = R[i := (R ! i)\<lparr>r_physicalAddr := ps'\<rparr>]) u"
proof -
  have same: "\<exists>ps'. length ps' = 64 \<and> allRegions u' = R[i := (R ! i)\<lparr>r_physicalAddr := ps'\<rparr>]"
    if "allRegions u' = R[i := (R ! i)\<lparr>r_physicalAddr := qs\<rparr>]" "length qs = 64"
    for u' :: "'x shmst_scheme" and qs using that by blast
  have fl: "keeps allRegions (sq (cprintf msg) (leave v) :: ('x shmst_scheme, int option) kmon)" for msg v
    by (intro kp)
  show ?thesis
    unfolding shmget_alloc_def wpe_bnd
  proof (rule keeps_wpe [OF keeps_pages(1) [THEN keeps_regions]])
    fix v and u' :: "'x shmst_scheme"
    assume u': "allRegions u' = allRegions u"
    have fail: "wpe (sq (cprintf ''shmget: failed to allocate a page (out of memory)\<newline>'')
        (leave (Some (-1 :: int)))) anyfault (\<lambda>r u'. \<exists>ps'. length ps' = 64
      \<and> allRegions u' = R[i := (R ! i)\<lparr>r_physicalAddr := ps'\<rparr>]) u'"
      by (rule keeps_wpe [OF fl]) (use u' assms in \<open>auto intro: same\<close>)
    show "wpe (if v = 0 then
        sq (cprintf ''shmget: failed to allocate a page (out of memory)\<newline>'') (leave (Some (-1 :: int)))
      else sq (kmemset v 0 PGSIZE) (
       sq (upd_region (int i) (\<lambda>r. r\<lparr>r_physicalAddr := (r_physicalAddr r)[j := V2P v]\<rparr>))
          (ret None))) anyfault (\<lambda>r u'. \<exists>ps'. length ps' = 64
      \<and> allRegions u' = R[i := (R ! i)\<lparr>r_physicalAddr := ps'\<rparr>]) u'"
    proof (cases "v = 0")
      case True
      then show ?thesis using fail by simp
    next
      case False
      then show ?thesis
        using u' assms by (auto simp: wpe_sq wpe_kmemset wpe_region wpe_ret
          intro!: exI [of _ "ps[j := V2P v]"])
    qed
  qed
qed

lemma shmget_lookup_keeps:
  fixes s :: "'x shmst_scheme"
  shows "wpe (for_loop 0 64 (shmget_lookup key n fl)) anyfault
    (\<lambda>r u. allRegions u = allRegions s \<and> (r = None \<longrightarrow> (\<forall>j < 64. r_key (allRegions s ! j) \<noteq> key))) s"
proof (rule wpe_for_loop [where I = "\<lambda>i u. allRegions u = allRegions s \<and> (\<forall>j < i. r_key (allRegions s ! j) \<noteq> key)"])
  fix j and u :: "'x shmst_scheme"
  assume j: "0 \<le> j" "j < 0 + 64" and u: "allRegions u = allRegions s \<and> (\<forall>i < j. r_key (allRegions s ! i) \<noteq> key)"
  have lv: "keeps allRegions (leave v)" "keeps allRegions (sq (release LShm) (bnd (get_region (int j))
      (\<lambda>r. ret (Some (r_shmid r)))))" for v :: "int option" by (intro kp)+
  have tail: "wpe m anyfault (\<lambda>r. case r of None \<Rightarrow> \<lambda>u. allRegions u = allRegions s \<and> (\<forall>i < Suc j. r_key (allRegions s ! i) \<noteq> key)
      | Some v \<Rightarrow> \<lambda>u. allRegions u = allRegions s \<and> (Some v = None \<longrightarrow> (\<forall>j < 64. r_key (allRegions s ! j) \<noteq> key))) u"
    if "keeps allRegions m" "\<And>s'. wpe m anyfault (\<lambda>r _. r \<noteq> None) s'" for m :: "('x shmst_scheme, int option) kmon"
    using wpe_keeps [OF that(1) that(2) [of u]] u by (elim wpe_mono) (auto split: option.splits)
  have some: "wpe (leave (Some v)) anyfault (\<lambda>r _. r \<noteq> None) s'"
    "wpe (sq (release LShm) (bnd (get_region (int j)) (\<lambda>r. ret (Some (r_shmid r))))) anyfault (\<lambda>r _. r \<noteq> None) s'"
    for v :: int and s' :: "'x shmst_scheme"
    by (auto simp: leave_def wpe_sq wpe_ret wpe_bnd wpe_region intro: wpeI)
  show "wpe (shmget_lookup key n fl j) anyfault
      (\<lambda>r. case r of None \<Rightarrow> \<lambda>u. allRegions u = allRegions s \<and> (\<forall>i < Suc j. r_key (allRegions s ! i) \<noteq> key)
      | Some v \<Rightarrow> \<lambda>u. allRegions u = allRegions s \<and> (Some v = None \<longrightarrow> (\<forall>j < 64. r_key (allRegions s ! j) \<noteq> key))) u"
    unfolding shmget_lookup_def wpe_bnd wpe_region
    using j u tail [OF lv(1) some(1)] tail [OF lv(2) some(2)]
    by (auto simp: wpe_ret Let_def less_Suc_eq)
qed auto

lemma shmget_create_keeps:
  fixes u :: "'x shmst_scheme"
  assumes u: "allRegions u = R" "table_ok R" "\<forall>j < 64. r_key (R ! j) \<noteq> key"
    and i: "first_index (\<lambda>i. r_key (R ! i) = -1) 64 = Some i"
    and fl: "shmget_flags key fl0 = Some (permission, fl)"
    and n: "n = unat (sz div PGSIZE) + 1" "n \<le> 64"
  shows "wpe (shmget_create key sz n permission fl (int i)) anyfault (\<lambda>_ s'. table_ok (allRegions s')) u"
proof (cases "key = IPC_PRIVATE \<or> fl = IPC_CREAT \<or> fl = IPC_CREAT OR IPC_EXCL")
  case True
  have I: "i < 64" "r_key (R ! i) = -1" using i by (simp_all add: first_index_Some)
  have R: "length R = 64" "region_ok i (R ! i)" using table_okD [OF u(2)] I(1) by auto
  let ?I = "\<lambda>u :: 'x shmst_scheme. \<exists>ps. length ps = 64 \<and> allRegions u = R[i := (R ! i)\<lparr>r_physicalAddr := ps\<rparr>]"
  have ok: "table_ok (allRegions v)" if "?I v" for v
    using that R I by (auto intro!: table_ok_region [OF u(2)] simp: region_ok_def region_free_def region_used_def)
  have "allRegions u = R[i := (R ! i)\<lparr>r_physicalAddr := r_physicalAddr (R ! i)\<rparr>]" using u(1) by simp
  then have start: "?I u" using R(2) unfolding region_ok_def by blast
  have "wpe (for_loop 0 n (shmget_alloc (int i))) anyfault (\<lambda>_. ?I) u"
  proof (rule wpe_for_loop [where I = "\<lambda>_. ?I"])
    fix j and v :: "'x shmst_scheme"
    assume "?I v"
    then obtain ps where ps: "length ps = 64" "allRegions v = R[i := (R ! i)\<lparr>r_physicalAddr := ps\<rparr>]" by blast
    show "wpe (shmget_alloc (int i) j) anyfault
        (\<lambda>r. case r of None \<Rightarrow> ?I | Some w \<Rightarrow> ?I) v"
      using shmget_alloc_keeps [OF ps(2) I(1) R(1) ps(1)] by (rule wpe_mono) (auto split: option.splits)
  qed (use start in auto)
  then show ?thesis
    unfolding shmget_create_def if_P [OF True] wpe_bnd
  proof (rule wpe_mono)
    fix r and v :: "'x shmst_scheme"
    assume v: "?I v"
    then obtain ps where ps: "length ps = 64" "allRegions v = R[i := (R ! i)\<lparr>r_physicalAddr := ps\<rparr>]" by blast
    show "wpe (case r of Some v \<Rightarrow> ret v | None \<Rightarrow> shmget_fill key sz n permission (int i))
        anyfault (\<lambda>_ s'. table_ok (allRegions s')) v"
      using shmget_fill_keeps [OF ps(2) u(2) I u(3) refl ps(1) n shmget_flags_perm [OF fl True]] ok [OF v]
      by (cases r) (simp_all add: wpe_ret)
  qed simp
next
  case False
  have "stable anyfault (\<lambda>s. table_ok (allRegions s)) (leave (-1) :: ('x shmst_scheme, int) kmon)" by (intro st)
  then show ?thesis using u False by (simp add: shmget_create_def stable_def)
qed

lemma stable_shmget [st]:
  "stable anyfault (\<lambda>s. table_ok (allRegions s)) (shmget key sz fl :: ('x shmst_scheme, int) kmon)"
  unfolding stable_def
proof (intro allI impI)
  fix s :: "'x shmst_scheme"
  assume ok: "table_ok (allRegions s)"
  let ?Q = "\<lambda>_ (s' :: 'x shmst_scheme). table_ok (allRegions s')"
  have lv: "wpe (leave v) anyfault ?Q u" if "allRegions u = allRegions s" for v :: int and u
    using that ok by (intro keeps_wpe [OF keeps_regions_more(5)]) simp
  show "wpe (shmget key sz fl) anyfault ?Q s"
    unfolding shmget_def wpe_sq
  proof (rule keeps_wpe [OF keeps_locking(4) [THEN keeps_regions]])
    fix u :: "'x shmst_scheme"
    assume u: "allRegions u = allRegions s"
    let ?n = "unat (sz div PGSIZE) + 1"
    have go: "wpe (bnd (for_loop 0 SHAREDREGIONS (shmget_lookup key ?n fl')) (\<lambda>r.
             case r of
               Some v \<Rightarrow> ret v
             | None \<Rightarrow>
                 bnd (gets (\<lambda>s. first_index (\<lambda>i. r_key (allRegions s ! i) = -1) SHAREDREGIONS)) (\<lambda>free.
                 case free of
                   None \<Rightarrow> leave (-1)
                 | Some i \<Rightarrow> shmget_create key sz ?n permission fl' (int i)))) anyfault ?Q u"
      if f: "shmget_flags key fl = Some (permission, fl')" and n: "\<not> 64 < ?n" for permission fl'
      unfolding wpe_bnd
    proof (rule wpe_mono [OF shmget_lookup_keeps])
      fix r :: "int option" and v :: "'x shmst_scheme"
      assume v: "allRegions v = allRegions u \<and> (r = None \<longrightarrow> (\<forall>j < 64. r_key (allRegions u ! j) \<noteq> key))"
      show "wpe (case r of Some v \<Rightarrow> ret v
          | None \<Rightarrow> bnd (gets (\<lambda>s. first_index (\<lambda>i. r_key (allRegions s ! i) = -1) SHAREDREGIONS)) (\<lambda>free.
              case free of None \<Rightarrow> leave (-1)
              | Some i \<Rightarrow> shmget_create key sz ?n permission fl' (int i))) anyfault ?Q v"
        using u v ok lv [of v] shmget_create_keeps [of v "allRegions s" key _ fl permission fl' ?n sz, OF _ ok _ _ f refl] n
        by (cases r) (auto simp: wpe_ret wpe_bnd wpe_gets split: option.splits)
    qed simp
    show "wpe (case shmget_flags key fl of
       None \<Rightarrow> leave (-1)
     | Some (permission, shmflag) \<Rightarrow>
         if sz = 0 then leave (-1)
         else
           let noOfPages = ?n in
           if SHAREDREGIONS < noOfPages then leave (-1)
           else
             bnd (for_loop 0 SHAREDREGIONS (shmget_lookup key noOfPages shmflag)) (\<lambda>r.
             case r of
               Some v \<Rightarrow> ret v
             | None \<Rightarrow>
                 bnd (gets (\<lambda>s. first_index (\<lambda>i. r_key (allRegions s ! i) = -1) SHAREDREGIONS)) (\<lambda>free.
                 case free of
                   None \<Rightarrow> leave (-1)
                 | Some i \<Rightarrow> shmget_create key sz noOfPages permission shmflag (int i)))) anyfault ?Q u"
      using lv [OF u] go unfolding Let_def by (auto split: option.splits)
  qed
qed

end
