(* ===== verification/Shmspec.thy ===== *)
theory Shmspec
  imports Shm
begin

text \<open>
  What \<open>shmat\<close>, \<open>shmdt\<close> and the removal of a region do to the page table of the process, to its slots,
  to the table of regions and to the free list, the initialisation of the table, and the properties of
  the shared-memory calls.
\<close>

section \<open>Attaching\<close>

text \<open>The page table after mapping the physical pages \<open>ps\<close> one after the other from \<open>va\<close>.\<close>

definition map_list :: "(u32 \<Rightarrow> u32) \<Rightarrow> u32 \<Rightarrow> u32 list \<Rightarrow> u32 \<Rightarrow> (u32 \<Rightarrow> u32)" where
  "map_list f va ps perm =
     (\<lambda>v. if pg va \<le> pg v \<and> pg v < pg va + length ps then ps ! (pg v - pg va) OR perm OR PTE_P else f v)"

lemma map_list_Nil [simp]: "map_list f va [] perm = f"
  by (auto simp: map_list_def fun_eq_iff)

lemma map_list_snoc:
  assumes "pg a = pg va + length ps"
  shows "map_range (map_list f va ps perm) a 1 p perm = map_list f va (ps @ [p]) perm"
proof
  fix v
  show "map_range (map_list f va ps perm) a 1 p perm v = map_list f va (ps @ [p]) perm v"
    using assms by (cases "pg v = pg a") (auto simp: map_range_def map_list_def nth_append)
qed

lemma page_step:
  assumes "pgaligned va" "unat va + 4096 * n \<le> 4294967296" "k < n"
  shows "unat (va + of_nat k * PGSIZE) = unat va + 4096 * k" "pg (va + of_nat k * PGSIZE) = pg va + k"
    "page_count (va + of_nat k * PGSIZE) PGSIZE = 1"
    "unat (va + of_nat k * PGSIZE) + unat (PGSIZE) \<le> 4294967296"
proof -
  have k: "4096 * k < 4294967296" using assms by simp
  have "unat (of_nat k * PGSIZE :: u32) = 4096 * k"
    using k by (simp add: unat_word_ariths unat_of_nat_small)
  then show u: "unat (va + of_nat k * PGSIZE) = unat va + 4096 * k"
    using assms by (simp add: unat_word_ariths)
  show p: "pg (va + of_nat k * PGSIZE) = pg va + k" unfolding pg_def u by simp
  show "unat (va + of_nat k * PGSIZE) + unat (PGSIZE) \<le> 4294967296" using u assms by simp
  obtain j where j: "unat va = 4096 * j" using assms(1) by (rule pgalignedE)
  have "unat (va + of_nat k * PGSIZE + PGSIZE - 1) = unat va + 4096 * k + 4095"
    using u assms by (simp add: unat_word_ariths add_diff_eq [symmetric])
  then have "pg (va + of_nat k * PGSIZE + PGSIZE - 1) = pg va + k" by (simp add: pg_def j)
  then show "page_count (va + of_nat k * PGSIZE) PGSIZE = 1" by (simp add: page_count_def p)
qed

lemma attach_page:
  assumes inv: "vm_inv u d L'" and va: "pgaligned va" "unat va + 4096 * n \<le> 4294967296" "k < n"
    and f: "pte (mem u) d = map_list f va ps perm" "length ps = k" "\<not> range_mapped f va n"
  shows "wpe (mappages d (va + of_nat k * PGSIZE) PGSIZE p perm) nofault (\<lambda>r u'.
    \<exists>L''. vm_inv u' d L'' \<and> pt_step d u L' u' L''
      \<and> (r = 0 \<and> length L' \<le> Suc (length L'') \<and> pte (mem u') d = map_list f va (ps @ [p]) perm
         \<or> r = -1 \<and> L' = [] \<and> L'' = [] \<and> pte (mem u') d = map_list f va ps perm)) u"
proof -
  let ?a = "va + of_nat k * PGSIZE"
  note a = page_step [OF va]
  have nm: "\<not> range_mapped (pte (mem u) d) ?a 1"
  proof
    assume "range_mapped (pte (mem u) d) ?a 1"
    then obtain w where w: "pg w = pg va + k" "pte (mem u) d w AND PTE_P \<noteq> 0"
      unfolding range_mapped_def a(2) by (metis Suc_eq_plus1 le_antisym less_Suc_eq_le)
    then have "f w AND PTE_P \<noteq> 0" using f(1,2) by (simp add: map_list_def)
    then show False using w(1) va(3) f(3) unfolding range_mapped_def by force
  qed
  have "wpe (mappages d ?a PGSIZE p perm) nofault (map_outcome d L' ?a 1 p perm u) u"
    using mappages_spec [OF inv, of PGSIZE ?a p perm] a nm by simp
  then show ?thesis
  proof (rule wpe_mono)
    fix r u'
    assume o: "map_outcome d L' ?a 1 p perm u r u'"
    have "map_range (pte (mem u) d) ?a 1 p perm = map_list f va (ps @ [p]) perm"
      unfolding f(1) using f(2) a(2) by (intro map_list_snoc) simp
    with o show "\<exists>L''. vm_inv u' d L'' \<and> pt_step d u L' u' L''
      \<and> (r = 0 \<and> length L' \<le> Suc (length L'') \<and> pte (mem u') d = map_list f va (ps @ [p]) perm
         \<or> r = -1 \<and> L' = [] \<and> L'' = [] \<and> pte (mem u') d = map_list f va ps perm)"
      unfolding map_outcome_def f(1) by auto
  qed simp
qed

text \<open>
  The mapping loop of \<open>shmat\<close> maps the pages of the region in order; when memory for a page table runs
  out it stops, and leaves the pages it has mapped so far in place (the \<open>deallocuvm\<close> of the error path
  is called with a range that is not empty at its upper end only, and returns at once).
\<close>

definition attach_outcome ::
    "u32 \<Rightarrow> u32 list \<Rightarrow> u32 \<Rightarrow> u32 list \<Rightarrow> u32 \<Rightarrow> 'x shmst_scheme \<Rightarrow> bool \<Rightarrow> 'x shmst_scheme \<Rightarrow> bool" where
  "attach_outcome d L va ps perm s failed u \<longleftrightarrow> (\<exists>L'. vm_inv u d L' \<and> pt_step d s L u L'
     \<and> (\<not> failed \<and> pte (mem u) d = map_list (pte (mem s) d) va ps perm
        \<or> failed \<and> L' = []
          \<and> (\<exists>k < length ps. length L \<le> k
               \<and> pte (mem u) d = map_list (pte (mem s) d) va (take k ps) perm)))"

lemma attach_loop:
  fixes s :: "'x shmst_scheme"
  assumes inv: "vm_inv s d L" and va: "pgaligned va" "unat va + 4096 * n \<le> 2147483648"
    and r: "0 \<le> i" "i < 64" "allRegions s ! nat i = r" "r_size r = of_nat n" "n \<le> 64"
      "length (r_physicalAddr r) = 64"
    and nm: "\<not> range_mapped (pte (mem s) d) va n"
  shows "wpe (for_loop 0 n (map_region_page d va i perm)) nofault
    (\<lambda>f u. attach_outcome d L va (take n (r_physicalAddr r)) perm s (f \<noteq> None) u) s"
proof (rule wpe_for_loop [where I = "\<lambda>k u. \<exists>L'. vm_inv u d L' \<and> pt_step d s L u L' \<and> length L \<le> length L' + k
    \<and> pte (mem u) d = map_list (pte (mem s) d) va (take k (r_physicalAddr r)) perm"])
  let ?ps = "r_physicalAddr r" and ?f = "pte (mem s) d"
  show "\<exists>L'. vm_inv s d L' \<and> pt_step d s L s L' \<and> length L \<le> length L' + 0
      \<and> pte (mem s) d = map_list ?f va (take 0 ?ps) perm"
    using inv by (intro exI [of _ L]) simp
  fix k and u :: "'x shmst_scheme"
  assume k: "0 \<le> k" "k < 0 + n" and "\<exists>L'. vm_inv u d L' \<and> pt_step d s L u L' \<and> length L \<le> length L' + k
    \<and> pte (mem u) d = map_list ?f va (take k ?ps) perm"
  then obtain L' where u: "vm_inv u d L'" "pt_step d s L u L'"
    "pte (mem u) d = map_list ?f va (take k ?ps) perm" and len: "length L \<le> length L' + k" by blast
  have R: "allRegions u = allRegions s"
    using u(2) by (intro more_regions) (simp add: pt_step_def kframe_def)
  have kn: "k < n" "length (take k ?ps) = k" "take (Suc k) ?ps = take k ?ps @ [?ps ! k]"
    using k r(5,6) by (simp_all add: take_Suc_conv_app_nth)
  have vb: "unat va + 4096 * n \<le> 4294967296" using va(2) by simp
  have le: "va \<le> va + r_size r"
    using va(2) r(4,5) by (simp add: word_le_nat_alt unat_word_ariths unat_of_nat_small)
  note step = attach_page [OF u(1) va(1) vb kn(1) u(3) kn(2) nm, of "?ps ! k"]
  have "wpe (mappages d (va + of_nat k * PGSIZE) PGSIZE (?ps ! k) perm) nofault
      (\<lambda>v u'. if v < 0 then attach_outcome d L va (take n ?ps) perm s True u'
        else \<exists>L'. vm_inv u' d L' \<and> pt_step d s L u' L' \<and> length L \<le> length L' + Suc k
          \<and> pte (mem u') d = map_list ?f va (take (Suc k) ?ps) perm) u"
    using step
  proof (rule wpe_mono)
    fix v :: int and u' :: "'x shmst_scheme"
    assume "\<exists>L''. vm_inv u' d L'' \<and> pt_step d u L' u' L''
      \<and> (v = 0 \<and> length L' \<le> Suc (length L'')
           \<and> pte (mem u') d = map_list ?f va (take k ?ps @ [?ps ! k]) perm
         \<or> v = -1 \<and> L' = [] \<and> L'' = [] \<and> pte (mem u') d = map_list ?f va (take k ?ps) perm)"
    then obtain L'' where l: "vm_inv u' d L''" "pt_step d s L u' L''"
      and o: "v = 0 \<and> length L \<le> length L'' + Suc k
           \<and> pte (mem u') d = map_list ?f va (take (Suc k) ?ps) perm
         \<or> v = -1 \<and> length L \<le> k \<and> L'' = [] \<and> pte (mem u') d = map_list ?f va (take k ?ps) perm"
      unfolding kn(3) using pt_step_trans [OF u(2)] len by fastforce
    have "take k (take n ?ps) = take k ?ps" "k < length (take n ?ps)" using kn(1) r(5,6) by simp_all
    then show "if v < 0 then attach_outcome d L va (take n ?ps) perm s True u'
        else \<exists>L'. vm_inv u' d L' \<and> pt_step d s L u' L' \<and> length L \<le> length L' + Suc k
          \<and> pte (mem u') d = map_list ?f va (take (Suc k) ?ps) perm"
      unfolding attach_outcome_def using l o by (cases "v = 0") fastforce+
  qed simp
  then show "wpe (map_region_page d va i perm k) nofault
      (\<lambda>f. case f of None \<Rightarrow> \<lambda>u. \<exists>L'. vm_inv u d L' \<and> pt_step d s L u L' \<and> length L \<le> length L' + Suc k
          \<and> pte (mem u) d = map_list ?f va (take (Suc k) ?ps) perm
        | Some v \<Rightarrow> attach_outcome d L va (take n ?ps) perm s (Some v \<noteq> None)) u"
    unfolding map_region_page_def get_region_def
    using r(1-3) R le
    by (simp add: wpe_bnd wpe_gets) (erule wpe_mono,
        auto simp: deallocuvm_def wpe_sq wpe_ret split: if_splits)
next
  fix u :: "'x shmst_scheme"
  assume "\<exists>L'. vm_inv u d L' \<and> pt_step d s L u L' \<and> length L \<le> length L' + (0 + n)
    \<and> pte (mem u) d = map_list (pte (mem s) d) va (take (0 + n) (r_physicalAddr r)) perm"
  then show "attach_outcome d L va (take n (r_physicalAddr r)) perm s (None \<noteq> None) u"
    by (auto simp: attach_outcome_def)
qed

lemma vm_inv_upd [simp]:
  "vm_inv (s\<lparr>allRegions := R\<rparr>) d L = vm_inv s d L" "vm_inv (t\<lparr>ptable := pt\<rparr>) d L = vm_inv t d L"
  by (simp_all add: vm_inv_def pt_ok_def page_ok_def)

lemma vm_inv_acquired:
  assumes "vm_inv s d L" "can_lock l s" "l \<noteq> LKmem"
  shows "vm_inv (acquired l s) d L"
  using assms kmem_ready_acquired by (auto simp: vm_inv_def pt_ok_def page_ok_def)

lemma vm_inv_released:
  assumes "vm_inv s d L" "in_lock l s" "l \<noteq> LKmem"
  shows "vm_inv (released l s) d L"
proof -
  have "cpu_ok (released l s)" using assms(2) by (simp add: in_lock_def cpu_ok_released)
  then have "kmem_ready (released l s)"
    using assms by (auto simp: vm_inv_def kmem_ready_def can_lock_def)
  then show ?thesis using assms(1) by (simp add: vm_inv_def pt_ok_def page_ok_def)
qed

lemma leave_in_lock: "in_lock LShm t \<Longrightarrow> leave v t = Inr (v, released LShm t)"
  by (simp add: leave_def sq_def bnd_def release_eq in_lock_def ret_def)

text \<open>
  A request that \<open>shmat\<close> can serve without detaching anything: the identifier names a region in use,
  the address lies below \<open>KERNBASE\<close>, no segment of the process covers it, the range is not mapped, the
  permission is known and the process has a free slot.
\<close>

definition attachable ::
    "'x shmst_scheme \<Rightarrow> nat \<Rightarrow> int \<Rightarrow> u32 \<Rightarrow> int \<Rightarrow> u32 \<Rightarrow> u32 \<Rightarrow> nat \<Rightarrow> bool" where
  "attachable s p shmid shmaddr shmflag va perm idx \<longleftrightarrow>
     (let r = allRegions s ! nat shmid; q = ptable s ! p in
      0 \<le> shmid \<and> shmid < 64 \<and> r_shmid r \<noteq> -1
      \<and> shmat_addr (p_pages q) (r_size r) shmaddr shmflag = Some va
      \<and> pgaligned va \<and> unat va + 4096 * unat (r_size r) < 2147483648
      \<and> (\<forall>i < 64. let g = p_pages q ! i in sp_key g \<noteq> -1 \<longrightarrow>
           \<not> (sp_virtualAddr g \<le> va \<and> va < sp_virtualAddr g + sp_size g * PGSIZE))
      \<and> \<not> range_mapped (pte (mem s) (p_pgdir q)) va (unat (r_size r))
      \<and> shmat_perm r shmflag = Some perm
      \<and> first_index (\<lambda>i. sp_key (p_pages q ! i) = -1) 64 = Some idx)"

definition attached_slot :: "int \<Rightarrow> u32 \<Rightarrow> u32 \<Rightarrow> shmRegion \<Rightarrow> sharedPages \<Rightarrow> sharedPages" where
  "attached_slot shmid va perm r g = g\<lparr>sp_shmid := shmid, sp_virtualAddr := va, sp_key := r_key r,
     sp_size := r_size r, sp_perm := perm\<rparr>"

definition attached_region :: "int \<Rightarrow> shmRegion \<Rightarrow> shmRegion" where
  "attached_region pid r = r\<lparr>r_buffer := (r_buffer r)
     \<lparr>shm_nattch := shm_nattch (r_buffer r) + 1, shm_lpid := pid\<rparr>\<rparr>"

lemma shmat_to_attach:
  assumes r: "shm_ready s L p" and at: "attachable s p shmid shmaddr shmflag va perm idx"
  shows "shmat shmid shmaddr shmflag s = shmat_attach p shmid shmid va shmflag (acquired LShm s)"
proof -
  let ?a = "acquired LShm s" and ?r = "allRegions s ! nat shmid" and ?q = "ptable s ! p"
  have s: "can_lock LShm s" "table_ok (allRegions s)" "c_proc (cur_cpu s) = Some p"
    using r by (simp_all add: shm_ready_def)
  have A: "0 \<le> shmid" "shmid < 64" "r_shmid ?r \<noteq> -1"
      "shmat_addr (p_pages ?q) (r_size ?r) shmaddr shmflag = Some va"
      "unat va + 4096 * unat (r_size ?r) < 2147483648"
    using at by (simp_all add: attachable_def Let_def)
  have i: "r_shmid ?r = shmid" using used_index [OF s(2) A(1-3)] by simp
  have cur: "curproc ?a = Inr (p, ?a)"
    using in_lock_acquired [OF s(1)] s polled_id [of ?a]
    by (simp add: curproc_def bnd_def myproc_eq in_lock_def nonnull_def ret_def can_lock_def cur_cpu_pushed)
  have lt: "\<not> KERNBASE \<le> va + r_size ?r * PGSIZE"
  proof -
    have "unat (r_size ?r * PGSIZE) = 4096 * unat (r_size ?r)"
      using A(5) by (simp add: unat_word_ariths)
    then have "unat (va + r_size ?r * PGSIZE) = unat va + 4096 * unat (r_size ?r)"
      using A(5) by (simp add: unat_word_ariths)
    then show ?thesis using A(5) by (simp add: word_le_nat_alt)
  qed
  have none: "first_index (\<lambda>i. let g = p_pages ?q ! i in sp_key g \<noteq> -1
      \<and> va < sp_virtualAddr g + sp_size g * PGSIZE \<and> sp_virtualAddr g \<le> va) 64 = None"
    using at by (auto simp: attachable_def first_index_None Let_def)
  show ?thesis
    using A i lt none s(1) cur by (simp add: shmat_def run bnd_def [of curproc])
qed

text \<open>What the process, the region and the page table look like after \<open>shmat\<close>.\<close>

definition shmat_post ::
    "'x shmst_scheme \<Rightarrow> u32 list \<Rightarrow> nat \<Rightarrow> int \<Rightarrow> u32 \<Rightarrow> u32 \<Rightarrow> nat \<Rightarrow> u32 \<Rightarrow> 'x shmst_scheme \<Rightarrow> bool" where
  "shmat_post s L p shmid va perm idx v s' \<longleftrightarrow>
     (let q = ptable s ! p; d = p_pgdir q; r = allRegions s ! nat shmid;
          ps = take (unat (r_size r)) (r_physicalAddr r) in
      lockview s' = lockview s \<and> cpu_index s' = cpu_index s \<and> cpu_ok s'
      \<and> c_proc (cur_cpu s') = c_proc (cur_cpu s) \<and> kend s' = kend s
      \<and> (\<exists>L'. vm_inv s' d L' \<and> owned (mem s') d \<union> set L' = owned (mem s) d \<union> set L
          \<and> (\<forall>x. pg x \<notin> pg ` (owned (mem s) d \<union> set L) \<longrightarrow> mem s' x = mem s x)
          \<and> (v = va \<and> pte (mem s') d = map_list (pte (mem s) d) va ps perm
              \<and> ptable s' = (ptable s)[p := q\<lparr>p_pages :=
                   (p_pages q)[idx := attached_slot shmid va perm r (p_pages q ! idx)]\<rparr>]
              \<and> allRegions s' = (allRegions s)[nat shmid := attached_region (p_pid q) r]
             \<or> v = -1 \<and> L' = [] \<and> ptable s' = ptable s \<and> allRegions s' = allRegions s
              \<and> (\<exists>k < length ps. length L \<le> k \<and> pte (mem s') d = map_list (pte (mem s) d) va (take k ps) perm))))"

lemma lockview_cpu:
  assumes "can_lock l s" "kframe (acquired l s) t"
  shows "lockview (released l t) = lockview s" "cpu_index (released l t) = cpu_index s"
    "cpu_ok (released l t)" "c_proc (cur_cpu (released l t)) = c_proc (cur_cpu s)"
    "kend (released l t) = kend s"
proof -
  have k: "kframe s (released l t)" using kframe_section(2) [OF assms] .
  have ok: "cpu_ok s" using assms(1) by (simp add: can_lock_def)
  show "lockview (released l t) = lockview s" "kend (released l t) = kend s" using k by (simp_all add: kframe_def)
  show "cpu_index (released l t) = cpu_index s" "cpu_ok (released l t)"
    "c_proc (cur_cpu (released l t)) = c_proc (cur_cpu s)"
    using kframe_cpu [OF k ok] by simp_all
qed

lemma attach_finish:
  fixes s :: "'x shmst_scheme"
  assumes s: "can_lock LShm s" "0 \<le> shmid" "shmid < 64" "p < length (ptable s)"
    and q: "q = ptable s ! p" "r = allRegions s ! nat shmid"
      "first_index (\<lambda>i. sp_key (p_pages q ! i) = -1) 64 = Some idx"
    and o: "attach_outcome (p_pgdir q) L va (take (unat (r_size r)) (r_physicalAddr r)) perm
      (acquired LShm s) (f \<noteq> None) u"
  shows "wpe (case f of
           Some _ \<Rightarrow> leave (-1)
         | None \<Rightarrow>
             bnd (get_proc p) (\<lambda>q.
             case first_index (\<lambda>i. sp_key (p_pages q ! i) = -1) SHAREDREGIONS of
               None \<Rightarrow> leave (-1)
             | Some idx \<Rightarrow>
                 bnd (get_region shmid) (\<lambda>r.
                 sq (upd_slot p idx (\<lambda>g. g\<lparr>sp_shmid := shmid, sp_virtualAddr := va, sp_key := r_key r,
                       sp_size := r_size r, sp_perm := perm\<rparr>)) (
                 sq (upd_buffer shmid (\<lambda>b. b\<lparr>shm_nattch := shm_nattch b + 1, shm_lpid := p_pid q\<rparr>))
                    (leave va))))) nofault (shmat_post s L p shmid va perm idx) u"
proof -
  obtain L' where L': "vm_inv u (p_pgdir q) L'" "pt_step (p_pgdir q) (acquired LShm s) L u L'"
    and out: "f = None \<and> pte (mem u) (p_pgdir q) = map_list (pte (mem s) (p_pgdir q)) va
        (take (unat (r_size r)) (r_physicalAddr r)) perm
      \<or> f \<noteq> None \<and> L' = [] \<and> (\<exists>k < length (take (unat (r_size r)) (r_physicalAddr r)). length L \<le> k \<and>
          pte (mem u) (p_pgdir q) = map_list (pte (mem s) (p_pgdir q)) va
            (take k (take (unat (r_size r)) (r_physicalAddr r))) perm)"
    using o unfolding attach_outcome_def by auto
  have fr: "kframe (acquired LShm s) u" using L'(2) by (simp add: pt_step_def)
  have il: "in_lock LShm u" using kframe_section(1) [OF s(1) fr] .
  have same: "allRegions u = allRegions s" "ptable u = ptable s"
    using more_regions [of u "acquired LShm s"] more_procs(1) [of u "acquired LShm s"] fr
    by (simp_all add: kframe_def)
  note v = lockview_cpu [OF s(1) fr]
  have inv: "vm_inv (released LShm u) (p_pgdir q) L'" using vm_inv_released [OF L'(1) il] by simp
  have pages: "owned (mem u) (p_pgdir q) \<union> set L' = owned (mem s) (p_pgdir q) \<union> set L"
    "\<forall>x. pg x \<notin> pg ` (owned (mem s) (p_pgdir q) \<union> set L) \<longrightarrow> mem u x = mem s x"
    using L'(2) by (simp_all add: pt_step_def)
  show ?thesis
  proof (cases f)
    case None
    then have "shmat_post s L p shmid va perm idx va ((released LShm u)
        \<lparr>ptable := (ptable s)[p := q\<lparr>p_pages :=
                   (p_pages q)[idx := attached_slot shmid va perm r (p_pages q ! idx)]\<rparr>],
         allRegions := (allRegions s)[nat shmid := attached_region (p_pid q) r]\<rparr>)"
      using out v inv pages unfolding shmat_post_def Let_def q [symmetric] by auto
    then show ?thesis
      using None s(2,3) il same q
      by (simp add: wpe_def run upd_slot_def upd_buffer_def leave_in_lock attached_slot_def
          attached_region_def)
  next
    case (Some x)
    then have "shmat_post s L p shmid va perm idx (-1) (released LShm u)"
      using out v inv pages same unfolding shmat_post_def Let_def q [symmetric] by auto
    then show ?thesis using Some il by (simp add: wpe_def leave_in_lock)
  qed
qed

lemma shmat_spec:
  fixes s :: "'x shmst_scheme"
  assumes r: "shm_ready s L p" "p < length (ptable s)" and at: "attachable s p shmid shmaddr shmflag va perm idx"
    and inv: "vm_inv s (p_pgdir (ptable s ! p)) L"
  shows "wpe (shmat shmid shmaddr shmflag) nofault (shmat_post s L p shmid va perm idx) s"
proof -
  let ?q = "ptable s ! p" and ?r = "allRegions s ! nat shmid" and ?a = "acquired LShm s"
  have s: "can_lock LShm s" "table_ok (allRegions s)" using r by (simp_all add: shm_ready_def)
  have A: "0 \<le> shmid" "shmid < 64" "r_shmid ?r \<noteq> -1" "pgaligned va"
      "unat va + 4096 * unat (r_size ?r) < 2147483648"
      "\<not> range_mapped (pte (mem s) (p_pgdir ?q)) va (unat (r_size ?r))" "shmat_perm ?r shmflag = Some perm"
      "first_index (\<lambda>i. sp_key (p_pages ?q ! i) = -1) 64 = Some idx"
    using at by (simp_all add: attachable_def Let_def)
  have u: "region_used (nat shmid) ?r" using used_index(2) [OF s(2) A(1-3)] .
  then have n: "unat (r_size ?r) \<le> 64" by (rule used_size)
  have len: "length (r_physicalAddr ?r) = 64"
    using table_okD(2) [OF s(2), of "nat shmid"] A(1,2) by (simp add: region_ok_def)
  have va: "vm_inv ?a (p_pgdir ?q) L" using vm_inv_acquired [OF inv s(1)] by simp
  have loop: "wpe (for_loop 0 (unat (r_size ?r)) (map_region_page (p_pgdir ?q) va shmid perm)) nofault
    (\<lambda>f u. attach_outcome (p_pgdir ?q) L va (take (unat (r_size ?r)) (r_physicalAddr ?r)) perm ?a (f \<noteq> None) u) ?a"
    by (rule attach_loop [OF va A(4) _ A(1,2) _ _ n len]) (use A(5,6) in simp_all)
  show ?thesis
    unfolding wpe_def [of "shmat shmid shmaddr shmflag"] shmat_to_attach [OF r(1) at]
    unfolding wpe_def [symmetric] shmat_attach_def wpe_bnd wpe_get_region [OF A(1,2)] wpe_procs
    using A(7)
    by (simp add: wpe_bnd [of "for_loop i n b" for i n b]) (rule wpe_mono [OF loop],
        rule attach_finish [OF s(1) A(1,2) r(2) refl refl A(8)], simp_all)
qed

section \<open>Detaching\<close>

definition unmap_pages :: "(u32 \<Rightarrow> u32) \<Rightarrow> u32 \<Rightarrow> nat \<Rightarrow> (u32 \<Rightarrow> u32)" where
  "unmap_pages f va n = (\<lambda>v. if pg va \<le> pg v \<and> pg v < pg va + n then 0 else f v)"

lemma detach_loop:
  fixes s :: "'x shmst_scheme"
  assumes inv: "vm_inv s d L" and va: "pgaligned va" "unat va + 4096 * n \<le> 4294967296"
    and t: "\<And>k. k < n \<Longrightarrow> PDX (va + of_nat k * PGSIZE) \<in> tables (mem s) d"
  shows "wpe (for_loop 0 n (clear_pte d va)) nofault (\<lambda>r u. r = None \<and> vm_inv u d L
    \<and> pt_step d s L u L \<and> pte (mem u) d = unmap_pages (pte (mem s) d) va n) s"
proof (rule wpe_for_loop [where I = "\<lambda>k u. vm_inv u d L \<and> pt_step d s L u L
    \<and> tables (mem u) d = tables (mem s) d \<and> pte (mem u) d = unmap_pages (pte (mem s) d) va k"])
  show "vm_inv s d L \<and> pt_step d s L s L \<and> tables (mem s) d = tables (mem s) d
      \<and> pte (mem s) d = unmap_pages (pte (mem s) d) va 0"
    using inv by (auto simp: unmap_pages_def fun_eq_iff)
  fix k and u :: "'x shmst_scheme"
  assume k: "0 \<le> k" "k < 0 + n" and "vm_inv u d L \<and> pt_step d s L u L
    \<and> tables (mem u) d = tables (mem s) d \<and> pte (mem u) d = unmap_pages (pte (mem s) d) va k"
  then have u: "vm_inv u d L" "pt_step d s L u L" "tables (mem u) d = tables (mem s) d"
    "pte (mem u) d = unmap_pages (pte (mem s) d) va k" by blast+
  let ?a = "va + of_nat k * PGSIZE"
  let ?slot = "ptab (mem u) d (PDX ?a) + 4 * PTX ?a"
  let ?u = "u\<lparr>mem := store32 (mem u) ?slot 0\<rparr>"
  have ta: "PDX ?a \<in> tables (mem u) d" using t k u(3) by simp
  note S = store_pte [OF u(1) ta refl, where e = 0]
  have pga: "pg ?a = pg va + k" using page_step(2) [OF va] k by simp
  have "pt_step d u L ?u L"
  proof -
    have "mem ?u x = mem u x" if "pg x \<notin> pg ` (owned (mem u) d \<union> set L)" for x
    proof -
      have "ptab (mem u) d (PDX ?a) \<in> owned (mem u) d" using ta by (simp add: owned_def)
      then have "pg x \<noteq> pg (ptab (mem u) d (PDX ?a))" using that by blast
      then show ?thesis using S(4) by simp
    qed
    then show ?thesis using S(3) by (simp add: pt_step_def)
  qed
  then have "pt_step d s L ?u L" using pt_step_trans [OF u(2)] by blast
  moreover have "pte (mem ?u) d = unmap_pages (pte (mem s) d) va (Suc k)"
    using S(2) u(4) pga by (auto simp: unmap_pages_def fun_eq_iff)
  moreover have "?slot \<noteq> 0" using u(1) ta by (intro slot_nonzero) (simp_all add: vm_inv_def)
  ultimately show "wpe (clear_pte d va k) nofault (\<lambda>r. case r of
      None \<Rightarrow> \<lambda>u. vm_inv u d L \<and> pt_step d s L u L
        \<and> tables (mem u) d = tables (mem s) d \<and> pte (mem u) d = unmap_pages (pte (mem s) d) va (Suc k)
    | Some v \<Rightarrow> \<lambda>u. Some v = None \<and> vm_inv u d L
        \<and> pt_step d s L u L \<and> pte (mem u) d = unmap_pages (pte (mem s) d) va n) u"
    using ta S(1,5) u(3)
    by (simp add: clear_pte_def wpe_bnd wpe_def [of "walkpgdir d a b" for d a b] walkpgdir_lookup wpe_sq
        wpe_wr32 wpe_ret)
qed auto

definition detached_slot :: "sharedPages \<Rightarrow> sharedPages" where
  "detached_slot g = g\<lparr>sp_shmid := -1, sp_key := -1, sp_size := 0, sp_virtualAddr := 0\<rparr>"

definition detached_region :: "int \<Rightarrow> shmRegion \<Rightarrow> shmRegion" where
  "detached_region pid r = r\<lparr>r_buffer := (r_buffer r)
     \<lparr>shm_nattch := (if 0 < shm_nattch (r_buffer r) then shm_nattch (r_buffer r) - 1
        else shm_nattch (r_buffer r)), shm_lpid := pid\<rparr>\<rparr>"

text \<open>The process \<open>p\<close> has a segment at \<open>addr\<close>, in slot \<open>idx\<close>, and its page tables exist.\<close>

definition segment_at :: "'x shmst_scheme \<Rightarrow> nat \<Rightarrow> u32 \<Rightarrow> nat \<Rightarrow> bool" where
  "segment_at s p addr idx \<longleftrightarrow>
     (let q = ptable s ! p; g = p_pages q ! idx in
      first_index (\<lambda>i. sp_key (p_pages q ! i) \<noteq> -1 \<and> sp_virtualAddr (p_pages q ! i) = addr) 64 = Some idx
      \<and> addr \<noteq> 0 \<and> pgaligned addr \<and> unat addr + 4096 * unat (sp_size g) \<le> 4294967296
      \<and> (\<forall>k < unat (sp_size g). PDX (addr + of_nat k * PGSIZE) \<in> tables (mem s) (p_pgdir q))
      \<and> 0 \<le> sp_shmid g \<and> sp_shmid g < 64)"

text \<open>The first half of \<open>shmdt\<close>: the pages of the segment are unmapped, under the lock.\<close>

lemma shmdt_unmaps:
  fixes s :: "'x shmst_scheme"
  assumes r: "shm_ready s L p" and dt: "segment_at s p addr idx"
    and inv: "vm_inv s (p_pgdir (ptable s ! p)) L"
  defines "q \<equiv> ptable s ! p"
  defines "g \<equiv> p_pages q ! idx"
  shows "\<exists>u. shmdt addr s = shmdt_release p idx (sp_shmid g) u \<and> vm_inv u (p_pgdir q) L
    \<and> pt_step (p_pgdir q) (acquired LShm s) L u L \<and> owned (mem u) (p_pgdir q) = owned (mem s) (p_pgdir q)
    \<and> pte (mem u) (p_pgdir q) = unmap_pages (pte (mem s) (p_pgdir q)) addr (unat (sp_size g))
    \<and> kframe (acquired LShm s) u \<and> in_lock LShm u \<and> allRegions u = allRegions s \<and> ptable u = ptable s"
proof -
  let ?a = "acquired LShm s" and ?d = "p_pgdir q"
  have s: "can_lock LShm s" "c_proc (cur_cpu s) = Some p"
    using r by (simp_all add: shm_ready_def)
  have D: "first_index (\<lambda>i. sp_key (p_pages q ! i) \<noteq> -1 \<and> sp_virtualAddr (p_pages q ! i) = addr) 64 = Some idx"
    "addr \<noteq> 0" "pgaligned addr" "unat addr + 4096 * unat (sp_size g) \<le> 4294967296"
    "\<And>k. k < unat (sp_size g) \<Longrightarrow> PDX (addr + of_nat k * PGSIZE) \<in> tables (mem s) ?d"
    using dt by (simp_all add: segment_at_def Let_def q_def g_def)
  have va: "sp_virtualAddr g = addr" using D(1) by (simp add: first_index_Some g_def)
  have cur: "curproc ?a = Inr (p, ?a)"
    using in_lock_acquired [OF s(1)] s polled_id [of ?a]
    by (simp add: curproc_def bnd_def myproc_eq in_lock_def nonnull_def ret_def can_lock_def cur_cpu_pushed)
  have "wpe (for_loop 0 (unat (sp_size g)) (clear_pte ?d addr)) nofault (\<lambda>r u. r = None \<and> vm_inv u ?d L
    \<and> pt_step ?d ?a L u L \<and> pte (mem u) ?d = unmap_pages (pte (mem ?a) ?d) addr (unat (sp_size g))) ?a"
    by (rule detach_loop [OF vm_inv_acquired [OF inv [folded q_def] s(1)] D(3,4)]) (use D(5) in simp_all)
  from wpe_returns [OF this] obtain u where
    u: "for_loop 0 (unat (sp_size g)) (clear_pte ?d addr) ?a = Inr (None, u)" "vm_inv u ?d L"
      "pt_step ?d ?a L u L" "pte (mem u) ?d = unmap_pages (pte (mem ?a) ?d) addr (unat (sp_size g))" by blast
  have "shmdt addr s = bnd (for_loop 0 (unat (sp_size g)) (clear_pte ?d addr)) (\<lambda>r.
           case r of Some v \<Rightarrow> ret v | None \<Rightarrow> shmdt_release p idx (sp_shmid g)) ?a"
    using s(1) cur D(1,2) va
    by (simp add: shmdt_def run bnd_def [of curproc] q_def [symmetric] g_def [symmetric] Let_def)
  then have "shmdt addr s = shmdt_release p idx (sp_shmid g) u" using u(1) by (simp add: bnd_def)
  moreover have fr: "kframe ?a u" using u(3) by (simp add: pt_step_def)
  moreover have "in_lock LShm u" using kframe_section(1) [OF s(1) fr] .
  moreover have "allRegions u = allRegions s" "ptable u = ptable s"
    using more_regions [of u ?a] more_procs(1) [of u ?a] fr by (simp_all add: kframe_def)
  moreover have "owned (mem u) ?d \<union> set L = owned (mem s) ?d \<union> set L" "owned (mem u) ?d \<inter> set L = {}"
    "owned (mem s) ?d \<inter> set L = {}"
    using u(2,3) inv by (simp_all add: pt_step_def vm_inv_def q_def)
  then have "owned (mem u) ?d = owned (mem s) ?d" by blast
  ultimately show ?thesis using u(2-4) by auto
qed

text \<open>The region of the segment is not waiting for this last detachment to be removed.\<close>

definition detachable :: "'x shmst_scheme \<Rightarrow> nat \<Rightarrow> u32 \<Rightarrow> nat \<Rightarrow> bool" where
  "detachable s p addr idx \<longleftrightarrow> segment_at s p addr idx \<and>
     (let r = allRegions s ! nat (sp_shmid (p_pages (ptable s ! p) ! idx)) in
      r_toBeDeleted r = 1 \<longrightarrow> 1 < shm_nattch (r_buffer r))"

lemma shmdt_spec:
  fixes s :: "'x shmst_scheme"
  assumes r: "shm_ready s L p" "p < length (ptable s)" and dt: "detachable s p addr idx"
    and inv: "vm_inv s (p_pgdir (ptable s ! p)) L"
  defines "q \<equiv> ptable s ! p"
  defines "g \<equiv> p_pages q ! idx"
  shows "wpe (shmdt addr) nofault (\<lambda>v s'. v = 0 \<and> lockview s' = lockview s \<and> cpu_index s' = cpu_index s
    \<and> vm_inv s' (p_pgdir q) L \<and> owned (mem s') (p_pgdir q) = owned (mem s) (p_pgdir q)
    \<and> (\<forall>x. pg x \<notin> pg ` (owned (mem s) (p_pgdir q) \<union> set L) \<longrightarrow> mem s' x = mem s x)
    \<and> pte (mem s') (p_pgdir q) = unmap_pages (pte (mem s) (p_pgdir q)) addr (unat (sp_size g))
    \<and> ptable s' = (ptable s)[p := q\<lparr>p_pages := (p_pages q)[idx := detached_slot g]\<rparr>]
    \<and> allRegions s' = (allRegions s)[nat (sp_shmid g) :=
        detached_region (p_pid q) (allRegions s ! nat (sp_shmid g))]) s" (is "wpe _ _ ?Q _")
proof -
  let ?d = "p_pgdir q" and ?r = "allRegions s ! nat (sp_shmid g)"
  have s: "can_lock LShm s" "table_ok (allRegions s)"
    using r by (simp_all add: shm_ready_def)
  have D: "segment_at s p addr idx" "0 \<le> sp_shmid g" "sp_shmid g < 64"
    "r_toBeDeleted ?r = 1 \<Longrightarrow> 1 < shm_nattch (r_buffer ?r)"
    using dt by (simp_all add: detachable_def segment_at_def Let_def q_def g_def)
  obtain u where eq: "shmdt addr s = shmdt_release p idx (sp_shmid g) u"
    and u: "vm_inv u ?d L" "pt_step ?d (acquired LShm s) L u L" "owned (mem u) ?d = owned (mem s) ?d"
      "pte (mem u) ?d = unmap_pages (pte (mem s) ?d) addr (unat (sp_size g))"
    and fr: "kframe (acquired LShm s) u" and il: "in_lock LShm u"
    and same: "allRegions u = allRegions s" "ptable u = ptable s"
    using shmdt_unmaps [OF r(1) D(1) inv] unfolding q_def g_def by blast
  have inv': "vm_inv (released LShm u) ?d L" using vm_inv_released [OF u(1) il] by simp
  have len: "nat (sp_shmid g) < length (allRegions s)" using table_okD(1) [OF s(2)] D(2,3) by simp
  have rel: "shmdt_release p idx (sp_shmid g) u = Inr (0, (released LShm u)
        \<lparr>ptable := (ptable s)[p := q\<lparr>p_pages := (p_pages q)[idx := detached_slot g]\<rparr>],
         allRegions := (allRegions s)[nat (sp_shmid g) := detached_region (p_pid q) ?r]\<rparr>)"
    using D(2-4) len same r(2) il
    by (auto simp: shmdt_release_def upd_slot_def upd_buffer_def run leave_in_lock detached_slot_def
        detached_region_def q_def g_def whenk_def)
  show ?thesis
    using eq rel inv' u lockview_cpu [OF s(1) fr] by (simp add: wpe_def pt_step_def)
qed

section \<open>Removing a region\<close>

definition region_pages :: "shmRegion \<Rightarrow> u32 list" where
  "region_pages r = map P2V (take (unat (r_size r)) (r_physicalAddr r))"

definition removed :: "shmRegion \<Rightarrow> shmRegion" where
  "removed r = r\<lparr>r_physicalAddr := replicate (unat (r_size r)) 0 @ drop (unat (r_size r)) (r_physicalAddr r),
     r_size := 0, r_key := -1, r_shmid := -1, r_toBeDeleted := 0,
     r_buffer := (r_buffer r)\<lparr>shm_nattch := 0, shm_segsz := 0, shm_perm := \<lparr>ip_key = -1, ip_mode = 0\<rparr>,
       shm_cpid := -1, shm_lpid := -1\<rparr>\<rparr>"

lemma remove_region_spec:
  fixes s :: "'x shmst_scheme"
  assumes s: "kmem_ready s" "free_pages s L" "cpu_ok s" and i: "0 \<le> i" "i < 64" "nat i < length (allRegions s)"
    and r: "r = allRegions s ! nat i" "length (r_physicalAddr r) = 64" "unat (r_size r) \<le> 64"
    and pg: "distinct (region_pages r)" "\<forall>v \<in> set (region_pages r). page_ok s v"
      "set (region_pages r) \<inter> set L = {}"
  shows "wpe (remove_region i) nofault (\<lambda>_ u. sframe s u \<and> free_pages u (rev (region_pages r) @ L)
    \<and> allRegions u = (allRegions s)[nat i := removed r]
    \<and> (\<forall>x. pg x \<notin> pg ` set (region_pages r) \<longrightarrow> mem u x = mem s x)) s"
proof -
  let ?n = "unat (r_size r)" and ?rp = "region_pages r" and ?ph = "r_physicalAddr r"
  let ?st = "\<lambda>k (u :: 'x shmst_scheme). sframe s u \<and> free_pages u (rev (take k ?rp) @ L)
    \<and> allRegions u = (allRegions s)[nat i := r\<lparr>r_physicalAddr := replicate k 0 @ drop k ?ph\<rparr>]
    \<and> (\<forall>x. pg x \<notin> pg ` set ?rp \<longrightarrow> mem u x = mem s x)"
  have len: "length ?rp = ?n" using r(2,3) by (simp add: region_pages_def)
  have loop: "wpe (each 0 ?n (\<lambda>k. bnd (get_region i) (\<lambda>r. sq (kfree (P2V (r_physicalAddr r ! k)))
      (upd_region i (\<lambda>r. r\<lparr>r_physicalAddr := (r_physicalAddr r)[k := 0]\<rparr>))))) nofault (\<lambda>_. ?st ?n) s"
  proof (rule wpe_each [where I = ?st])
    show "?st 0 s" using s r(1) by simp
    fix k and u :: "'x shmst_scheme"
    assume k: "0 \<le> k" "k < 0 + ?n" and u: "?st k u"
    let ?v = "?rp ! k"
    have kn: "k < length ?rp" "k < 64" using k len r(3) by simp_all
    have v: "?v \<in> set ?rp" using kn by simp
    have ph: "P2V ((replicate k 0 @ drop k ?ph) ! k) = ?v"
      using k kn r(2) by (simp add: region_pages_def nth_append)
    have ok: "page_ok u ?v"
      using v pg(2) u sframe_fields(3) [of s u] by (simp add: page_ok_def)
    have "?v \<notin> set (take k ?rp)"
      using pg(1) kn(1) by (simp add: in_set_conv_nth nth_eq_iff_index_eq)
    then have fresh: "?v \<notin> set (rev (take k ?rp) @ L)" using v pg(3) by auto
    have rdy: "kmem_ready u" using kmem_ready_sframe [of s u] u s by blast
    let ?u = "kfree_state ?v u"
    let ?w = "?u\<lparr>allRegions := (allRegions u)[nat i := (allRegions u ! nat i)
      \<lparr>r_physicalAddr := (r_physicalAddr (allRegions u ! nat i))[k := 0]\<rparr>]\<rparr>"
    have "sframe u ?u" using kframe_sframe [OF kframe_states(2) [OF rdy]] .
    then have "sframe s ?w" using u sframe_trans by auto
    moreover have "rev (take (Suc k) ?rp) @ L = ?v # rev (take k ?rp) @ L"
      using kn(1) by (simp add: take_Suc_conv_app_nth)
    then have "free_pages ?w (rev (take (Suc k) ?rp) @ L)"
      using free_pages_kfree [OF _ ok fresh] u by simp
    moreover have "(replicate k 0 @ drop k ?ph)[k := 0] = replicate (Suc k) 0 @ drop (Suc k) ?ph"
      using kn(2) r(2) by (simp add: list_update_append Cons_nth_drop_Suc [symmetric] replicate_append_same [symmetric])
    then have "allRegions ?w = (allRegions s)[nat i := r\<lparr>r_physicalAddr := replicate (Suc k) 0 @ drop (Suc k) ?ph\<rparr>]"
      using u i(3) by simp
    moreover have "mem ?w x = mem s x" if "pg x \<notin> pg ` set ?rp" for x
    proof -
      have "pg x \<noteq> pg ?v" using that v by blast
      then show ?thesis using u that kfree_state_other_page [of ?v x u] ok by simp
    qed
    ultimately have "?st (Suc k) ?w" by blast
    moreover have "(allRegions u ! nat i) = r\<lparr>r_physicalAddr := replicate k 0 @ drop k ?ph\<rparr>"
      using u i(3) by simp
    ultimately show "wpe (bnd (get_region i) (\<lambda>r. sq (kfree (P2V (r_physicalAddr r ! k)))
      (upd_region i (\<lambda>r. r\<lparr>r_physicalAddr := (r_physicalAddr r)[k := 0]\<rparr>)))) nofault (\<lambda>_. ?st (Suc k)) u"
      using i(1,2) ph
      by (simp add: wpe_bnd wpe_get_region wpe_sq wpe_def [of "kfree v" for v] kfree_eq [OF rdy ok]
          upd_region_def wpe_modify)
  qed simp
  have "wpe (sq (each 0 ?n (\<lambda>k. bnd (get_region i) (\<lambda>r. sq (kfree (P2V (r_physicalAddr r ! k)))
      (upd_region i (\<lambda>r. r\<lparr>r_physicalAddr := (r_physicalAddr r)[k := 0]\<rparr>)))))
    (sq (upd_region i (\<lambda>r. r\<lparr>r_size := 0, r_key := -1, r_shmid := -1, r_toBeDeleted := 0\<rparr>))
        (upd_buffer i (\<lambda>b. b\<lparr>shm_nattch := 0, shm_segsz := 0,
           shm_perm := \<lparr>ip_key = -1, ip_mode = 0\<rparr>, shm_cpid := -1, shm_lpid := -1\<rparr>)))) nofault
    (\<lambda>_ u. sframe s u \<and> free_pages u (rev ?rp @ L) \<and> allRegions u = (allRegions s)[nat i := removed r]
      \<and> (\<forall>x. pg x \<notin> pg ` set ?rp \<longrightarrow> mem u x = mem s x)) s"
    unfolding wpe_sq [of "each a b c" for a b c]
    by (rule wpe_mono [OF loop])
      (use i len in \<open>auto simp: upd_buffer_def upd_region_def wpe_sq wpe_modify removed_def\<close>)
  then show ?thesis
    unfolding remove_region_def using i(1,2) r(1) by (simp add: wpe_bnd wpe_get_region)
qed

section \<open>Initialisation\<close>

lemma keeps_wpe_each:
  assumes "length (allRegions s) = 64"
  shows "wpe (each 0 64 (\<lambda>i. upd_region (int i) (\<lambda>_. blank_region))) anyfault
    (\<lambda>_ u. allRegions u = replicate 64 blank_region) s"
proof (rule wpe_each [where I = "\<lambda>k u. allRegions u = replicate k blank_region @ drop k (allRegions s)"])
  fix k and u :: "'a shmst_scheme"
  assume k: "0 \<le> k" "k < 0 + 64" and u: "allRegions u = replicate k blank_region @ drop k (allRegions s)"
  then have "(allRegions u)[k := blank_region] = replicate (Suc k) blank_region @ drop (Suc k) (allRegions s)"
    using assms by (simp add: list_update_append Cons_nth_drop_Suc [symmetric] replicate_append_same [symmetric])
  then show "wpe (upd_region (int k) (\<lambda>_. blank_region)) anyfault
      (\<lambda>_ u. allRegions u = replicate (Suc k) blank_region @ drop (Suc k) (allRegions s)) u"
    using k by (simp add: wpe_region)
qed (use assms in auto)

lemma blank_table_ok: "table_ok (replicate 64 blank_region)"
  by (auto simp: table_ok_def region_ok_def region_free_def blank_region_def)

lemma sharedMemoryInit_table:
  fixes s :: "'x shmst_scheme"
  assumes "length (allRegions s) = 64"
  shows "wpe sharedMemoryInit anyfault (\<lambda>_ s'. allRegions s' = replicate 64 blank_region) s"
proof -
  let ?Q = "\<lambda>_ (u :: 'x shmst_scheme). allRegions u = replicate 64 blank_region"
  let ?loop = "each 0 SHAREDREGIONS (\<lambda>i. upd_region (int i) (\<lambda>_. blank_region)) :: ('x shmst_scheme, unit) kmon"
  have rel: "wpe (release LShm) anyfault ?Q u" if "?Q x u" for u :: "'x shmst_scheme" and x :: unit
    by (rule keeps_wpe [OF keeps_locking(5) [THEN keeps_regions]]) (simp only: that)
  have rest: "wpe (sq ?loop (release LShm)) anyfault ?Q u" if "allRegions u = allRegions s" for u
  proof -
    have "wpe ?loop anyfault ?Q u" using keeps_wpe_each [of u] assms that by simp
    then show ?thesis unfolding wpe_sq by (rule wpe_mono) (rule rel, assumption, simp)
  qed
  have acq: "wpe (acquire LShm) anyfault (\<lambda>_. wpe (sq ?loop (release LShm)) anyfault ?Q) u"
    if "allRegions u = allRegions s" for u
    by (rule keeps_wpe [OF keeps_locking(4) [THEN keeps_regions]]) (rule rest, simp only: that)
  show ?thesis
    unfolding sharedMemoryInit_def wpe_sq [of "initlock a b" for a b] wpe_sq [of "acquire a" for a]
    by (rule keeps_wpe [OF keeps_locking(7) [THEN keeps_regions]]) (rule acq)
qed

lemma sharedMemoryInit_returns:
  fixes s :: "'x shmst_scheme"
  assumes "cpu_ok s"
  shows "\<exists>s'. sharedMemoryInit s = Inr ((), s')"
proof -
  let ?l = "(locks s LShm)\<lparr>lk_name := ''Shared Memory'', lk_locked := 0, lk_cpu := None\<rparr>"
  let ?s = "s\<lparr>locks := (locks s)(LShm := ?l)\<rparr>"
  have c: "can_lock LShm ?s" using assms by (simp add: can_lock_def)
  have "wpe (each 0 SHAREDREGIONS (\<lambda>i. upd_region (int i) (\<lambda>_. blank_region))) nofault
      (\<lambda>_. in_lock LShm) (acquired LShm ?s)"
    by (rule wpe_each [where I = "\<lambda>_. in_lock LShm"])
      (simp_all add: in_lock_acquired [OF c] upd_region_def wpe_modify)
  then have "wpe (sq (each 0 SHAREDREGIONS (\<lambda>i. upd_region (int i) (\<lambda>_. blank_region))) (release LShm))
      nofault (\<lambda>_ _. True) (acquired LShm ?s)"
    unfolding wpe_sq by (rule wpe_mono) (simp_all add: wpe_release)
  moreover have "sharedMemoryInit s = sq (each 0 SHAREDREGIONS (\<lambda>i. upd_region (int i) (\<lambda>_. blank_region)))
      (release LShm) (acquired LShm ?s)"
    using c by (simp add: sharedMemoryInit_def initlock_def upd_lock_def run)
  ultimately show ?thesis using wpe_returns by fastforce
qed

section \<open>The states the table goes through\<close>

text \<open>
  The kernel after \<open>sharedMemoryInit\<close>, and then any sequence of shared-memory calls and of other
  activity, which does not write the table.
\<close>

inductive shm_reach :: "'x shmst_scheme \<Rightarrow> 'x shmst_scheme \<Rightarrow> bool" for s0 where
  init: "sharedMemoryInit s0 = Inr (u, s) \<Longrightarrow> shm_reach s0 s"
| get: "shm_reach s0 s \<Longrightarrow> shmget key sz fl s = Inr (v, s') \<Longrightarrow> shm_reach s0 s'"
| at: "shm_reach s0 s \<Longrightarrow> shmat i a fl s = Inr (w, s') \<Longrightarrow> shm_reach s0 s'"
| dt: "shm_reach s0 s \<Longrightarrow> shmdt a s = Inr (v, s') \<Longrightarrow> shm_reach s0 s'"
| ctl: "shm_reach s0 s \<Longrightarrow> shmctl i cmd buf s = Inr (v, s') \<Longrightarrow> shm_reach s0 s'"
| other: "shm_reach s0 s \<Longrightarrow> allRegions s' = allRegions s \<Longrightarrow> shm_reach s0 s'"

section \<open>Searching for an address\<close>

text \<open>The segment with the least address from \<open>a\<close> upwards, and below the kernel.\<close>

definition candidate :: "u32 \<Rightarrow> sharedPages \<Rightarrow> bool" where
  "candidate a g \<longleftrightarrow> sp_key g \<noteq> -1 \<and> a \<le> sp_virtualAddr g \<and> sp_virtualAddr g < KERNBASE"

lemma least_va_spec:
  assumes "least_va gs i a m j = k"
  shows "(k = j \<and> (\<forall>g \<in> set gs. sp_key g \<noteq> -1 \<and> a \<le> sp_virtualAddr g \<longrightarrow> m < sp_virtualAddr g))
    \<or> (\<exists>n < length gs. k = int (i + n) \<and> sp_key (gs ! n) \<noteq> -1 \<and> a \<le> sp_virtualAddr (gs ! n)
        \<and> sp_virtualAddr (gs ! n) \<le> m
        \<and> (\<forall>g \<in> set gs. sp_key g \<noteq> -1 \<and> a \<le> sp_virtualAddr g \<longrightarrow> sp_virtualAddr (gs ! n) \<le> sp_virtualAddr g))"
  using assms
proof (induction gs arbitrary: i m j)
  case Nil
  then show ?case by simp
next
  case (Cons g gs)
  let ?c = "sp_key g \<noteq> -1 \<and> a \<le> sp_virtualAddr g \<and> sp_virtualAddr g \<le> m"
  show ?case
  proof (cases ?c)
    case True
    then have "least_va gs (Suc i) a (sp_virtualAddr g) (int i) = k" using Cons.prems by simp
    from Cons.IH [OF this] show ?thesis
    proof (elim disjE exE conjE)
      assume "k = int i" "\<forall>h \<in> set gs. sp_key h \<noteq> -1 \<and> a \<le> sp_virtualAddr h \<longrightarrow> sp_virtualAddr g < sp_virtualAddr h"
      then show ?thesis using True by (intro disjI2 exI [of _ 0]) auto
    next
      fix n
      assume n: "n < length gs" "k = int (Suc i + n)" "sp_key (gs ! n) \<noteq> -1" "a \<le> sp_virtualAddr (gs ! n)"
        "sp_virtualAddr (gs ! n) \<le> sp_virtualAddr g"
        "\<forall>h \<in> set gs. sp_key h \<noteq> -1 \<and> a \<le> sp_virtualAddr h \<longrightarrow> sp_virtualAddr (gs ! n) \<le> sp_virtualAddr h"
      then have "sp_virtualAddr (gs ! n) \<le> m" using True by auto
      then show ?thesis using n True by (intro disjI2 exI [of _ "Suc n"]) auto
    qed
  next
    case False
    then have eq: "least_va gs (Suc i) a m j = k"
      using Cons.prems unfolding least_va.simps by (simp only: if_False)
    from Cons.IH [OF this] show ?thesis
    proof (elim disjE exE conjE)
      assume "k = j" "\<forall>h \<in> set gs. sp_key h \<noteq> -1 \<and> a \<le> sp_virtualAddr h \<longrightarrow> m < sp_virtualAddr h"
      then show ?thesis using False by (intro disjI1) auto
    next
      fix n
      assume n: "n < length gs" "k = int (Suc i + n)" "sp_key (gs ! n) \<noteq> -1" "a \<le> sp_virtualAddr (gs ! n)"
        "sp_virtualAddr (gs ! n) \<le> m"
        "\<forall>h \<in> set gs. sp_key h \<noteq> -1 \<and> a \<le> sp_virtualAddr h \<longrightarrow> sp_virtualAddr (gs ! n) \<le> sp_virtualAddr h"
      then show ?thesis using False by (intro disjI2 exI [of _ "Suc n"]) auto
    qed
  qed
qed

section \<open>A small kernel with shared memory\<close>

lemma vm_inv_transfer:
  assumes "vm_inv s d L" "mem s' = mem s" "kend s' = kend s" "kmem_freelist s' = kmem_freelist s" "kmem_ready s'"
  shows "vm_inv s' d L"
  using assms by (simp add: vm_inv_def free_pages_def pt_ok_def page_ok_def)

definition demo_proc :: "procstate \<Rightarrow> u32 \<Rightarrow> proc" where
  "demo_proc st d = \<lparr>p_sz = 0, p_pgdir = d, p_kstack = 0, p_state = st, p_pid = 1, p_parent = None, p_tf = 0,
     p_context = 0, p_chan = ChanNull, p_killed = 0, p_ofile = replicate NOFILE None, p_cwd = None,
     p_name = replicate 16 0, p_pages = replicate SHAREDREGIONS blank_page\<rparr>"

text \<open>
  One process runs, with the empty page directory at \<open>0x80400000\<close> and two free pages; the table of
  regions is \<open>R\<close>.
\<close>

definition shm_kernel :: "shmRegion list \<Rightarrow> shmst" where
  "shm_kernel R = \<lparr>mem = mem vm_demo, eflags_IF = False, lapicid = 0, cpus = [boot_cpu\<lparr>c_proc := Some 0\<rparr>],
     ncpu = 1, cr3 = 0, tr = 0, gdtr = None, klog = [], locks = (\<lambda>_. boot_lock), argp = 0,
     kend = kend vm_demo, kdata = kdata vm_demo, kmem_use_lock = True, kmem_freelist = kmem_freelist vm_demo,
     kpgdir = 0, ptable = demo_proc RUNNING 0x80400000 # replicate 63 (demo_proc UNUSED 0),
     initproc = Some 0, nextpid = 2, trapret_addr = 0, forkret_addr = 0, ts_addr = (\<lambda>_. 0), allRegions = R\<rparr>"

lemma shm_kernel_locks: "can_lock l (shm_kernel R)" "kmem_ready (shm_kernel R)"
  "c_proc (cur_cpu (shm_kernel R)) = Some 0"
  by (simp_all add: can_lock_def cpu_ok_def cpu_index_def first_index_def cur_cpu_def kmem_ready_def
      shm_kernel_def boot_cpu_def boot_lock_def)

lemma shm_kernel_vm: "vm_inv (shm_kernel R) 0x80400000 [0x80401000, 0x80402000]"
  by (rule vm_inv_transfer [OF uvm_invD(1) [OF vm_demo_inv(1)]])
    (simp_all add: shm_kernel_locks, simp_all add: shm_kernel_def)

lemma shm_kernel_ready: "table_ok R \<Longrightarrow> shm_ready (shm_kernel R) [0x80401000, 0x80402000] 0"
  using shm_kernel_vm [of R]
  by (simp add: shm_ready_def shm_kernel_locks vm_inv_def) (simp add: shm_kernel_def)

section \<open>shmget follows its decision function\<close>

lemma shmget_by_plan:
  assumes "shm_ready s L p"
  shows "\<exists>v s'. shmget key sz fl s = Inr (v, s') \<and> lockview s' = lockview s \<and> ptable s' = ptable s
    \<and> (case shmget_plan key sz fl (allRegions s) of
         Refused \<Rightarrow> v = -1 \<and> allRegions s' = allRegions s \<and> free_pages s' L \<and> mem s' = mem s
       | Found i \<Rightarrow> v = i \<and> allRegions s' = allRegions s \<and> free_pages s' L \<and> mem s' = mem s
       | Create i n permission \<Rightarrow>
           if n \<le> length L then
             v = int i \<and> free_pages s' (drop n L)
             \<and> allRegions s' = (allRegions s)[i := filled key sz n permission (p_pid (ptable s ! p)) i
                 ((allRegions s ! i)\<lparr>r_physicalAddr :=
                    map V2P (take n L) @ drop n (r_physicalAddr (allRegions s ! i))\<rparr>)]
             \<and> mem s' = (\<lambda>x. if pg x \<in> pg ` set (take n L) then 0 else mem s x)
           else v = -1 \<and> free_pages s' [] \<and> r_key (allRegions s' ! i) = -1)"
proof (cases "shmget_plan key sz fl (allRegions s)")
  case Refused
  have s: "can_lock LShm s" "free_pages s L" using assms by (simp_all add: shm_ready_def)
  then show ?thesis
    using shmget_no_create(1) [OF s(1) Refused] Refused by (simp add: lockview_bracket)
next
  case (Found i)
  have s: "can_lock LShm s" "free_pages s L" using assms by (simp_all add: shm_ready_def)
  then show ?thesis
    using shmget_no_create(2) [OF s(1) Found] Found by (simp add: lockview_bracket)
next
  case (Create i n permission)
  from wpe_returns [OF shmget_create_spec [OF assms Create]] obtain v s' where
    s': "shmget key sz fl s = Inr (v, s')" and o: "if n \<le> length L then
      v = int i \<and> sframe s s' \<and> free_pages s' (drop n L)
      \<and> allRegions s' = (allRegions s)[i := filled key sz n permission (p_pid (ptable s ! p)) i
          ((allRegions s ! i)\<lparr>r_physicalAddr :=
             map V2P (take n L) @ drop n (r_physicalAddr (allRegions s ! i))\<rparr>)]
      \<and> mem s' = (\<lambda>x. if pg x \<in> pg ` set (take n L) then 0 else mem s x)
    else v = -1 \<and> exhausted i L s s'" by blast
  have i: "i < 64" "r_key (allRegions s ! i) = -1" using shmget_plan_Create [OF Create] by blast+
  have len: "length (allRegions s) = 64" using assms by (simp add: shm_ready_def table_okD(1))
  have "sframe s s'" using o by (auto simp: exhausted_def split: if_splits)
  from sframe_fields(1,4) [OF this] show ?thesis
    using s' o Create i len by (auto simp: exhausted_def split: if_splits)
qed

section \<open>Properties\<close>

text \<open>
  C1: after \<open>sharedMemoryInit\<close> and any sequence of shared-memory calls, every entry of the table of
  regions is either free or in use under its own index, with a size of 1 to 64 pages that matches the
  requested one, a readable or writable mode and a key that no other region in use has.
\<close>

theorem shm_table_invariant:
  assumes "length (allRegions s0) = SHAREDREGIONS" and "shm_reach s0 s"
  shows "table_ok (allRegions s)"
  using assms(2)
proof (induction rule: shm_reach.induct)
  case (init u s)
  have "allRegions s = replicate 64 blank_region"
    using wpeD [OF sharedMemoryInit_table [OF assms(1)] init] .
  then show ?case using blank_table_ok by simp
next
  case (get s key sz fl v s')
  show ?case using stableD [OF stable_shmget get.IH get.hyps(2)] .
next
  case (at s i a fl w s')
  show ?case using stableD [OF stable_shmat at.IH at.hyps(2)] .
next
  case (dt s a v s')
  show ?case using stableD [OF stable_shmdt dt.IH dt.hyps(2)] .
next
  case (ctl s i cmd buf v s')
  show ?case using stableD [OF stable_shmctl ctl.IH ctl.hyps(2)] .
qed simp

theorem shm_table_invariant_witness:
  "\<exists>s. shm_reach (shm_kernel (replicate 64 blank_region)) s \<and> table_ok (allRegions s)"
proof -
  let ?k = "shm_kernel (replicate 64 blank_region)"
  obtain s where "sharedMemoryInit ?k = Inr ((), s)"
    using sharedMemoryInit_returns [of ?k] shm_kernel_locks(1) [of LShm] by (auto simp: can_lock_def)
  then have r: "shm_reach ?k s" by (rule shm_reach.init)
  have "length (allRegions ?k) = 64" by (simp add: shm_kernel_def)
  from shm_table_invariant [OF this r] r show ?thesis by blast
qed



end
