(* ===== verification/Sleeplock.thy ===== *)
theory Sleeplock
  imports Shmspec
begin

text \<open>
  The sleep locks of sleeplock.c. The spin lock inside a sleep lock is a lock of the machine state under
  the same name; \<open>sleeplocks\<close> holds the other fields. The loop \<open>while(lk->locked) sleep(...)\<close> tests
  once in a run: \<open>sleep\<close> ends the run with a context switch, and the test is repeated when the thread
  is resumed.
\<close>

section \<open>State\<close>

record sleeplock =
  sl_locked :: u32
  sl_name :: string
  sl_pid :: int

record slst = shmst +
  sleeplocks :: "lockid \<Rightarrow> sleeplock"

text \<open>The channel on which the waiters of a sleep lock sleep: the lock itself.\<close>

fun slchan :: "lockid \<Rightarrow> chan" where
  "slchan (LBufSleep i) = ChanBufLock i"
| "slchan (LInodeSleep i) = ChanInodeLock i"
| "slchan _ = ChanNull"

definition upd_sleeplock :: "lockid \<Rightarrow> (sleeplock \<Rightarrow> sleeplock) \<Rightarrow> ('x slst_scheme, unit) kmon" where
  "upd_sleeplock l f = modify (\<lambda>s. s\<lparr>sleeplocks := (sleeplocks s)(l := f (sleeplocks s l))\<rparr>)"

section \<open>Operations\<close>

definition initsleeplock :: "lockid \<Rightarrow> string \<Rightarrow> ('x slst_scheme, unit) kmon" where
  "initsleeplock l nm =
     sq (initlock l ''sleep lock'')
        (upd_sleeplock l (\<lambda>k. k\<lparr>sl_name := nm, sl_locked := 0, sl_pid := 0\<rparr>))"

definition acquiresleep :: "lockid \<Rightarrow> ('x slst_scheme, unit) kmon" where
  "acquiresleep l =
     sq (acquire l) (
     bnd (gets (\<lambda>s. sl_locked (sleeplocks s l))) (\<lambda>held.
     sq (whenk (held \<noteq> 0) (sleep (slchan l) (Some l))) (
     sq (upd_sleeplock l (\<lambda>k. k\<lparr>sl_locked := 1\<rparr>)) (
     bnd curproc (\<lambda>p.
     bnd (get_proc p) (\<lambda>q.
     sq (upd_sleeplock l (\<lambda>k. k\<lparr>sl_pid := p_pid q\<rparr>))
        (release l)))))))"

definition releasesleep :: "lockid \<Rightarrow> ('x slst_scheme, unit) kmon" where
  "releasesleep l =
     sq (acquire l) (
     sq (upd_sleeplock l (\<lambda>k. k\<lparr>sl_locked := 0, sl_pid := 0\<rparr>)) (
     sq (wakeup (slchan l))
        (release l)))"

definition holdingsleep :: "lockid \<Rightarrow> ('x slst_scheme, bool) kmon" where
  "holdingsleep l =
     sq (acquire l) (
     bnd (gets (\<lambda>s. sleeplocks s l)) (\<lambda>k.
     bnd (if sl_locked k = 0 then ret False
          else bnd curproc (\<lambda>p. bnd (get_proc p) (\<lambda>q. ret (sl_pid k = p_pid q)))) (\<lambda>r.
     sq (release l) (ret r))))"

end
