(* ===== verification/Bio.thy ===== *)
theory Bio
  imports Sleeplock
begin

text \<open>
  The buffer cache of bio.c over the memory disk of memide.c. A pointer to a buffer is its index in
  \<open>bcache\<close>; the list head, which the code stores after the array, is the entry with index \<open>NBUF\<close>.
  The walks along the circular list are bounded by its length, \<open>NBUF + 1\<close> nodes.
\<close>

section \<open>State\<close>

record buf =
  b_flags :: u32
  b_dev :: u32
  b_blockno :: u32
  b_refcnt :: u32
  b_prev :: nat
  b_next :: nat
  b_data :: "u8 list"

text \<open>
  \<open>memdisk\<close> is the disk image as a list of blocks. \<open>disk_writes\<close> is a history variable that no code reads:
  the writes to the disk in the order in which they were made, for statements about a machine that
  stops between two of them.
\<close>

record biost = slst +
  bcache :: "buf list"
  memdisk :: "u8 list list"
  disksize :: u32
  disk_writes :: "(nat \<times> u8 list) list"

abbreviation NBUF :: nat where "NBUF \<equiv> 30"
abbreviation (input) BSIZE :: u32 where "BSIZE \<equiv> 512"
abbreviation (input) B_VALID :: u32 where "B_VALID \<equiv> 2"
abbreviation (input) B_DIRTY :: u32 where "B_DIRTY \<equiv> 4"

definition upd_buf :: "nat \<Rightarrow> (buf \<Rightarrow> buf) \<Rightarrow> ('x biost_scheme, unit) kmon" where
  "upd_buf i f = modify (\<lambda>s. s\<lparr>bcache := (bcache s)[i := f (bcache s ! i)]\<rparr>)"

definition get_buf :: "nat \<Rightarrow> ('x biost_scheme, buf) kmon" where
  "get_buf i = gets (\<lambda>s. bcache s ! i)"

section \<open>The memory disk\<close>

text \<open>The image that is linked into the kernel, cut into whole blocks.\<close>

definition ideinit :: "u8 list \<Rightarrow> ('x biost_scheme, unit) kmon" where
  "ideinit img =
     modify (\<lambda>s. s\<lparr>memdisk := map (\<lambda>i. take 512 (drop (512 * i) img)) [0..<length img div 512],
       disksize := of_nat (length img div 512)\<rparr>)"

definition ideintr :: "('s, unit) kmon" where
  "ideintr = ret ()"

definition iderw :: "nat \<Rightarrow> ('x biost_scheme, unit) kmon" where
  "iderw b =
     bnd (holdingsleep (LBufSleep b)) (\<lambda>h.
     if \<not> h then panic ''iderw: buf not locked''
     else bnd (get_buf b) (\<lambda>k.
       if b_flags k AND (B_VALID OR B_DIRTY) = B_VALID then panic ''iderw: nothing to do''
       else if b_dev k \<noteq> 1 then panic ''iderw: request not for disk 1''
       else bnd (gets disksize) (\<lambda>n.
         if n \<le> b_blockno k then panic ''iderw: block out of range''
         else
           sq (if b_flags k AND B_DIRTY \<noteq> 0 then
                 sq (upd_buf b (\<lambda>k. k\<lparr>b_flags := b_flags k AND NOT B_DIRTY\<rparr>))
                    (modify (\<lambda>s. s\<lparr>memdisk := (memdisk s)[unat (b_blockno k) := b_data k],
                       disk_writes := disk_writes s @ [(unat (b_blockno k), b_data k)]\<rparr>))
               else
                 bnd (gets (\<lambda>s. memdisk s ! unat (b_blockno k))) (\<lambda>d.
                 upd_buf b (\<lambda>k. k\<lparr>b_data := d\<rparr>)))
              (upd_buf b (\<lambda>k. k\<lparr>b_flags := b_flags k OR B_VALID\<rparr>)))))"

section \<open>The buffer cache\<close>

text \<open>
  \<open>insert_front b\<close>: the four assignments that link buffer \<open>b\<close> in behind the list head.
\<close>

definition insert_front :: "nat \<Rightarrow> ('x biost_scheme, unit) kmon" where
  "insert_front b =
     bnd (get_buf NBUF) (\<lambda>h.
     sq (upd_buf b (\<lambda>k. k\<lparr>b_next := b_next h, b_prev := NBUF\<rparr>)) (
     sq (upd_buf (b_next h) (\<lambda>k. k\<lparr>b_prev := b\<rparr>))
        (upd_buf NBUF (\<lambda>k. k\<lparr>b_next := b\<rparr>))))"

definition binit :: "('x biost_scheme, unit) kmon" where
  "binit =
     sq (initlock LBcache ''bcache'') (
     sq (upd_buf NBUF (\<lambda>h. h\<lparr>b_prev := NBUF, b_next := NBUF\<rparr>))
        (each 0 NBUF (\<lambda>b.
           bnd (get_buf NBUF) (\<lambda>h.
           sq (upd_buf b (\<lambda>k. k\<lparr>b_next := b_next h, b_prev := NBUF\<rparr>)) (
           sq (initsleeplock (LBufSleep b) ''buffer'') (
           sq (upd_buf (b_next h) (\<lambda>k. k\<lparr>b_prev := b\<rparr>))
              (upd_buf NBUF (\<lambda>k. k\<lparr>b_next := b\<rparr>))))))))"

text \<open>
  \<open>scan n step P bs i\<close> follows the links from node \<open>i\<close> to the first buffer that satisfies \<open>P\<close>. The
  inner option is the result of the search, \<open>None\<close> at the list head; the outer one is \<open>None\<close> when the
  bound \<open>n\<close> on the nodes visited is reached.
\<close>

primrec scan :: "nat \<Rightarrow> (buf \<Rightarrow> nat) \<Rightarrow> (buf \<Rightarrow> bool) \<Rightarrow> buf list \<Rightarrow> nat \<Rightarrow> nat option option" where
  "scan 0 step P bs i = None"
| "scan (Suc n) step P bs i =
     (if i = NBUF then Some None
      else if P (bs ! i) then Some (Some i)
      else scan n step P bs (step (bs ! i)))"

definition bget :: "u32 \<Rightarrow> u32 \<Rightarrow> ('x biost_scheme, nat) kmon" where
  "bget dev blockno =
     sq (acquire LBcache) (
     bnd (gets (\<lambda>s. scan (NBUF + 1) b_next (\<lambda>b. b_dev b = dev \<and> b_blockno b = blockno) (bcache s)
                      (b_next (bcache s ! NBUF)))) (\<lambda>r.
     case r of
       None \<Rightarrow> fail Diverges
     | Some (Some b) \<Rightarrow>
         sq (upd_buf b (\<lambda>k. k\<lparr>b_refcnt := b_refcnt k + 1\<rparr>)) (
         sq (release LBcache) (
         sq (acquiresleep (LBufSleep b))
            (ret b)))
     | Some None \<Rightarrow>
         bnd (gets (\<lambda>s. scan (NBUF + 1) b_prev (\<lambda>b. b_refcnt b = 0 \<and> b_flags b AND B_DIRTY = 0)
                          (bcache s) (b_prev (bcache s ! NBUF)))) (\<lambda>r.
         case r of
           None \<Rightarrow> fail Diverges
         | Some (Some b) \<Rightarrow>
             sq (upd_buf b (\<lambda>k. k\<lparr>b_dev := dev, b_blockno := blockno, b_flags := 0, b_refcnt := 1\<rparr>)) (
             sq (release LBcache) (
             sq (acquiresleep (LBufSleep b))
                (ret b)))
         | Some None \<Rightarrow> panic ''bget: no buffers'')))"

definition bread :: "u32 \<Rightarrow> u32 \<Rightarrow> ('x biost_scheme, nat) kmon" where
  "bread dev blockno =
     bnd (bget dev blockno) (\<lambda>b.
     bnd (get_buf b) (\<lambda>k.
     sq (whenk (b_flags k AND B_VALID = 0) (iderw b))
        (ret b)))"

definition bwrite :: "nat \<Rightarrow> ('x biost_scheme, unit) kmon" where
  "bwrite b =
     bnd (holdingsleep (LBufSleep b)) (\<lambda>h.
     if \<not> h then panic ''bwrite''
     else
       sq (upd_buf b (\<lambda>k. k\<lparr>b_flags := b_flags k OR B_DIRTY\<rparr>))
          (iderw b))"

definition brelse :: "nat \<Rightarrow> ('x biost_scheme, unit) kmon" where
  "brelse b =
     bnd (holdingsleep (LBufSleep b)) (\<lambda>h.
     if \<not> h then panic ''brelse''
     else
       sq (releasesleep (LBufSleep b)) (
       sq (acquire LBcache) (
       sq (upd_buf b (\<lambda>k. k\<lparr>b_refcnt := b_refcnt k - 1\<rparr>)) (
       bnd (get_buf b) (\<lambda>k.
       sq (whenk (b_refcnt k = 0) (
            sq (upd_buf (b_next k) (\<lambda>n. n\<lparr>b_prev := b_prev k\<rparr>)) (
            sq (upd_buf (b_prev k) (\<lambda>p. p\<lparr>b_next := b_next k\<rparr>))
               (insert_front b))))
          (release LBcache))))))"

text \<open>The data of a buffer that the caller holds, read and modified in place.\<close>

definition buf_data :: "nat \<Rightarrow> ('x biost_scheme, u8 list) kmon" where
  "buf_data b = gets (\<lambda>s. b_data (bcache s ! b))"

definition upd_data :: "nat \<Rightarrow> (u8 list \<Rightarrow> u8 list) \<Rightarrow> ('x biost_scheme, unit) kmon" where
  "upd_data b f = upd_buf b (\<lambda>k. k\<lparr>b_data := f (b_data k)\<rparr>)"

end
