(* ===== verification/Log.thy ===== *)
theory Log
  imports Bio
begin

text \<open>
  The write-ahead log of log.c and the super block that it starts from (\<open>readsb\<close> of fs.c). An index
  into \<open>log.lh.block\<close> outside its \<open>LOGSIZE\<close> elements is undefined behaviour. \<open>begin_op\<close> makes one
  attempt in a run: the thread that has to wait is switched away and tries again when it is resumed.
\<close>

section \<open>State\<close>

record superblock =
  sb_size :: u32
  sb_nblocks :: u32
  sb_ninodes :: u32
  sb_nlog :: u32
  sb_logstart :: u32
  sb_inodestart :: u32
  sb_bmapstart :: u32

record logheader =
  lh_n :: int
  lh_block :: "int list"

record log =
  lg_start :: int
  lg_size :: int
  lg_outstanding :: int
  lg_committing :: int
  lg_dev :: int
  lg_lh :: logheader

record logst = biost +
  log :: log

abbreviation LOGSIZE :: nat where "LOGSIZE \<equiv> 30"
abbreviation (input) MAXOPBLOCKS :: int where "MAXOPBLOCKS \<equiv> 10"

definition get_log :: "(log \<Rightarrow> 'a) \<Rightarrow> ('x logst_scheme, 'a) kmon" where
  "get_log f = gets (\<lambda>s. f (log s))"

definition upd_log :: "(log \<Rightarrow> log) \<Rightarrow> ('x logst_scheme, unit) kmon" where
  "upd_log f = modify (\<lambda>s. s\<lparr>log := f (log s)\<rparr>)"

definition upd_lh :: "(logheader \<Rightarrow> logheader) \<Rightarrow> ('x logst_scheme, unit) kmon" where
  "upd_lh f = upd_log (\<lambda>l. l\<lparr>lg_lh := f (lg_lh l)\<rparr>)"

text \<open>\<open>log.lh.block[i]\<close>, read and written.\<close>

definition get_block :: "nat \<Rightarrow> ('x logst_scheme, int) kmon" where
  "get_block i =
     (if i < LOGSIZE then get_log (\<lambda>l. lh_block (lg_lh l) ! i)
      else fail (Undefined ''log.lh.block: index out of bounds''))"

definition set_block :: "nat \<Rightarrow> int \<Rightarrow> ('x logst_scheme, unit) kmon" where
  "set_block i v =
     (if i < LOGSIZE then upd_lh (\<lambda>h. h\<lparr>lh_block := (lh_block h)[i := v]\<rparr>)
      else fail (Undefined ''log.lh.block: index out of bounds''))"

section \<open>The super block\<close>

definition superblock_of :: "u8 list \<Rightarrow> superblock" where
  "superblock_of d = \<lparr>sb_size = get32 d 0, sb_nblocks = get32 d 4, sb_ninodes = get32 d 8,
     sb_nlog = get32 d 12, sb_logstart = get32 d 16, sb_inodestart = get32 d 20,
     sb_bmapstart = get32 d 24\<rparr>"

definition readsb :: "int \<Rightarrow> ('x biost_scheme, superblock) kmon" where
  "readsb dev =
     bnd (bread (of_int dev) 1) (\<lambda>bp.
     bnd (buf_data bp) (\<lambda>d.
     sq (brelse bp)
        (ret (superblock_of d))))"

section \<open>Installing and committing\<close>

definition install_trans :: "('x logst_scheme, unit) kmon" where
  "install_trans =
     bnd (get_log (\<lambda>l. lh_n (lg_lh l))) (\<lambda>n.
     each 0 (nat n) (\<lambda>tail.
       bnd (get_log lg_dev) (\<lambda>dev.
       bnd (get_log lg_start) (\<lambda>start.
       bnd (bread (of_int dev) (of_int (start + int tail + 1))) (\<lambda>lbuf.
       bnd (get_block tail) (\<lambda>blk.
       bnd (bread (of_int dev) (of_int blk)) (\<lambda>dbuf.
       bnd (buf_data lbuf) (\<lambda>d.
       sq (upd_data dbuf (\<lambda>_. d)) (
       sq (bwrite dbuf) (
       sq (brelse lbuf)
          (brelse dbuf)))))))))))"

text \<open>The header block: \<open>n\<close> at offset 0 and \<open>block[i]\<close> at offset \<open>4 + 4 * i\<close>, as C ints.\<close>

definition read_head :: "('x logst_scheme, unit) kmon" where
  "read_head =
     bnd (get_log lg_dev) (\<lambda>dev.
     bnd (get_log lg_start) (\<lambda>start.
     bnd (bread (of_int dev) (of_int start)) (\<lambda>buf.
     bnd (buf_data buf) (\<lambda>d.
     let n = sint (get32 d 0) in
     sq (upd_lh (\<lambda>h. h\<lparr>lh_n := n\<rparr>)) (
     sq (each 0 (nat n) (\<lambda>i. set_block i (sint (get32 d (4 + 4 * i)))))
        (brelse buf))))))"

definition write_head :: "('x logst_scheme, unit) kmon" where
  "write_head =
     bnd (get_log lg_dev) (\<lambda>dev.
     bnd (get_log lg_start) (\<lambda>start.
     bnd (bread (of_int dev) (of_int start)) (\<lambda>buf.
     bnd (get_log (\<lambda>l. lh_n (lg_lh l))) (\<lambda>n.
     sq (upd_data buf (\<lambda>d. put32 d 0 (of_int n))) (
     sq (each 0 (nat n) (\<lambda>i.
          bnd (get_block i) (\<lambda>blk.
          upd_data buf (\<lambda>d. put32 d (4 + 4 * i) (of_int blk))))) (
     sq (bwrite buf)
        (brelse buf)))))))"

definition recover_from_log :: "('x logst_scheme, unit) kmon" where
  "recover_from_log =
     sq read_head (
     sq install_trans (
     sq (upd_lh (\<lambda>h. h\<lparr>lh_n := 0\<rparr>))
        write_head))"

text \<open>
  \<open>initlog\<close>: the test \<open>sizeof(struct logheader) >= BSIZE\<close> compares two constants, 124 and 512.
\<close>

definition initlog :: "int \<Rightarrow> ('x logst_scheme, unit) kmon" where
  "initlog dev =
     (if 4 + 4 * LOGSIZE \<ge> 512 then panic ''initlog: too big logheader''
      else
        sq (initlock LLog ''log'') (
        bnd (readsb dev) (\<lambda>sb.
        sq (upd_log (\<lambda>l. l\<lparr>lg_start := sint (sb_logstart sb), lg_size := sint (sb_nlog sb),
              lg_dev := dev\<rparr>))
           recover_from_log)))"

definition write_log :: "('x logst_scheme, unit) kmon" where
  "write_log =
     bnd (get_log (\<lambda>l. lh_n (lg_lh l))) (\<lambda>n.
     each 0 (nat n) (\<lambda>tail.
       bnd (get_log lg_dev) (\<lambda>dev.
       bnd (get_log lg_start) (\<lambda>start.
       bnd (bread (of_int dev) (of_int (start + int tail + 1))) (\<lambda>to.
       bnd (get_block tail) (\<lambda>blk.
       bnd (bread (of_int dev) (of_int blk)) (\<lambda>from.
       bnd (buf_data from) (\<lambda>d.
       sq (upd_data to (\<lambda>_. d)) (
       sq (bwrite to) (
       sq (brelse from)
          (brelse to)))))))))))"

definition commit :: "('x logst_scheme, unit) kmon" where
  "commit =
     bnd (get_log (\<lambda>l. lh_n (lg_lh l))) (\<lambda>n.
     whenk (0 < n) (
       sq write_log (
       sq write_head (
       sq install_trans (
       sq (upd_lh (\<lambda>h. h\<lparr>lh_n := 0\<rparr>))
          write_head)))))"

section \<open>Transactions\<close>

definition begin_op :: "('x logst_scheme, unit) kmon" where
  "begin_op =
     sq (acquire LLog) (
     bnd (get_log (\<lambda>l. l)) (\<lambda>l.
     if lg_committing l \<noteq> 0 then sleep ChanLog (Some LLog)
     else if int LOGSIZE < lh_n (lg_lh l) + (lg_outstanding l + 1) * MAXOPBLOCKS
     then sleep ChanLog (Some LLog)
     else
       sq (upd_log (\<lambda>l. l\<lparr>lg_outstanding := lg_outstanding l + 1\<rparr>))
          (release LLog)))"

definition end_op :: "('x logst_scheme, unit) kmon" where
  "end_op =
     sq (acquire LLog) (
     sq (upd_log (\<lambda>l. l\<lparr>lg_outstanding := lg_outstanding l - 1\<rparr>)) (
     bnd (get_log (\<lambda>l. l)) (\<lambda>l.
     if lg_committing l \<noteq> 0 then panic ''log.committing''
     else
       let do_commit = (lg_outstanding l = 0) in
       sq (if do_commit then upd_log (\<lambda>l. l\<lparr>lg_committing := 1\<rparr>) else wakeup ChanLog) (
       sq (release LLog)
          (whenk do_commit (
             sq commit (
             sq (acquire LLog) (
             sq (upd_log (\<lambda>l. l\<lparr>lg_committing := 0\<rparr>)) (
             sq (wakeup ChanLog)
                (release LLog))))))))))"

definition log_write :: "nat \<Rightarrow> ('x logst_scheme, unit) kmon" where
  "log_write b =
     bnd (get_log (\<lambda>l. l)) (\<lambda>l.
     let n = lh_n (lg_lh l) in
     if int LOGSIZE \<le> n \<or> lg_size l - 1 \<le> n then panic ''too big a transaction''
     else if lg_outstanding l < 1 then panic ''log_write outside of trans''
     else
       sq (acquire LLog) (
       bnd (get_buf b) (\<lambda>k.
       bnd (for_loop 0 (nat n) (\<lambda>i.
             bnd (get_block i) (\<lambda>blk.
             ret (if of_int blk = b_blockno k then Some i else None)))) (\<lambda>r.
       let i = (case r of Some i \<Rightarrow> i | None \<Rightarrow> nat n) in
       sq (set_block i (sint (b_blockno k))) (
       sq (whenk (int i = n) (upd_lh (\<lambda>h. h\<lparr>lh_n := n + 1\<rparr>))) (
       sq (upd_buf b (\<lambda>k. k\<lparr>b_flags := b_flags k OR B_DIRTY\<rparr>))
          (release LLog)))))))"

end
