(* ===== verification/Inode.thy ===== *)
theory Inode
  imports Log
begin

text \<open>
  The lower half of fs.c: the block allocator, the inode cache and the blocks of an inode. A pointer to
  an in-memory inode is its index in \<open>icache\<close>. Shorts are 16-bit words. A read or write of a structure
  inside a buffer is a read or write of the bytes at its offset.
\<close>

section \<open>State\<close>

text \<open>Block numbers from fs.h: eight on-disk inodes of 64 bytes and 4096 bitmap bits to a block.\<close>

definition IBLOCK :: "u32 \<Rightarrow> superblock \<Rightarrow> u32" where
  "IBLOCK i b = i div 8 + sb_inodestart b"

definition BBLOCK :: "u32 \<Rightarrow> superblock \<Rightarrow> u32" where
  "BBLOCK i b = i div 4096 + sb_bmapstart b"

record inode =
  i_dev :: u32
  i_inum :: u32
  i_ref :: int
  i_valid :: int
  i_type :: u16
  i_major :: u16
  i_minor :: u16
  i_nlink :: u16
  i_size :: u32
  i_addrs :: "u32 list"

record fsst = logst +
  sb :: superblock
  icache :: "inode list"

abbreviation NINODE :: nat where "NINODE \<equiv> 50"
abbreviation NDIRECT :: nat where "NDIRECT \<equiv> 12"
abbreviation NINDIRECT :: nat where "NINDIRECT \<equiv> 128"
abbreviation (input) T_DIR :: u16 where "T_DIR \<equiv> 1"
abbreviation (input) T_FILE :: u16 where "T_FILE \<equiv> 2"
abbreviation (input) T_DEV :: u16 where "T_DEV \<equiv> 3"
abbreviation (input) ROOTDEV :: u32 where "ROOTDEV \<equiv> 1"
abbreviation (input) ROOTINO :: u32 where "ROOTINO \<equiv> 1"

definition upd_inode :: "nat \<Rightarrow> (inode \<Rightarrow> inode) \<Rightarrow> ('x fsst_scheme, unit) kmon" where
  "upd_inode i f = modify (\<lambda>s. s\<lparr>icache := (icache s)[i := f (icache s ! i)]\<rparr>)"

definition get_inode :: "nat \<Rightarrow> ('x fsst_scheme, inode) kmon" where
  "get_inode i = gets (\<lambda>s. icache s ! i)"

section \<open>Blocks\<close>

definition bzero :: "int \<Rightarrow> int \<Rightarrow> ('x logst_scheme, unit) kmon" where
  "bzero dev bno =
     bnd (bread (of_int dev) (of_int bno)) (\<lambda>bp.
     sq (upd_data bp (\<lambda>_. replicate 512 0)) (
     sq (log_write bp)
        (brelse bp)))"

text \<open>Bit \<open>bi\<close> of a bitmap block.\<close>

definition bitmap_bit :: "u8 list \<Rightarrow> nat \<Rightarrow> bool" where
  "bitmap_bit d bi \<longleftrightarrow> (d ! (bi div 8)) AND push_bit (bi mod 8) 1 \<noteq> 0"

definition bitmap_set :: "nat \<Rightarrow> u8 list \<Rightarrow> u8 list" where
  "bitmap_set bi d = d[bi div 8 := d ! (bi div 8) OR push_bit (bi mod 8) 1]"

definition bitmap_clear :: "nat \<Rightarrow> u8 list \<Rightarrow> u8 list" where
  "bitmap_clear bi d = d[bi div 8 := d ! (bi div 8) AND NOT (push_bit (bi mod 8) 1)]"

text \<open>
  The outer loop of \<open>balloc\<close> visits the bitmap blocks \<open>b = 0, BPB, 2 * BPB, ...\<close> while \<open>b < sb.size\<close>; its
  int variable must not overflow. The inner loop stops at the first clear bit below \<open>sb.size\<close>.
\<close>

definition balloc_block :: "u32 \<Rightarrow> u32 \<Rightarrow> nat \<Rightarrow> ('x fsst_scheme, u32 option) kmon" where
  "balloc_block dev sz k =
     (let b = 4096 * k in
      if 2 ^ 31 \<le> b then fail (Undefined ''balloc: signed overflow'')
      else
        bnd (gets sb) (\<lambda>sb.
        bnd (bread dev (BBLOCK (of_nat b) sb)) (\<lambda>bp.
        bnd (buf_data bp) (\<lambda>d.
        case first_index (\<lambda>bi. \<not> bitmap_bit d bi) (min 4096 (unat sz - b)) of
          Some bi \<Rightarrow>
            sq (upd_data bp (bitmap_set bi)) (
            sq (log_write bp) (
            sq (brelse bp) (
            sq (bzero (uint dev) (int (b + bi)))
               (ret (Some (of_nat (b + bi)))))))
        | None \<Rightarrow> sq (brelse bp) (ret None)))))"

definition balloc :: "u32 \<Rightarrow> ('x fsst_scheme, u32) kmon" where
  "balloc dev =
     bnd (gets (\<lambda>s. sb_size (sb s))) (\<lambda>sz.
     bnd (for_loop 0 ((unat sz + 4095) div 4096) (balloc_block dev sz)) (\<lambda>r.
     case r of Some b \<Rightarrow> ret b | None \<Rightarrow> panic ''balloc: out of blocks''))"

definition bfree :: "u32 \<Rightarrow> u32 \<Rightarrow> ('x fsst_scheme, unit) kmon" where
  "bfree dev b =
     bnd (gets sb) (\<lambda>sb.
     bnd (bread dev (BBLOCK b sb)) (\<lambda>bp.
     bnd (buf_data bp) (\<lambda>d.
     let bi = unat (b mod 4096) in
     if \<not> bitmap_bit d bi then panic ''freeing free block''
     else
       sq (upd_data bp (bitmap_clear bi)) (
       sq (log_write bp)
          (brelse bp)))))"

section \<open>Inodes\<close>

definition iinit :: "int \<Rightarrow> ('x fsst_scheme, unit) kmon" where
  "iinit dev =
     sq (initlock LIcache ''icache'') (
     sq (each 0 NINODE (\<lambda>i. initsleeplock (LInodeSleep i) ''inode'')) (
     bnd (readsb dev) (\<lambda>b.
     sq (modify (\<lambda>s. s\<lparr>sb := b\<rparr>))
        (cprintfa ''sb: size %d nblocks %d ninodes %d nlog %d logstart %d inodestart %d bmap start %d\<newline>''
          [AWord (sb_size b), AWord (sb_nblocks b), AWord (sb_ninodes b), AWord (sb_nlog b),
           AWord (sb_logstart b), AWord (sb_inodestart b), AWord (sb_bmapstart b)]))))"

text \<open>
  The on-disk inode at offset \<open>o\<close> of a block: type, major, minor and nlink as shorts, the size and
  thirteen block addresses as words.
\<close>

definition dinode_type :: "u8 list \<Rightarrow> nat \<Rightarrow> u16" where
  "dinode_type d o' = get16 d o'"

definition load_dinode :: "u8 list \<Rightarrow> nat \<Rightarrow> inode \<Rightarrow> inode" where
  "load_dinode d o' ip = ip\<lparr>i_type := get16 d o', i_major := get16 d (o' + 2),
     i_minor := get16 d (o' + 4), i_nlink := get16 d (o' + 6), i_size := get32 d (o' + 8),
     i_addrs := map (\<lambda>k. get32 d (o' + 12 + 4 * k)) [0..<NDIRECT + 1]\<rparr>"

primrec store_addrs :: "u8 list \<Rightarrow> nat \<Rightarrow> u32 list \<Rightarrow> u8 list" where
  "store_addrs d o' [] = d"
| "store_addrs d o' (a # as) = store_addrs (put32 d o' a) (o' + 4) as"

definition store_dinode :: "inode \<Rightarrow> nat \<Rightarrow> u8 list \<Rightarrow> u8 list" where
  "store_dinode ip o' d =
     store_addrs
       (put32 (put16 (put16 (put16 (put16 d o' (i_type ip)) (o' + 2) (i_major ip))
          (o' + 4) (i_minor ip)) (o' + 6) (i_nlink ip)) (o' + 8) (i_size ip))
       (o' + 12) (take (NDIRECT + 1) (i_addrs ip))"

definition dinode_off :: "u32 \<Rightarrow> nat" where
  "dinode_off inum = 64 * unat (inum mod 8)"

definition iget :: "u32 \<Rightarrow> u32 \<Rightarrow> ('x fsst_scheme, nat) kmon" where
  "iget dev inum =
     sq (acquire LIcache) (
     bnd (gets icache) (\<lambda>c.
     case first_index (\<lambda>i. 0 < i_ref (c ! i) \<and> i_dev (c ! i) = dev \<and> i_inum (c ! i) = inum) NINODE of
       Some i \<Rightarrow>
         sq (upd_inode i (\<lambda>k. k\<lparr>i_ref := i_ref k + 1\<rparr>)) (
         sq (release LIcache)
            (ret i))
     | None \<Rightarrow>
         case first_index (\<lambda>i. i_ref (c ! i) = 0) NINODE of
           None \<Rightarrow> panic ''iget: no inodes''
         | Some i \<Rightarrow>
             sq (upd_inode i (\<lambda>k. k\<lparr>i_dev := dev, i_inum := inum, i_ref := 1, i_valid := 0\<rparr>)) (
             sq (release LIcache)
                (ret i))))"

definition ialloc :: "u32 \<Rightarrow> u16 \<Rightarrow> ('x fsst_scheme, nat) kmon" where
  "ialloc dev type =
     bnd (gets sb) (\<lambda>sb.
     bnd (for_loop 1 (unat (sb_ninodes sb) - 1) (\<lambda>inum.
       let n = of_nat inum in
       bnd (bread dev (IBLOCK n sb)) (\<lambda>bp.
       bnd (buf_data bp) (\<lambda>d.
       if dinode_type d (dinode_off n) = 0 then
         sq (upd_data bp (\<lambda>d. put16 (take (dinode_off n) d @ replicate 64 0 @ drop (dinode_off n + 64) d)
               (dinode_off n) type)) (
         sq (log_write bp) (
         sq (brelse bp) (
         bnd (iget dev n) (\<lambda>ip. ret (Some ip)))))
       else sq (brelse bp) (ret None))))) (\<lambda>r.
     case r of Some ip \<Rightarrow> ret ip | None \<Rightarrow> panic ''ialloc: no inodes''))"

definition iupdate :: "nat \<Rightarrow> ('x fsst_scheme, unit) kmon" where
  "iupdate i =
     bnd (get_inode i) (\<lambda>ip.
     bnd (gets sb) (\<lambda>sb.
     bnd (bread (i_dev ip) (IBLOCK (i_inum ip) sb)) (\<lambda>bp.
     sq (upd_data bp (store_dinode ip (dinode_off (i_inum ip)))) (
     sq (log_write bp)
        (brelse bp)))))"

definition idup :: "nat \<Rightarrow> ('x fsst_scheme, nat) kmon" where
  "idup i =
     sq (acquire LIcache) (
     sq (upd_inode i (\<lambda>k. k\<lparr>i_ref := i_ref k + 1\<rparr>)) (
     sq (release LIcache)
        (ret i)))"

definition ilock :: "nat option \<Rightarrow> ('x fsst_scheme, unit) kmon" where
  "ilock ip =
     (case ip of None \<Rightarrow> panic ''ilock'' | Some i \<Rightarrow>
       bnd (get_inode i) (\<lambda>k.
       if i_ref k < 1 then panic ''ilock''
       else
         sq (acquiresleep (LInodeSleep i)) (
         bnd (get_inode i) (\<lambda>k.
         whenk (i_valid k = 0) (
           bnd (gets sb) (\<lambda>sb.
           bnd (bread (i_dev k) (IBLOCK (i_inum k) sb)) (\<lambda>bp.
           bnd (buf_data bp) (\<lambda>d.
           sq (upd_inode i (load_dinode d (dinode_off (i_inum k)))) (
           sq (brelse bp) (
           sq (upd_inode i (\<lambda>k. k\<lparr>i_valid := 1\<rparr>)) (
           bnd (get_inode i) (\<lambda>k.
           whenk (i_type k = 0) (panic ''ilock: no type'')))))))))))))"

definition iunlock :: "nat option \<Rightarrow> ('x fsst_scheme, unit) kmon" where
  "iunlock ip =
     (case ip of None \<Rightarrow> panic ''iunlock'' | Some i \<Rightarrow>
       bnd (holdingsleep (LInodeSleep i)) (\<lambda>h.
       bnd (get_inode i) (\<lambda>k.
       if \<not> h \<or> i_ref k < 1 then panic ''iunlock''
       else releasesleep (LInodeSleep i))))"

section \<open>The blocks of an inode\<close>

definition bmap :: "nat \<Rightarrow> u32 \<Rightarrow> ('x fsst_scheme, u32) kmon" where
  "bmap i bn =
     bnd (get_inode i) (\<lambda>ip.
     if unat bn < NDIRECT then
       let addr = i_addrs ip ! unat bn in
       if addr = 0 then
         bnd (balloc (i_dev ip)) (\<lambda>a.
         sq (upd_inode i (\<lambda>k. k\<lparr>i_addrs := (i_addrs k)[unat bn := a]\<rparr>))
            (ret a))
       else ret addr
     else if unat bn - NDIRECT < NINDIRECT then
       let n = unat bn - NDIRECT in
       bnd (if i_addrs ip ! NDIRECT = 0 then
              bnd (balloc (i_dev ip)) (\<lambda>a.
              sq (upd_inode i (\<lambda>k. k\<lparr>i_addrs := (i_addrs k)[NDIRECT := a]\<rparr>))
                 (ret a))
            else ret (i_addrs ip ! NDIRECT)) (\<lambda>ind.
       bnd (bread (i_dev ip) ind) (\<lambda>bp.
       bnd (buf_data bp) (\<lambda>d.
       bnd (if get32 d (4 * n) = 0 then
              bnd (balloc (i_dev ip)) (\<lambda>a.
              sq (upd_data bp (\<lambda>d. put32 d (4 * n) a)) (
              sq (log_write bp)
                 (ret a)))
            else ret (get32 d (4 * n))) (\<lambda>addr.
       sq (brelse bp)
          (ret addr)))))
     else panic ''bmap: out of range'')"

definition itrunc :: "nat \<Rightarrow> ('x fsst_scheme, unit) kmon" where
  "itrunc i =
     sq (each 0 NDIRECT (\<lambda>j.
          bnd (get_inode i) (\<lambda>ip.
          whenk (i_addrs ip ! j \<noteq> 0) (
            sq (bfree (i_dev ip) (i_addrs ip ! j))
               (upd_inode i (\<lambda>k. k\<lparr>i_addrs := (i_addrs k)[j := 0]\<rparr>)))))) (
     bnd (get_inode i) (\<lambda>ip.
     sq (whenk (i_addrs ip ! NDIRECT \<noteq> 0) (
          bnd (bread (i_dev ip) (i_addrs ip ! NDIRECT)) (\<lambda>bp.
          sq (each 0 NINDIRECT (\<lambda>j.
               bnd (buf_data bp) (\<lambda>d.
               whenk (get32 d (4 * j) \<noteq> 0) (bfree (i_dev ip) (get32 d (4 * j)))))) (
          sq (brelse bp) (
          sq (bfree (i_dev ip) (i_addrs ip ! NDIRECT))
             (upd_inode i (\<lambda>k. k\<lparr>i_addrs := (i_addrs k)[NDIRECT := 0]\<rparr>))))))) (
     sq (upd_inode i (\<lambda>k. k\<lparr>i_size := 0\<rparr>))
        (iupdate i))))"

definition iput :: "nat \<Rightarrow> ('x fsst_scheme, unit) kmon" where
  "iput i =
     sq (acquiresleep (LInodeSleep i)) (
     bnd (get_inode i) (\<lambda>k.
     sq (whenk (i_valid k \<noteq> 0 \<and> i_nlink k = 0) (
          sq (acquire LIcache) (
          bnd (get_inode i) (\<lambda>k.
          sq (release LIcache) (
          whenk (i_ref k = 1) (
            sq (itrunc i) (
            sq (upd_inode i (\<lambda>k. k\<lparr>i_type := 0\<rparr>)) (
            sq (iupdate i)
               (upd_inode i (\<lambda>k. k\<lparr>i_valid := 0\<rparr>)))))))))) (
     sq (releasesleep (LInodeSleep i)) (
     sq (acquire LIcache) (
     sq (upd_inode i (\<lambda>k. k\<lparr>i_ref := i_ref k - 1\<rparr>))
        (release LIcache))))))"

definition iunlockput :: "nat \<Rightarrow> ('x fsst_scheme, unit) kmon" where
  "iunlockput i = sq (iunlock (Some i)) (iput i)"

text \<open>
  \<open>struct stat\<close> at address \<open>st\<close>: type at offset 0 (a short), dev at 4, ino at 8, nlink at 12 (a short)
  and size at 16.
\<close>

definition stati :: "nat \<Rightarrow> u32 \<Rightarrow> ('x fsst_scheme, unit) kmon" where
  "stati i st =
     bnd (get_inode i) (\<lambda>k.
     sq (vst32 (st + 4) (i_dev k)) (
     sq (vst32 (st + 8) (i_inum k)) (
     sq (vstore st (put16 [0, 0] 0 (i_type k))) (
     sq (vstore (st + 12) (put16 [0, 0] 0 (i_nlink k)))
        (vst32 (st + 16) (i_size k))))))"

end
