(* ===== verification/Console.thy ===== *)
theory Console
  imports Inode "HOL-Library.Char_ord"
begin

text \<open>
  console.c: the characters that \<open>cprintf\<close> prints, the screen, the input line editor and the console
  device, with the serial output of uart.c. The hardware is the state it leaves: the cursor position
  in the CRT controller, the cells of the screen, the bytes sent to the serial port and the list of
  calls to the interrupt controllers.
\<close>

section \<open>Formatted output\<close>

definition hexdigit :: "nat \<Rightarrow> char" where
  "hexdigit d = ''0123456789abcdef'' ! d"

text \<open>
  The digits of \<open>x\<close>, least significant first, as the do-while loop of \<open>printint\<close> stores them in \<open>buf\<close>.
  The callers pass the bases 10 and 16.
\<close>

function digits_of :: "nat \<Rightarrow> u32 \<Rightarrow> string" where
  "digits_of base x =
     hexdigit (unat x mod base)
       # (if base < 2 \<or> unat x div base = 0 then [] else digits_of base (of_nat (unat x div base)))"
  by auto

termination
proof (relation "measure (\<lambda>(b, x). unat x)")
  fix base :: nat and x :: u32
  assume "\<not> (base < 2 \<or> unat x div base = 0)"
  then have b: "1 < base" and "0 < unat x" by (auto intro: ccontr)
  then have lt: "unat x div base < unat x" by simp
  have "unat x < 4294967296" by (rule unat_lt_2p32)
  then have "unat (of_nat (unat x div base) :: u32) = unat x div base"
    using lt by (simp add: unat_of_nat)
  then show "((base, of_nat (unat x div base)), base, x) \<in> measure (\<lambda>(b, x). unat x)"
    using lt by simp
qed simp

declare digits_of.simps [simp del]

definition printint :: "u32 \<Rightarrow> nat \<Rightarrow> bool \<Rightarrow> string" where
  "printint xx base sign =
     (let neg = (sign \<and> sint xx < 0);
          x = (if neg then - xx else xx)
      in rev (digits_of base x @ (if neg then ''-'' else [])))"

text \<open>
  A string argument ends at its first zero byte. An integer conversion of a string argument would print
  its address, which the model does not know: no result.
\<close>

definition int_arg :: "karg \<Rightarrow> u32 option" where
  "int_arg a = (case a of AInt i \<Rightarrow> Some (of_int i) | AWord w \<Rightarrow> Some w | _ \<Rightarrow> None)"

definition str_arg :: "karg \<Rightarrow> string option" where
  "str_arg a = (case a of
      AStr t \<Rightarrow> Some t
    | AChars bs \<Rightarrow> Some (map (\<lambda>b. char_of (unat b)) (takeWhile (\<lambda>b. b \<noteq> 0) bs))
    | AInt i \<Rightarrow> if (of_int i :: u32) = 0 then Some ''(null)'' else None
    | AWord w \<Rightarrow> if w = 0 then Some ''(null)'' else None)"

text \<open>The characters that \<open>cprintf\<close> hands to \<open>consputc\<close>; no result where it reads an argument that is
  missing.\<close>

fun cprintf_chars :: "string \<Rightarrow> karg list \<Rightarrow> string option" where
  "cprintf_chars [] as = Some []"
| "cprintf_chars (c # fmt) as =
     (if c \<noteq> CHR ''%'' then map_option ((#) c) (cprintf_chars fmt as)
      else case fmt of
        [] \<Rightarrow> Some []
      | k # fmt' \<Rightarrow>
          if k = CHR ''d'' \<or> k = CHR ''x'' \<or> k = CHR ''p'' then
            (case as of
               [] \<Rightarrow> None
             | a # as' \<Rightarrow>
                 (case int_arg a of
                    None \<Rightarrow> None
                  | Some v \<Rightarrow>
                      map_option ((@) (if k = CHR ''d'' then printint v 10 True else printint v 16 False))
                        (cprintf_chars fmt' as')))
          else if k = CHR ''s'' then
            (case as of
               [] \<Rightarrow> None
             | a # as' \<Rightarrow>
                 (case str_arg a of
                    None \<Rightarrow> None
                  | Some t \<Rightarrow> map_option ((@) t) (cprintf_chars fmt' as')))
          else if k = CHR ''%'' then map_option ((#) CHR ''%'') (cprintf_chars fmt' as)
          else map_option ((@) [CHR ''%'', k]) (cprintf_chars fmt' as))"

section \<open>State\<close>

datatype hwcall = Ioapicenable int int | Lapiceoi

text \<open>A function pointer of the device table: the console is the only device that sets one.\<close>

datatype devread = Consoleread
datatype devwrite = Consolewrite

record input =
  in_buf :: "u8 list"
  in_r :: u32
  in_w :: u32
  in_e :: u32

record consst = fsst +
  cons_locking :: int
  panicked :: bool
  crt :: "nat \<Rightarrow> u16"
  crt_pos :: u16
  uart :: bool
  uart_out :: "u8 list"
  input :: input
  devsw :: "(devread option \<times> devwrite option) list"
  hwcalls :: "hwcall list"

abbreviation (input) BACKSPACE :: int where "BACKSPACE \<equiv> 256"
abbreviation (input) INPUT_BUF :: u32 where "INPUT_BUF \<equiv> 128"

definition hwcall :: "hwcall \<Rightarrow> ('x consst_scheme, unit) kmon" where
  "hwcall h = modify (\<lambda>s. s\<lparr>hwcalls := hwcalls s @ [h]\<rparr>)"

definition upd_input :: "(input \<Rightarrow> input) \<Rightarrow> ('x consst_scheme, unit) kmon" where
  "upd_input f = modify (\<lambda>s. s\<lparr>input := f (input s)\<rparr>)"

section \<open>The screen\<close>

definition uartputc :: "int \<Rightarrow> ('x consst_scheme, unit) kmon" where
  "uartputc c = modify (\<lambda>s. if uart s then s\<lparr>uart_out := uart_out s @ [of_int c]\<rparr> else s)"

text \<open>The new cursor position before scrolling, and the screen with the character in place.\<close>

definition cga_put :: "int \<Rightarrow> int \<Rightarrow> (nat \<Rightarrow> u16) \<Rightarrow> int \<times> (nat \<Rightarrow> u16)" where
  "cga_put c pos scr =
     (if c = 10 then (pos + (80 - pos mod 80), scr)
      else if c = BACKSPACE then (if 0 < pos then pos - 1 else pos, scr)
      else (pos + 1, scr(nat pos := (of_int c AND 0xff) OR 0x0700)))"

definition cga_scroll :: "int \<Rightarrow> (nat \<Rightarrow> u16) \<Rightarrow> int \<times> (nat \<Rightarrow> u16)" where
  "cga_scroll pos scr =
     (if 24 \<le> pos div 80 then
        let pos' = pos - 80;
            moved = (\<lambda>i. if i < 23 * 80 then scr (i + 80) else scr i)
        in (pos', \<lambda>i. if nat pos' \<le> i \<and> i < 24 * 80 then 0 else moved i)
      else (pos, scr))"

definition cgaputc :: "int \<Rightarrow> ('x consst_scheme, unit) kmon" where
  "cgaputc c =
     bnd (gets crt_pos) (\<lambda>reg.
     bnd (gets crt) (\<lambda>scr.
     let (pos, scr) = cga_put c (uint reg) scr in
     if pos < 0 \<or> 25 * 80 < pos then sq (modify (\<lambda>s. s\<lparr>crt := scr\<rparr>)) (panic ''pos under/overflow'')
     else
       let (pos, scr) = cga_scroll pos scr in
       modify (\<lambda>s. s\<lparr>crt_pos := of_int pos, crt := scr(nat pos := 0x0720)\<rparr>)))"

definition consputc :: "int \<Rightarrow> ('x consst_scheme, unit) kmon" where
  "consputc c =
     bnd (gets panicked) (\<lambda>p.
     if p then sq cli (fail Diverges)
     else
       sq (if c = BACKSPACE then sq (uartputc 8) (sq (uartputc 32) (uartputc 8)) else uartputc c)
          (cgaputc c))"

section \<open>Line input\<close>

text \<open>
  Control-U: the loop runs at most \<open>e - w\<close> times, since every round takes one from \<open>e\<close>.
\<close>

primrec kill_line :: "nat \<Rightarrow> ('x consst_scheme, unit) kmon" where
  "kill_line 0 = ret ()"
| "kill_line (Suc k) =
     bnd (gets input) (\<lambda>i.
     if in_e i \<noteq> in_w i \<and> in_buf i ! unat ((in_e i - 1) mod INPUT_BUF) \<noteq> 10 then
       sq (upd_input (\<lambda>i. i\<lparr>in_e := in_e i - 1\<rparr>)) (
       sq (consputc BACKSPACE)
          (kill_line k))
     else ret ())"

text \<open>One round of \<open>consoleintr\<close>; the result tells whether the process list was asked for.\<close>

definition consoleintr_char :: "int \<Rightarrow> ('x consst_scheme, bool) kmon" where
  "consoleintr_char c =
     bnd (gets input) (\<lambda>i.
     if c = 16 then ret True
     else if c = 21 then sq (kill_line (unat (in_e i - in_w i))) (ret False)
     else if c = 8 \<or> c = 127 then
       sq (whenk (in_e i \<noteq> in_w i) (
            sq (upd_input (\<lambda>i. i\<lparr>in_e := in_e i - 1\<rparr>))
               (consputc BACKSPACE)))
          (ret False)
     else if c \<noteq> 0 \<and> in_e i - in_r i < INPUT_BUF then
       let c = (if c = 13 then 10 else c) in
       sq (upd_input (\<lambda>i. i\<lparr>in_buf := (in_buf i)[unat (in_e i mod INPUT_BUF) := of_int c],
             in_e := in_e i + 1\<rparr>)) (
       sq (consputc c) (
       bnd (gets input) (\<lambda>i.
       sq (whenk (c = 10 \<or> c = 4 \<or> in_e i = in_r i + INPUT_BUF) (
            sq (upd_input (\<lambda>i. i\<lparr>in_w := in_e i\<rparr>))
               (wakeup ChanInput)))
          (ret False))))
     else ret False)"

primrec consoleintr_loop :: "int list \<Rightarrow> bool \<Rightarrow> ('x consst_scheme, bool) kmon" where
  "consoleintr_loop [] dump = ret dump"
| "consoleintr_loop (c # cs) dump =
     bnd (consoleintr_char c) (\<lambda>d. consoleintr_loop cs (dump \<or> d))"

text \<open>\<open>cs\<close> are the characters that \<open>getc\<close> returns before its first negative result.\<close>

definition consoleintr :: "int list \<Rightarrow> ('x consst_scheme, unit) kmon" where
  "consoleintr cs =
     sq (acquire LCons) (
     bnd (consoleintr_loop cs False) (\<lambda>doprocdump.
     sq (release LCons)
        (whenk doprocdump procdump)))"

section \<open>The console device\<close>

text \<open>
  The destination of a read is given by \<open>put d k bs\<close>, which stores the bytes \<open>bs\<close> at offset \<open>k\<close> and
  returns the updated destination: user memory, for which it is a store, or a local variable of the
  caller. \<open>consoleread_loop target put n d\<close> is the loop with \<open>n\<close> characters still to read; it returns
  the count left, or \<open>None\<close> for a killed process.
\<close>

primrec consoleread_loop ::
    "nat \<Rightarrow> ('d \<Rightarrow> u32 \<Rightarrow> u8 list \<Rightarrow> ('x consst_scheme, 'd) kmon) \<Rightarrow> nat \<Rightarrow> 'd
      \<Rightarrow> ('x consst_scheme, nat option \<times> 'd) kmon" where
  "consoleread_loop target put 0 d = ret (Some 0, d)"
| "consoleread_loop target put (Suc n) d =
     bnd (gets input) (\<lambda>i.
     bnd (if in_r i = in_w i then
            bnd curproc (\<lambda>p.
            bnd (get_proc p) (\<lambda>q.
            if p_killed q \<noteq> 0 then ret True
            else sq (sleep ChanInput (Some LCons)) (ret False)))
          else ret False) (\<lambda>killed.
     if killed then ret (None, d)
     else bnd (gets input) (\<lambda>i.
       let c = in_buf i ! unat (in_r i mod INPUT_BUF) in
       sq (upd_input (\<lambda>i. i\<lparr>in_r := in_r i + 1\<rparr>)) (
       if c = 4 then
         sq (whenk (Suc n < target) (upd_input (\<lambda>i. i\<lparr>in_r := in_r i - 1\<rparr>)))
            (ret (Some (Suc n), d))
       else
         bnd (put d (of_nat (target - Suc n)) [c]) (\<lambda>d.
         if c = 10 then ret (Some n, d)
         else consoleread_loop target put n d)))))"

definition consoleread ::
    "('d \<Rightarrow> u32 \<Rightarrow> u8 list \<Rightarrow> ('x consst_scheme, 'd) kmon) \<Rightarrow> nat \<Rightarrow> 'd \<Rightarrow> int
      \<Rightarrow> ('x consst_scheme, int \<times> 'd) kmon" where
  "consoleread put ip d n =
     sq (iunlock (Some ip)) (
     sq (acquire LCons) (
     bnd (consoleread_loop (nat n) put (nat n) d) (\<lambda>(left, d).
     sq (release LCons) (
     sq (ilock (Some ip))
        (ret (case left of None \<Rightarrow> -1 | Some k \<Rightarrow> int (nat n - k), d))))))"

text \<open>The source of a write is given by \<open>src k m\<close>, which fetches \<open>m\<close> bytes from offset \<open>k\<close>.\<close>

definition consolewrite ::
    "(u32 \<Rightarrow> nat \<Rightarrow> ('x consst_scheme, u8 list) kmon) \<Rightarrow> nat \<Rightarrow> int \<Rightarrow> ('x consst_scheme, int) kmon" where
  "consolewrite src ip n =
     sq (iunlock (Some ip)) (
     sq (acquire LCons) (
     sq (each 0 (nat n) (\<lambda>i. bnd (src (of_nat i) 1) (\<lambda>bs. consputc (uint (bs ! 0))))) (
     sq (release LCons) (
     sq (ilock (Some ip))
        (ret n)))))"

definition consoleinit :: "('x consst_scheme, unit) kmon" where
  "consoleinit =
     sq (initlock LCons ''console'') (
     sq (modify (\<lambda>s. s\<lparr>devsw := (devsw s)[1 := (Some Consoleread, Some Consolewrite)]\<rparr>)) (
     sq (modify (\<lambda>s. s\<lparr>cons_locking := 1\<rparr>))
        (hwcall (Ioapicenable 1 0))))"

end
