(* ===== verification/Fs.thy ===== *)
theory Fs
  imports Console Cstring
begin

text \<open>
  The upper half of fs.c: the content of inodes, directories and path names. The destination of a read
  and the source of a write are given by functions, as for the console device, so that one definition
  serves user memory and the local variables of the kernel. A path is the list of the bytes of the
  string without its terminator; a directory entry name is an array of \<open>DIRSIZ\<close> bytes.
\<close>

section \<open>Destinations and sources\<close>

definition put_user :: "u32 \<Rightarrow> unit \<Rightarrow> u32 \<Rightarrow> u8 list \<Rightarrow> ('x machine_scheme, unit) kmon" where
  "put_user dst d k bs = vstore (dst + k) bs"

definition put_local :: "u8 list \<Rightarrow> u32 \<Rightarrow> u8 list \<Rightarrow> ('s, u8 list) kmon" where
  "put_local d k bs = ret (take (unat k) d @ bs @ drop (unat k + length bs) d)"

definition src_user :: "u32 \<Rightarrow> u32 \<Rightarrow> nat \<Rightarrow> ('x machine_scheme, u8 list) kmon" where
  "src_user src k m = vload (src + k) m"

definition src_local :: "u8 list \<Rightarrow> u32 \<Rightarrow> nat \<Rightarrow> ('s, u8 list) kmon" where
  "src_local bs k m = ret (take m (drop (unat k) bs))"

section \<open>Inode content\<close>

text \<open>The bytes that one round of the loops of \<open>readi\<close> and \<open>writei\<close> moves.\<close>

definition piece :: "u32 \<Rightarrow> u32 \<Rightarrow> u32 \<Rightarrow> u32" where
  "piece off tot n = min (n - tot) (BSIZE - off mod BSIZE)"

lemma piece_less:
  assumes "tot < n"
  shows "unat (n - (tot + piece off tot n)) < unat (n - tot)"
proof -
  have "off mod 512 < 512" by (simp add: word_mod_less_divisor)
  then have "(512 :: u32) - off mod 512 \<noteq> 0" by (metis less_irrefl right_minus_eq)
  moreover have "n - tot \<noteq> 0" using assms by auto
  ultimately have "piece off tot n \<noteq> 0" by (simp add: piece_def min_def)
  moreover have "piece off tot n \<le> n - tot" by (simp add: piece_def)
  ultimately have "unat (n - tot - piece off tot n) < unat (n - tot)"
    using unat_gt_0 [of "piece off tot n"] by (simp add: unat_sub word_le_nat_alt)
  then show ?thesis by (simp add: diff_diff_eq)
qed

function readi_loop ::
    "('d \<Rightarrow> u32 \<Rightarrow> u8 list \<Rightarrow> ('x consst_scheme, 'd) kmon) \<Rightarrow> nat \<Rightarrow> 'd \<Rightarrow> u32 \<Rightarrow> u32 \<Rightarrow> u32
      \<Rightarrow> ('x consst_scheme, 'd) kmon" where
  "readi_loop put i d off tot n =
     (if tot < n then
        bnd (bmap i (off div BSIZE)) (\<lambda>a.
        bnd (get_inode i) (\<lambda>ip.
        bnd (bread (i_dev ip) a) (\<lambda>bp.
        bnd (buf_data bp) (\<lambda>data.
        let m = piece off tot n in
        bnd (put d tot (take (unat m) (drop (unat (off mod BSIZE)) data))) (\<lambda>d.
        sq (brelse bp)
           (readi_loop put i d (off + m) (tot + m) n))))))
      else ret d)"
  by auto

termination
  by (relation "measure (\<lambda>(put, i, d, off, tot, n). unat (n - tot))") (use piece_less in simp_all)

declare readi_loop.simps [simp del]

definition readi ::
    "('d \<Rightarrow> u32 \<Rightarrow> u8 list \<Rightarrow> ('x consst_scheme, 'd) kmon) \<Rightarrow> nat \<Rightarrow> 'd \<Rightarrow> u32 \<Rightarrow> u32
      \<Rightarrow> ('x consst_scheme, int \<times> 'd) kmon" where
  "readi put i d off n =
     bnd (get_inode i) (\<lambda>ip.
     if i_type ip = T_DEV then
       let major = sint (i_major ip) in
       if major < 0 \<or> 10 \<le> major then ret (-1, d)
       else bnd (gets (\<lambda>s. fst (devsw s ! nat major))) (\<lambda>f.
         case f of
           None \<Rightarrow> ret (-1, d)
         | Some Consoleread \<Rightarrow> consoleread put i d (sint n))
     else if i_size ip < off \<or> off + n < off then ret (-1, d)
     else
       let n = (if i_size ip < off + n then i_size ip - off else n) in
       bnd (readi_loop put i d off 0 n) (\<lambda>d.
       ret (sint n, d)))"

function writei_loop ::
    "(u32 \<Rightarrow> nat \<Rightarrow> ('x consst_scheme, u8 list) kmon) \<Rightarrow> nat \<Rightarrow> u32 \<Rightarrow> u32 \<Rightarrow> u32
      \<Rightarrow> ('x consst_scheme, u32) kmon" where
  "writei_loop src i off tot n =
     (if tot < n then
        bnd (bmap i (off div BSIZE)) (\<lambda>a.
        bnd (get_inode i) (\<lambda>ip.
        bnd (bread (i_dev ip) a) (\<lambda>bp.
        let m = piece off tot n; o' = unat (off mod BSIZE) in
        bnd (src tot (unat m)) (\<lambda>bs.
        sq (upd_data bp (\<lambda>d. take o' d @ bs @ drop (o' + length bs) d)) (
        sq (log_write bp) (
        sq (brelse bp)
           (writei_loop src i (off + m) (tot + m) n)))))))
      else ret off)"
  by auto

termination
  by (relation "measure (\<lambda>(src, i, off, tot, n). unat (n - tot))") (use piece_less in simp_all)

declare writei_loop.simps [simp del]

text \<open>\<open>MAXFILE * BSIZE\<close> is 140 blocks of 512 bytes.\<close>

definition writei ::
    "(u32 \<Rightarrow> nat \<Rightarrow> ('x consst_scheme, u8 list) kmon) \<Rightarrow> nat \<Rightarrow> u32 \<Rightarrow> u32 \<Rightarrow> ('x consst_scheme, int) kmon" where
  "writei src i off n =
     bnd (get_inode i) (\<lambda>ip.
     if i_type ip = T_DEV then
       let major = sint (i_major ip) in
       if major < 0 \<or> 10 \<le> major then ret (-1)
       else bnd (gets (\<lambda>s. snd (devsw s ! nat major))) (\<lambda>f.
         case f of
           None \<Rightarrow> ret (-1)
         | Some Consolewrite \<Rightarrow> consolewrite src i (sint n))
     else if i_size ip < off \<or> off + n < off then ret (-1)
     else if 71680 < off + n then ret (-1)
     else
       bnd (writei_loop src i off 0 n) (\<lambda>off.
       bnd (get_inode i) (\<lambda>ip.
       sq (whenk (0 < n \<and> i_size ip < off) (
            sq (upd_inode i (\<lambda>k. k\<lparr>i_size := off\<rparr>))
               (iupdate i)))
          (ret (sint n)))))"

section \<open>Directories\<close>

text \<open>Two arrays laid out in a scratch memory, for the string routines of string.c.\<close>

definition arrays :: "u8 list \<Rightarrow> u8 list \<Rightarrow> bytes" where
  "arrays xs ys a =
     (if unat a < length xs then xs ! unat a
      else if 4096 \<le> unat a \<and> unat a - 4096 < length ys then ys ! (unat a - 4096)
      else 0)"

definition array_of :: "bytes \<Rightarrow> nat \<Rightarrow> u8 list" where
  "array_of m n = map (\<lambda>i. m (of_nat i)) [0..<n]"

definition namecmp :: "u8 list \<Rightarrow> u8 list \<Rightarrow> int" where
  "namecmp s t = strncmp (arrays s t) 0 4096 14"

text \<open>
  A directory entry: the inode number in two bytes, then the name. \<open>dirlookup\<close> returns the inode and
  the offset of the entry. The loops visit the offsets \<open>0, 16, 32, ...\<close> below the size.
\<close>

definition dirent_at :: "string \<Rightarrow> nat \<Rightarrow> u32 \<Rightarrow> ('x consst_scheme, u8 list) kmon" where
  "dirent_at msg dp off =
     bnd (readi put_local dp (replicate 16 0) off 16) (\<lambda>(r, de).
     if r \<noteq> 16 then panic msg else ret de)"

definition dirlookup :: "nat \<Rightarrow> u8 list \<Rightarrow> ('x consst_scheme, (nat \<times> u32) option) kmon" where
  "dirlookup dp name =
     bnd (get_inode dp) (\<lambda>k.
     if i_type k \<noteq> T_DIR then panic ''dirlookup not DIR''
     else for_loop 0 ((unat (i_size k) + 15) div 16) (\<lambda>j.
       let off = of_nat (16 * j) in
       bnd (dirent_at ''dirlookup read'' dp off) (\<lambda>de.
       if get16 de 0 = 0 then ret None
       else if namecmp name (drop 2 de) = 0 then
         bnd (iget (i_dev k) (ucast (get16 de 0))) (\<lambda>ip. ret (Some (ip, off)))
       else ret None)))"

definition dirlink :: "nat \<Rightarrow> u8 list \<Rightarrow> u32 \<Rightarrow> ('x consst_scheme, int) kmon" where
  "dirlink dp name inum =
     bnd (dirlookup dp name) (\<lambda>r.
     case r of
       Some (ip, _) \<Rightarrow> sq (iput ip) (ret (-1))
     | None \<Rightarrow>
         bnd (get_inode dp) (\<lambda>k.
         bnd (for_loop 0 ((unat (i_size k) + 15) div 16) (\<lambda>j.
           let off = of_nat (16 * j) in
           bnd (dirent_at ''dirlink read'' dp off) (\<lambda>de.
           ret (if get16 de 0 = 0 then Some off else None)))) (\<lambda>free.
         let off = (case free of Some off \<Rightarrow> off | None \<Rightarrow> of_nat (16 * ((unat (i_size k) + 15) div 16)));
             nm = array_of (strncpy (arrays (replicate 14 0) name) 0 4096 14) 14 in
         bnd (writei (src_local (put16 (0 # 0 # nm) 0 (ucast inum))) dp off 16) (\<lambda>w.
         if w \<noteq> 16 then panic ''dirlink'' else ret 0))))"

section \<open>Paths\<close>

text \<open>47 is the slash; the three loops of \<open>skipelem\<close> skip slashes, scan the element and skip slashes.\<close>

definition skipelem :: "u8 list \<Rightarrow> u8 list \<Rightarrow> (u8 list \<times> u8 list) option" where
  "skipelem path name =
     (let s = dropWhile (\<lambda>c. c = 47) path in
      if s = [] then None
      else
        let elem = takeWhile (\<lambda>c. c \<noteq> 47) s;
            rest = dropWhile (\<lambda>c. c \<noteq> 47) s;
            name = (if 14 \<le> length elem then take 14 elem @ drop 14 name
                    else elem @ 0 # drop (length elem + 1) name)
        in Some (dropWhile (\<lambda>c. c = 47) rest, name))"

lemma skipelem_rest:
  assumes "skipelem path name = Some (path', name')"
  defines "s \<equiv> dropWhile (\<lambda>c. c = 47) path"
  shows "s \<noteq> []" and "path' = dropWhile (\<lambda>c. c = 47) (dropWhile (\<lambda>c. c \<noteq> 47) s)"
  using assms(1) unfolding skipelem_def Let_def s_def [symmetric] by (simp_all split: if_split_asm)

lemma skipelem_shorter:
  assumes "skipelem path name = Some (path', name')"
  shows "length path' < length path"
proof -
  obtain c cs where s: "dropWhile (\<lambda>c. c = 47) path = c # cs"
    using skipelem_rest(1) [OF assms] by (meson neq_Nil_conv)
  have "c \<noteq> 47" using hd_dropWhile [OF skipelem_rest(1) [OF assms]] by (simp add: s)
  then have "path' = dropWhile (\<lambda>c. c = 47) (dropWhile (\<lambda>c. c \<noteq> 47) cs)"
    using skipelem_rest(2) [OF assms] by (simp add: s)
  then have "length path' \<le> length (dropWhile (\<lambda>c. c \<noteq> 47) cs)" by (simp add: length_dropWhile_le)
  also have "\<dots> \<le> length cs" by (rule length_dropWhile_le)
  also have "length cs < length (dropWhile (\<lambda>c. c = 47) path)" by (simp add: s)
  also have "\<dots> \<le> length path" by (rule length_dropWhile_le)
  finally show ?thesis .
qed

function namex_loop ::
    "bool \<Rightarrow> u8 list \<Rightarrow> u8 list \<Rightarrow> nat \<Rightarrow> ('x consst_scheme, nat option \<times> u8 list) kmon" where
  "namex_loop parent path name ip =
     (case skipelem path name of
        None \<Rightarrow> if parent then sq (iput ip) (ret (None, name)) else ret (Some ip, name)
      | Some (path', name') \<Rightarrow>
          sq (ilock (Some ip)) (
          bnd (get_inode ip) (\<lambda>k.
          if i_type k \<noteq> T_DIR then sq (iunlockput ip) (ret (None, name'))
          else if parent \<and> path' = [] then sq (iunlock (Some ip)) (ret (Some ip, name'))
          else bnd (dirlookup ip name') (\<lambda>r.
            case r of
              None \<Rightarrow> sq (iunlockput ip) (ret (None, name'))
            | Some (next, _) \<Rightarrow>
                sq (iunlockput ip)
                   (namex_loop parent path' name' next)))))"
  by auto

termination
  by (relation "measure (\<lambda>(parent, path, name, ip). length path)") (auto dest: skipelem_shorter)

declare namex_loop.simps [simp del]

definition namex :: "u8 list \<Rightarrow> bool \<Rightarrow> u8 list \<Rightarrow> ('x consst_scheme, nat option \<times> u8 list) kmon" where
  "namex path parent name =
     bnd (if path \<noteq> [] \<and> hd path = 47 then iget ROOTDEV ROOTINO
          else
            bnd curproc (\<lambda>p.
            bnd (get_proc p) (\<lambda>q.
            bnd (nonnull ''cwd is null'' (p_cwd q)) idup))) (\<lambda>ip.
     namex_loop parent path name ip)"

text \<open>The name buffer of \<open>namei\<close> starts out uninitialised; its content is never used.\<close>

definition namei :: "u8 list \<Rightarrow> ('x consst_scheme, nat option) kmon" where
  "namei path = bnd (namex path False (replicate 14 0)) (\<lambda>(ip, _). ret ip)"

definition nameiparent :: "u8 list \<Rightarrow> u8 list \<Rightarrow> ('x consst_scheme, nat option \<times> u8 list) kmon" where
  "nameiparent path name = namex path True name"

end
