(* ===== verification/File.thy ===== *)
theory File
  imports Fs
begin

text \<open>
  Open files and pipes: file.c and pipe.c. A pointer to a file is its index in \<open>ftable\<close>; a pipe is
  named by the address of the page that holds it, and \<open>pipes\<close> gives the fields of the structure in
  that page. The loops that wait for a full or an empty pipe test once in a run, as the run ends in
  \<open>sleep\<close>; \<open>pipewrite_from\<close> is the code from which a woken writer goes on.
\<close>

section \<open>State\<close>

datatype ftype = FD_NONE | FD_PIPE | FD_INODE

record kfile =
  f_type :: ftype
  f_ref :: int
  f_readable :: u8
  f_writable :: u8
  f_pipe :: u32
  f_ip :: "nat option"
  f_off :: u32

record pipe =
  pi_data :: "u8 list"
  pi_nread :: u32
  pi_nwrite :: u32
  pi_readopen :: int
  pi_writeopen :: int

record filest = consst +
  ftable :: "kfile list"
  pipes :: "u32 \<Rightarrow> pipe"

abbreviation NFILE :: nat where "NFILE \<equiv> 100"
abbreviation (input) PIPESIZE :: u32 where "PIPESIZE \<equiv> 512"

definition upd_file :: "nat \<Rightarrow> (kfile \<Rightarrow> kfile) \<Rightarrow> ('x filest_scheme, unit) kmon" where
  "upd_file i f = modify (\<lambda>s. s\<lparr>ftable := (ftable s)[i := f (ftable s ! i)]\<rparr>)"

definition get_file :: "nat \<Rightarrow> ('x filest_scheme, kfile) kmon" where
  "get_file i = gets (\<lambda>s. ftable s ! i)"

definition upd_pipe :: "u32 \<Rightarrow> (pipe \<Rightarrow> pipe) \<Rightarrow> ('x filest_scheme, unit) kmon" where
  "upd_pipe p f = modify (\<lambda>s. s\<lparr>pipes := (pipes s)(p := f (pipes s p))\<rparr>)"

definition get_pipe :: "u32 \<Rightarrow> ('x filest_scheme, pipe) kmon" where
  "get_pipe p = gets (\<lambda>s. pipes s p)"

section \<open>File structures\<close>

definition fileinit :: "('x filest_scheme, unit) kmon" where
  "fileinit = initlock LFtable ''ftable''"

definition filealloc :: "('x filest_scheme, nat option) kmon" where
  "filealloc =
     sq (acquire LFtable) (
     bnd (gets (\<lambda>s. first_index (\<lambda>i. f_ref (ftable s ! i) = 0) NFILE)) (\<lambda>r.
     case r of
       Some f \<Rightarrow>
         sq (upd_file f (\<lambda>k. k\<lparr>f_ref := 1\<rparr>)) (
         sq (release LFtable)
            (ret (Some f)))
     | None \<Rightarrow> sq (release LFtable) (ret None)))"

definition filedup :: "nat \<Rightarrow> ('x filest_scheme, nat) kmon" where
  "filedup f =
     sq (acquire LFtable) (
     bnd (get_file f) (\<lambda>k.
     if f_ref k < 1 then panic ''filedup''
     else
       sq (upd_file f (\<lambda>k. k\<lparr>f_ref := f_ref k + 1\<rparr>)) (
       sq (release LFtable)
          (ret f))))"

section \<open>Pipes\<close>

definition pipeclose :: "u32 \<Rightarrow> bool \<Rightarrow> ('x filest_scheme, unit) kmon" where
  "pipeclose p writable =
     sq (acquire (LPipe p)) (
     sq (if writable then
           sq (upd_pipe p (\<lambda>k. k\<lparr>pi_writeopen := 0\<rparr>)) (wakeup (ChanPipeRead p))
         else
           sq (upd_pipe p (\<lambda>k. k\<lparr>pi_readopen := 0\<rparr>)) (wakeup (ChanPipeWrite p))) (
     bnd (get_pipe p) (\<lambda>k.
     if pi_readopen k = 0 \<and> pi_writeopen k = 0 then
       sq (release (LPipe p))
          (kfree p)
     else release (LPipe p))))"

text \<open>Byte \<open>i\<close> of \<open>pipewrite\<close>; the result is the value of an early return.\<close>

definition pipewrite_byte :: "u32 \<Rightarrow> u32 \<Rightarrow> nat \<Rightarrow> ('x filest_scheme, int option) kmon" where
  "pipewrite_byte p addr i =
     bnd (get_pipe p) (\<lambda>k.
     bnd (if pi_nwrite k = pi_nread k + PIPESIZE then
            bnd (if pi_readopen k = 0 then ret True
                 else bnd curproc (\<lambda>c. bnd (get_proc c) (\<lambda>q. ret (p_killed q \<noteq> 0)))) (\<lambda>stop.
            if stop then sq (release (LPipe p)) (ret (Some (-1)))
            else
              sq (wakeup (ChanPipeRead p)) (
              sq (sleep (ChanPipeWrite p) (Some (LPipe p)))
                 (ret None)))
          else ret None) (\<lambda>r.
     case r of Some v \<Rightarrow> ret (Some v)
     | None \<Rightarrow>
         bnd (vld8 (addr + of_nat i)) (\<lambda>b.
         sq (upd_pipe p (\<lambda>k. k\<lparr>pi_data := (pi_data k)[unat (pi_nwrite k mod PIPESIZE) := b],
               pi_nwrite := pi_nwrite k + 1\<rparr>))
            (ret None))))"

definition pipewrite_from :: "u32 \<Rightarrow> u32 \<Rightarrow> int \<Rightarrow> nat \<Rightarrow> ('x filest_scheme, int) kmon" where
  "pipewrite_from p addr n i =
     bnd (for_loop i (nat n - i) (pipewrite_byte p addr)) (\<lambda>r.
     case r of Some v \<Rightarrow> ret v
     | None \<Rightarrow>
         sq (wakeup (ChanPipeRead p)) (
         sq (release (LPipe p))
            (ret n)))"

definition pipewrite :: "u32 \<Rightarrow> u32 \<Rightarrow> int \<Rightarrow> ('x filest_scheme, int) kmon" where
  "pipewrite p addr n = sq (acquire (LPipe p)) (pipewrite_from p addr n 0)"

text \<open>Byte \<open>i\<close> of the copy loop of \<open>piperead\<close>; a result is the count at a \<open>break\<close>.\<close>

definition piperead_byte :: "u32 \<Rightarrow> u32 \<Rightarrow> nat \<Rightarrow> ('x filest_scheme, nat option) kmon" where
  "piperead_byte p addr i =
     bnd (get_pipe p) (\<lambda>k.
     if pi_nread k = pi_nwrite k then ret (Some i)
     else
       sq (upd_pipe p (\<lambda>k. k\<lparr>pi_nread := pi_nread k + 1\<rparr>)) (
       sq (vst8 (addr + of_nat i) (pi_data k ! unat (pi_nread k mod PIPESIZE)))
          (ret None)))"

definition piperead_copy :: "u32 \<Rightarrow> u32 \<Rightarrow> int \<Rightarrow> ('x filest_scheme, int) kmon" where
  "piperead_copy p addr n =
     bnd (for_loop 0 (nat n) (piperead_byte p addr)) (\<lambda>r.
     let i = (case r of Some i \<Rightarrow> i | None \<Rightarrow> nat n) in
     sq (wakeup (ChanPipeWrite p)) (
     sq (release (LPipe p))
        (ret (int i))))"

definition piperead :: "u32 \<Rightarrow> u32 \<Rightarrow> int \<Rightarrow> ('x filest_scheme, int) kmon" where
  "piperead p addr n =
     sq (acquire (LPipe p)) (
     bnd (get_pipe p) (\<lambda>k.
     bnd (if pi_nread k = pi_nwrite k \<and> pi_writeopen k \<noteq> 0 then
            bnd curproc (\<lambda>c. bnd (get_proc c) (\<lambda>q.
            if p_killed q \<noteq> 0 then ret True
            else sq (sleep (ChanPipeRead p) (Some (LPipe p))) (ret False)))
          else ret False) (\<lambda>killed.
     if killed then sq (release (LPipe p)) (ret (-1))
     else piperead_copy p addr n)))"

section \<open>Closing a file\<close>

definition fileclose :: "nat \<Rightarrow> ('x filest_scheme, unit) kmon" where
  "fileclose f =
     sq (acquire LFtable) (
     bnd (get_file f) (\<lambda>k.
     if f_ref k < 1 then panic ''fileclose''
     else
       sq (upd_file f (\<lambda>k. k\<lparr>f_ref := f_ref k - 1\<rparr>)) (
       bnd (get_file f) (\<lambda>ff.
       if 0 < f_ref ff then release LFtable
       else
         sq (upd_file f (\<lambda>k. k\<lparr>f_ref := 0, f_type := FD_NONE\<rparr>)) (
         sq (release LFtable)
            (case f_type ff of
               FD_PIPE \<Rightarrow> pipeclose (f_pipe ff) (f_writable ff \<noteq> 0)
             | FD_INODE \<Rightarrow>
                 sq begin_op (
                 sq (bnd (nonnull ''ff.ip is null'' (f_ip ff)) iput)
                    end_op)
             | FD_NONE \<Rightarrow> ret ()))))))"

text \<open>\<open>pipealloc\<close> returns its result and the two files it stores.\<close>

definition pipealloc :: "('x filest_scheme, int \<times> nat option \<times> nat option) kmon" where
  "pipealloc =
     (let bad = (\<lambda>f0 f1.
        sq (case f0 of Some f \<Rightarrow> fileclose f | None \<Rightarrow> ret ()) (
        sq (case f1 of Some f \<Rightarrow> fileclose f | None \<Rightarrow> ret ())
           (ret (-1, f0, f1))))
      in
      bnd filealloc (\<lambda>f0.
      case f0 of None \<Rightarrow> bad None None | Some g0 \<Rightarrow>
      bnd filealloc (\<lambda>f1.
      case f1 of None \<Rightarrow> bad f0 None | Some g1 \<Rightarrow>
      bnd kalloc (\<lambda>p.
      if p = 0 then bad f0 f1
      else
        sq (upd_pipe p (\<lambda>k. k\<lparr>pi_readopen := 1, pi_writeopen := 1, pi_nwrite := 0, pi_nread := 0\<rparr>)) (
        sq (initlock (LPipe p) ''pipe'') (
        sq (upd_file g0 (\<lambda>k. k\<lparr>f_type := FD_PIPE, f_readable := 1, f_writable := 0, f_pipe := p\<rparr>)) (
        sq (upd_file g1 (\<lambda>k. k\<lparr>f_type := FD_PIPE, f_readable := 0, f_writable := 1, f_pipe := p\<rparr>))
           (ret (0, f0, f1)))))))))"

section \<open>Reading and writing files\<close>

definition filestat :: "nat \<Rightarrow> u32 \<Rightarrow> ('x filest_scheme, int) kmon" where
  "filestat f st =
     bnd (get_file f) (\<lambda>k.
     if f_type k = FD_INODE then
       sq (ilock (f_ip k)) (
       sq (bnd (nonnull ''f->ip is null'' (f_ip k)) (\<lambda>i. stati i st)) (
       sq (iunlock (f_ip k))
          (ret 0)))
     else ret (-1))"

definition fileread :: "nat \<Rightarrow> u32 \<Rightarrow> int \<Rightarrow> ('x filest_scheme, int) kmon" where
  "fileread f addr n =
     bnd (get_file f) (\<lambda>k.
     if f_readable k = 0 then ret (-1)
     else case f_type k of
       FD_PIPE \<Rightarrow> piperead (f_pipe k) addr n
     | FD_INODE \<Rightarrow>
         sq (ilock (f_ip k)) (
         bnd (nonnull ''f->ip is null'' (f_ip k)) (\<lambda>i.
         bnd (get_file f) (\<lambda>k'.
         bnd (readi (put_user addr) i () (f_off k') (of_int n)) (\<lambda>(r, _).
         sq (whenk (0 < r) (upd_file f (\<lambda>k. k\<lparr>f_off := f_off k + of_int r\<rparr>))) (
         sq (iunlock (f_ip k))
            (ret r))))))
     | FD_NONE \<Rightarrow> panic ''fileread'')"

text \<open>The chunk size is \<open>((MAXOPBLOCKS-1-1-2) / 2) * 512\<close>; a round that goes on has written it all.\<close>

function filewrite_loop :: "nat \<Rightarrow> u32 \<Rightarrow> int \<Rightarrow> int \<Rightarrow> ('x filest_scheme, int) kmon" where
  "filewrite_loop f addr n i =
     (if i < n then
        let n1 = min (n - i) 1536 in
        sq begin_op (
        bnd (get_file f) (\<lambda>k.
        sq (ilock (f_ip k)) (
        bnd (nonnull ''f->ip is null'' (f_ip k)) (\<lambda>ip.
        bnd (get_file f) (\<lambda>k'.
        bnd (writei (src_user (addr + of_int i)) ip (f_off k') (of_int n1)) (\<lambda>r.
        sq (whenk (0 < r) (upd_file f (\<lambda>k. k\<lparr>f_off := f_off k + of_int r\<rparr>))) (
        sq (iunlock (f_ip k)) (
        sq end_op (
        if r < 0 then ret i
        else if r \<noteq> n1 then panic ''short filewrite''
        else filewrite_loop f addr n (i + n1))))))))))
      else ret i)"
  by auto

termination
  by (relation "measure (\<lambda>(f, addr, n, i). nat (n - i))") simp_all

declare filewrite_loop.simps [simp del]

definition filewrite :: "nat \<Rightarrow> u32 \<Rightarrow> int \<Rightarrow> ('x filest_scheme, int) kmon" where
  "filewrite f addr n =
     bnd (get_file f) (\<lambda>k.
     if f_writable k = 0 then ret (-1)
     else case f_type k of
       FD_PIPE \<Rightarrow> pipewrite (f_pipe k) addr n
     | FD_INODE \<Rightarrow> bnd (filewrite_loop f addr n 0) (\<lambda>i. ret (if i = n then n else -1))
     | FD_NONE \<Rightarrow> panic ''filewrite'')"

end
