(* ===== verification/Life.thy ===== *)
theory Life
  imports File
begin

text \<open>
  The life of a process: the rest of proc.c (\<open>userinit\<close>, \<open>fork\<close>, \<open>exit\<close>, \<open>wait\<close> and \<open>forkret\<close>), which
  needs the file system and the shared-memory segments. \<open>exit\<close> and a \<open>wait\<close> that has to wait end in
  a context switch.
\<close>

section \<open>State\<close>

text \<open>\<open>forkret_first\<close> is the static variable \<open>first\<close> of \<open>forkret\<close>.\<close>

record lifest = filest +
  forkret_first :: int

text \<open>Offsets of the fields of \<open>struct trapframe\<close> that the kernel uses.\<close>

abbreviation (input) TF_EAX :: u32 where "TF_EAX \<equiv> 28"
abbreviation (input) TF_ES :: u32 where "TF_ES \<equiv> 40"
abbreviation (input) TF_DS :: u32 where "TF_DS \<equiv> 44"
abbreviation (input) TF_TRAPNO :: u32 where "TF_TRAPNO \<equiv> 48"
abbreviation (input) TF_ERR :: u32 where "TF_ERR \<equiv> 52"
abbreviation (input) TF_EIP :: u32 where "TF_EIP \<equiv> 56"
abbreviation (input) TF_CS :: u32 where "TF_CS \<equiv> 60"
abbreviation (input) TF_EFLAGS :: u32 where "TF_EFLAGS \<equiv> 64"
abbreviation (input) TF_ESP :: u32 where "TF_ESP \<equiv> 68"
abbreviation (input) TF_SS :: u32 where "TF_SS \<equiv> 72"

definition wr16 :: "u32 \<Rightarrow> u16 \<Rightarrow> ('x machine_scheme, unit) kmon" where
  "wr16 a v = modify (\<lambda>s. s\<lparr>mem := (mem s)(a := ucast v, a + 1 := ucast (drop_bit 8 v))\<rparr>)"

text \<open>\<open>safestrcpy(dst, src, sizeof(dst))\<close> on arrays of 16 bytes.\<close>

definition copy_name :: "u8 list \<Rightarrow> u8 list \<Rightarrow> u8 list" where
  "copy_name dst src = array_of (safestrcpy (arrays dst src) 0 4096 16) 16"

section \<open>The first process\<close>

text \<open>
  \<open>init\<close> and \<open>sz\<close> are the address and the size of the program that is linked into the kernel. The code
  selectors are \<open>SEG_UCODE << 3 | DPL_USER\<close> and \<open>SEG_UDATA << 3 | DPL_USER\<close>.
\<close>

definition userinit :: "u32 \<Rightarrow> u32 \<Rightarrow> ('x lifest_scheme, unit) kmon" where
  "userinit init sz =
     bnd allocproc (\<lambda>r.
     sq (modify (\<lambda>s. s\<lparr>initproc := r\<rparr>)) (
     bnd (nonnull ''userinit: no process'' r) (\<lambda>p.
     bnd setupkvm (\<lambda>d.
     sq (upd_proc p (\<lambda>q. q\<lparr>p_pgdir := d\<rparr>)) (
     if d = 0 then panic ''userinit: out of memory?''
     else
       sq (inituvm d init sz) (
       sq (upd_proc p (\<lambda>q. q\<lparr>p_sz := PGSIZE\<rparr>)) (
       bnd (get_proc p) (\<lambda>q.
       let tf = p_tf q in
       sq (kmemset tf 0 trapframe_size) (
       sq (wr16 (tf + TF_CS) 0x1B) (
       sq (wr16 (tf + TF_DS) 0x23) (
       sq (wr16 (tf + TF_ES) 0x23) (
       sq (wr16 (tf + TF_SS) 0x23) (
       sq (wr32 (tf + TF_EFLAGS) 0x200) (
       sq (wr32 (tf + TF_ESP) PGSIZE) (
       sq (wr32 (tf + TF_EIP) 0) (
       sq (upd_proc p (\<lambda>q. q\<lparr>p_name := copy_name (p_name q) [105, 110, 105, 116, 99, 111, 100, 101]\<rparr>)) (
       bnd (namei [47]) (\<lambda>cwd.
       sq (upd_proc p (\<lambda>q. q\<lparr>p_cwd := cwd\<rparr>)) (
       sq (acquire LPtable) (
       sq (upd_proc p (\<lambda>q. q\<lparr>p_state := RUNNABLE\<rparr>))
          (release LPtable)))))))))))))))))))))"

section \<open>fork\<close>

text \<open>Slot \<open>i\<close> of the loop that hands the shared segments of \<open>c\<close> to its child \<open>np\<close>.\<close>

definition fork_slot :: "nat \<Rightarrow> nat \<Rightarrow> nat \<Rightarrow> ('x shmst_scheme, unit) kmon" where
  "fork_slot c np i =
     bnd (get_proc c) (\<lambda>q.
     let g = p_pages q ! i in
     whenk (sp_key g \<noteq> -1 \<and> sp_shmid g \<noteq> -1) (
       sq (upd_proc np (\<lambda>q. q\<lparr>p_pages := (p_pages q)[i := g]\<rparr>)) (
       bnd (getShmidIndex (sp_shmid g)) (\<lambda>index.
       whenk (index \<noteq> -1) (mappagesWrapper np index i)))))"

definition fork_files :: "nat \<Rightarrow> nat \<Rightarrow> nat \<Rightarrow> ('x filest_scheme, unit) kmon" where
  "fork_files c np i =
     bnd (get_proc c) (\<lambda>q.
     case p_ofile q ! i of None \<Rightarrow> ret () | Some f \<Rightarrow>
       bnd (filedup f) (\<lambda>f.
       upd_proc np (\<lambda>q. q\<lparr>p_ofile := (p_ofile q)[i := Some f]\<rparr>)))"

definition fork :: "('x lifest_scheme, int) kmon" where
  "fork =
     bnd curproc (\<lambda>c.
     bnd allocproc (\<lambda>r.
     case r of None \<Rightarrow> ret (-1) | Some np \<Rightarrow>
       bnd (get_proc c) (\<lambda>q.
       bnd (copyuvm (p_pgdir q) (p_sz q)) (\<lambda>d.
       sq (upd_proc np (\<lambda>n. n\<lparr>p_pgdir := d\<rparr>)) (
       bnd (get_proc np) (\<lambda>n.
       if d = 0 then
         sq (kfree (p_kstack n)) (
         sq (upd_proc np (\<lambda>n. n\<lparr>p_kstack := 0, p_state := UNUSED\<rparr>))
            (ret (-1)))
       else
         sq (upd_proc np (\<lambda>n. n\<lparr>p_sz := p_sz q, p_parent := Some c\<rparr>)) (
         sq (kmemmove (p_tf n) (p_tf q) trapframe_size) (
         sq (wr32 (p_tf n + TF_EAX) 0) (
         sq (each 0 NOFILE (fork_files c np)) (
         bnd (bnd (nonnull ''cwd is null'' (p_cwd q)) idup) (\<lambda>cwd.
         sq (upd_proc np (\<lambda>n. n\<lparr>p_cwd := Some cwd\<rparr>)) (
         sq (upd_proc np (\<lambda>n. n\<lparr>p_name := copy_name (p_name n) (p_name q)\<rparr>)) (
         sq (each 0 SHAREDREGIONS (fork_slot c np)) (
         sq (acquire LPtable) (
         sq (upd_proc np (\<lambda>n. n\<lparr>p_state := RUNNABLE\<rparr>)) (
         sq (release LPtable)
            (ret (p_pid n))))))))))))))))))"

section \<open>exit and wait\<close>

definition exit_files :: "nat \<Rightarrow> nat \<Rightarrow> ('x filest_scheme, unit) kmon" where
  "exit_files c fd =
     bnd (get_proc c) (\<lambda>q.
     case p_ofile q ! fd of None \<Rightarrow> ret () | Some f \<Rightarrow>
       sq (fileclose f)
          (upd_proc c (\<lambda>q. q\<lparr>p_ofile := (p_ofile q)[fd := None]\<rparr>)))"

text \<open>The loop that detaches the segments of a process; \<open>exec\<close> has it as well.\<close>

definition detach_slot :: "nat \<Rightarrow> nat \<Rightarrow> ('x shmst_scheme, unit) kmon" where
  "detach_slot c i =
     bnd (get_proc c) (\<lambda>q.
     let g = p_pages q ! i in
     whenk (sp_shmid g \<noteq> -1 \<and> sp_key g \<noteq> -1) (shmdtWrapper (sp_virtualAddr g)))"

definition parent_chan :: "nat option \<Rightarrow> chan" where
  "parent_chan p = (case p of None \<Rightarrow> ChanNull | Some p \<Rightarrow> ChanProc p)"

definition reparent :: "nat \<Rightarrow> nat \<Rightarrow> ('x procst_scheme, unit) kmon" where
  "reparent c i =
     bnd (get_proc i) (\<lambda>q.
     whenk (p_parent q = Some c) (
       bnd (gets initproc) (\<lambda>init.
       sq (upd_proc i (\<lambda>q. q\<lparr>p_parent := init\<rparr>))
          (whenk (p_state q = ZOMBIE) (wakeup1 (parent_chan init))))))"

definition exit :: "('x lifest_scheme, unit) kmon" where
  "exit =
     bnd curproc (\<lambda>c.
     bnd (gets initproc) (\<lambda>init.
     if init = Some c then panic ''init exiting''
     else
       sq (each 0 NOFILE (exit_files c)) (
       sq (each 0 SHAREDREGIONS (detach_slot c)) (
       sq begin_op (
       bnd (get_proc c) (\<lambda>q.
       sq (bnd (nonnull ''cwd is null'' (p_cwd q)) iput) (
       sq end_op (
       sq (upd_proc c (\<lambda>q. q\<lparr>p_cwd := None\<rparr>)) (
       sq (acquire LPtable) (
       bnd (get_proc c) (\<lambda>q.
       sq (wakeup1 (parent_chan (p_parent q))) (
       sq (each 0 NPROC (reparent c)) (
       sq (upd_proc c (\<lambda>q. q\<lparr>p_state := ZOMBIE\<rparr>)) (
       sq sched
          (panic ''zombie exit'')))))))))))))))"

text \<open>Slot \<open>i\<close> of the scan for an exited child.\<close>

definition wait_slot :: "nat \<Rightarrow> nat \<Rightarrow> ('x procst_scheme, int option) kmon" where
  "wait_slot c i =
     bnd (get_proc i) (\<lambda>q.
     if p_parent q \<noteq> Some c then ret None
     else if p_state q = ZOMBIE then
       sq (kfree (p_kstack q)) (
       sq (upd_proc i (\<lambda>q. q\<lparr>p_kstack := 0\<rparr>)) (
       sq (freevm (p_pgdir q)) (
       sq (upd_proc i (\<lambda>q. q\<lparr>p_pid := 0, p_parent := None, p_name := (p_name q)[0 := 0],
             p_killed := 0, p_state := UNUSED\<rparr>)) (
       sq (release LPtable)
          (ret (Some (p_pid q)))))))
     else ret None)"

text \<open>
  The endless loop of \<open>wait\<close> makes one scan in a run: it returns, or the process sleeps and scans again
  when it is woken.
\<close>

definition wait_scan :: "nat \<Rightarrow> ('x procst_scheme, int) kmon" where
  "wait_scan c =
     bnd (for_loop 0 NPROC (wait_slot c)) (\<lambda>r.
     case r of Some pid \<Rightarrow> ret pid
     | None \<Rightarrow>
         bnd (gets (\<lambda>s. \<exists>q \<in> set (take NPROC (ptable s)). p_parent q = Some c)) (\<lambda>havekids.
         bnd (get_proc c) (\<lambda>q.
         if \<not> havekids \<or> p_killed q \<noteq> 0 then sq (release LPtable) (ret (-1))
         else sq (sleep (ChanProc c) (Some LPtable)) (fail Switched))))"

definition wait :: "('x procst_scheme, int) kmon" where
  "wait = bnd curproc (\<lambda>c. sq (acquire LPtable) (wait_scan c))"

section \<open>forkret\<close>

definition forkret :: "('x lifest_scheme, unit) kmon" where
  "forkret =
     sq (release LPtable) (
     bnd (gets forkret_first) (\<lambda>first.
     whenk (first \<noteq> 0) (
       sq (modify (\<lambda>s. s\<lparr>forkret_first := 0\<rparr>)) (
       sq (iinit 1)
          (initlog 1)))))"

end
