(* ===== verification/Exec.thy ===== *)
theory Exec
  imports Life
begin

text \<open>
  The arguments of system calls (the first half of syscall.c) and \<open>exec\<close> of exec.c. A C function that
  returns -1 or stores a value through a pointer returns \<open>None\<close> or \<open>Some\<close> value here. The strings that
  a system call receives are read where they are checked; \<open>exec\<close> gets the contents of the path and of
  the arguments.
\<close>

section \<open>System call arguments\<close>

definition fetchint :: "u32 \<Rightarrow> ('x procst_scheme, u32 option) kmon" where
  "fetchint addr =
     bnd curproc (\<lambda>p.
     bnd (get_proc p) (\<lambda>q.
     if p_sz q \<le> addr \<or> p_sz q < addr + 4 then ret None
     else bnd (vld32 addr) (\<lambda>v. ret (Some v))))"

text \<open>The result is the address of the string and its length.\<close>

definition fetchstr :: "u32 \<Rightarrow> ('x procst_scheme, (u32 \<times> nat) option) kmon" where
  "fetchstr addr =
     bnd curproc (\<lambda>p.
     bnd (get_proc p) (\<lambda>q.
     if p_sz q \<le> addr then ret None
     else for_loop 0 (unat (p_sz q - addr)) (\<lambda>k.
       bnd (vld8 (addr + of_nat k)) (\<lambda>b.
       ret (if b = 0 then Some (addr, k) else None)))))"

definition argint :: "nat \<Rightarrow> ('x procst_scheme, u32 option) kmon" where
  "argint n =
     bnd curproc (\<lambda>p.
     bnd (get_proc p) (\<lambda>q.
     bnd (rd32 (p_tf q + TF_ESP)) (\<lambda>esp.
     fetchint (esp + 4 + 4 * of_nat n))))"

definition argptr :: "nat \<Rightarrow> int \<Rightarrow> ('x procst_scheme, u32 option) kmon" where
  "argptr n sz =
     bnd curproc (\<lambda>p.
     bnd (argint n) (\<lambda>r.
     case r of None \<Rightarrow> ret None | Some i \<Rightarrow>
       bnd (get_proc p) (\<lambda>q.
       if sz < 0 \<or> p_sz q \<le> i \<or> p_sz q < i + of_int sz then ret None
       else ret (Some i))))"

definition argstr :: "nat \<Rightarrow> ('x procst_scheme, (u32 \<times> nat) option) kmon" where
  "argstr n = bnd (argint n) (\<lambda>r. case r of None \<Rightarrow> ret None | Some addr \<Rightarrow> fetchstr addr)"

text \<open>\<open>argstr\<close> and the bytes of the string that it found.\<close>

definition argpath :: "nat \<Rightarrow> ('x procst_scheme, u8 list option) kmon" where
  "argpath n =
     bnd (argstr n) (\<lambda>r.
     case r of None \<Rightarrow> ret None | Some (addr, len) \<Rightarrow>
       bnd (vload addr len) (\<lambda>bs. ret (Some bs)))"

section \<open>Copying to another address space\<close>

text \<open>\<open>copyout\<close> of vm.c, with the bytes at its source address as argument.\<close>

function copyout_bytes :: "u32 \<Rightarrow> u32 \<Rightarrow> u8 list \<Rightarrow> ('x kmemst_scheme, int) kmon" where
  "copyout_bytes pgdir va bs =
     (if bs \<noteq> [] then
        let va0 = PGROUNDDOWN va in
        bnd (uva2ka pgdir va0) (\<lambda>pa0.
        if pa0 = 0 then ret (-1)
        else let n = min (unat (PGSIZE - (va - va0))) (length bs) in
          sq (vstore (pa0 + (va - va0)) (take n bs))
             (copyout_bytes pgdir (va0 + PGSIZE) (drop n bs)))
      else ret 0)"
  by auto

termination
  by (relation "measure (\<lambda>(pgdir, va, bs). length bs)") (auto simp: copyout_chunk)

declare copyout_bytes.simps [simp del]

section \<open>Executable files\<close>

record elfhdr =
  e_magic :: u32
  e_entry :: u32
  e_phoff :: u32
  e_phnum :: u16

record proghdr =
  ph_type :: u32
  ph_off :: u32
  ph_vaddr :: u32
  ph_filesz :: u32
  ph_memsz :: u32

definition elfhdr_of :: "u8 list \<Rightarrow> elfhdr" where
  "elfhdr_of d = \<lparr>e_magic = get32 d 0, e_entry = get32 d 24, e_phoff = get32 d 28, e_phnum = get16 d 44\<rparr>"

definition proghdr_of :: "u8 list \<Rightarrow> proghdr" where
  "proghdr_of d = \<lparr>ph_type = get32 d 0, ph_off = get32 d 4, ph_vaddr = get32 d 8,
     ph_filesz = get32 d 16, ph_memsz = get32 d 20\<rparr>"

definition inode_reader :: "nat \<Rightarrow> u32 \<Rightarrow> u32 \<Rightarrow> u32 \<Rightarrow> ('x consst_scheme, int) kmon" where
  "inode_reader ip dst off n = bnd (readi (put_user dst) ip () off n) (\<lambda>(r, _). ret r)"

text \<open>
  The loop over the program headers, \<open>k\<close> of them left: the new size, or \<open>None\<close> for \<open>goto bad\<close>.
\<close>

primrec load_segments :: "nat \<Rightarrow> nat \<Rightarrow> u32 \<Rightarrow> u32 \<Rightarrow> u32 \<Rightarrow> ('x consst_scheme, u32 option) kmon" where
  "load_segments 0 ip pgdir off sz = ret (Some sz)"
| "load_segments (Suc k) ip pgdir off sz =
     bnd (readi put_local ip (replicate 32 0) off 32) (\<lambda>(r, d).
     let ph = proghdr_of d in
     if r \<noteq> 32 then ret None
     else if ph_type ph \<noteq> 1 then load_segments k ip pgdir (off + 32) sz
     else if ph_memsz ph < ph_filesz ph then ret None
     else if ph_vaddr ph + ph_memsz ph < ph_vaddr ph then ret None
     else bnd (allocuvm pgdir sz (ph_vaddr ph + ph_memsz ph)) (\<lambda>sz.
       if sz = 0 then ret None
       else if ph_vaddr ph mod PGSIZE \<noteq> 0 then ret None
       else bnd (loaduvm (inode_reader ip) pgdir (ph_vaddr ph) (ph_off ph) (ph_filesz ph)) (\<lambda>r.
         if r < 0 then ret None
         else load_segments k ip pgdir (off + 32) sz)))"

text \<open>
  The loop that pushes the argument strings: the stack pointer and the pointers pushed, or \<open>None\<close> for
  \<open>goto bad\<close>. \<open>argc\<close> strings have been pushed so far.
\<close>

primrec push_args :: "u8 list list \<Rightarrow> nat \<Rightarrow> u32 \<Rightarrow> u32 \<Rightarrow> u32 list \<Rightarrow> ('x kmemst_scheme, (u32 \<times> u32 list) option) kmon" where
  "push_args [] argc pgdir sp ptrs = ret (Some (sp, ptrs))"
| "push_args (a # as) argc pgdir sp ptrs =
     (if 32 \<le> argc then ret None
      else
        let sp = (sp - (of_nat (length a) + 1)) AND NOT 3 in
        bnd (copyout_bytes pgdir sp (a @ [0])) (\<lambda>r.
        if r < 0 then ret None
        else push_args as (Suc argc) pgdir sp (ptrs @ [sp])))"

text \<open>The words of \<open>ustack\<close>: return address, \<open>argc\<close>, \<open>argv\<close>, the pointers and a null pointer.\<close>

definition ustack :: "u32 \<Rightarrow> u32 list \<Rightarrow> u32 list" where
  "ustack sp ptrs =
     [0xffffffff, of_nat (length ptrs), sp - (of_nat (length ptrs) + 1) * 4] @ ptrs @ [0]"

definition last_elem :: "u8 list \<Rightarrow> u8 list" where
  "last_elem path = rev (takeWhile (\<lambda>c. c \<noteq> 47) (rev path))"

definition exec_image :: "nat \<Rightarrow> u32 \<Rightarrow> u32 \<Rightarrow> u8 list \<Rightarrow> u8 list list \<Rightarrow> u32 \<Rightarrow> ('x lifest_scheme, int) kmon" where
  "exec_image c pgdir entry path argv sz =
     (let bad = sq (freevm pgdir) (ret (-1)); base = PGROUNDUP sz in
      bnd (allocuvm pgdir base (base + 2 * PGSIZE)) (\<lambda>sz.
      if sz = 0 then bad
      else
        sq (clearpteu pgdir (sz - 2 * PGSIZE)) (
        bnd (push_args argv 0 pgdir sz []) (\<lambda>r.
        case r of None \<Rightarrow> bad | Some (sp, ptrs) \<Rightarrow>
          let ust = ustack sp ptrs; sp = sp - 4 * of_nat (length ust) in
          bnd (copyout_bytes pgdir sp (concat (map bytes_of ust))) (\<lambda>r.
          if r < 0 then bad
          else
            sq (upd_proc c (\<lambda>q. q\<lparr>p_name := copy_name (p_name q) (last_elem path)\<rparr>)) (
            sq (each 0 SHAREDREGIONS (detach_slot c)) (
            bnd (get_proc c) (\<lambda>old.
            sq (upd_proc c (\<lambda>q. q\<lparr>p_pgdir := pgdir, p_sz := sz\<rparr>)) (
            sq (wr32 (p_tf old + TF_EIP) entry) (
            sq (wr32 (p_tf old + TF_ESP) sp) (
            sq (switchuvm (Some c)) (
            sq (freevm (p_pgdir old))
               (ret 0)))))))))))))"

definition exec :: "u8 list \<Rightarrow> u8 list list \<Rightarrow> ('x lifest_scheme, int) kmon" where
  "exec path argv =
     bnd curproc (\<lambda>c.
     sq begin_op (
     bnd (namei path) (\<lambda>r.
     case r of
       None \<Rightarrow> sq end_op (sq (cprintf ''exec: fail\<newline>'') (ret (-1)))
     | Some ip \<Rightarrow>
         let bad = (\<lambda>pgdir.
           sq (whenk (pgdir \<noteq> 0) (freevm pgdir)) (
           sq (iunlockput ip) (
           sq end_op
              (ret (-1))))) in
         sq (ilock (Some ip)) (
         bnd (readi put_local ip (replicate 52 0) 0 52) (\<lambda>(r, d).
         let elf = elfhdr_of d in
         if r \<noteq> 52 then bad 0
         else if e_magic elf \<noteq> 0x464C457F then bad 0
         else bnd setupkvm (\<lambda>pgdir.
           if pgdir = 0 then bad 0
           else bnd (load_segments (unat (e_phnum elf)) ip pgdir (e_phoff elf) 0) (\<lambda>r.
             case r of
               None \<Rightarrow> bad pgdir
             | Some sz \<Rightarrow>
                 sq (iunlockput ip) (
                 sq end_op
                    (exec_image c pgdir (e_entry elf) path argv sz)))))))))"

end
