(* ===== verification/Sysfile.thy ===== *)
theory Sysfile
  imports Exec
begin

text \<open>
  sysfile.c: the system calls on files. Every handler takes its arguments from the user stack and
  returns the value that \<open>syscall\<close> hands to the program. A \<open>goto bad\<close> is the local definition \<open>bad\<close>.
\<close>

section \<open>File descriptors\<close>

text \<open>The descriptor and the file, or \<open>None\<close> for -1.\<close>

definition argfd :: "nat \<Rightarrow> ('x procst_scheme, (nat \<times> nat) option) kmon" where
  "argfd n =
     bnd (argint n) (\<lambda>r.
     case r of None \<Rightarrow> ret None | Some v \<Rightarrow>
       let fd = sint v in
       if fd < 0 \<or> int NOFILE \<le> fd then ret None
       else
         bnd curproc (\<lambda>p.
         bnd (get_proc p) (\<lambda>q.
         ret (case p_ofile q ! nat fd of None \<Rightarrow> None | Some f \<Rightarrow> Some (nat fd, f)))))"

definition fdalloc :: "nat \<Rightarrow> ('x procst_scheme, int) kmon" where
  "fdalloc f =
     bnd curproc (\<lambda>p.
     bnd (get_proc p) (\<lambda>q.
     case first_index (\<lambda>fd. p_ofile q ! fd = None) NOFILE of
       Some fd \<Rightarrow>
         sq (upd_proc p (\<lambda>q. q\<lparr>p_ofile := (p_ofile q)[fd := Some f]\<rparr>))
            (ret (int fd))
     | None \<Rightarrow> ret (-1)))"

definition sys_dup :: "('x filest_scheme, int) kmon" where
  "sys_dup =
     bnd (argfd 0) (\<lambda>r.
     case r of None \<Rightarrow> ret (-1) | Some (_, f) \<Rightarrow>
       bnd (fdalloc f) (\<lambda>fd.
       if fd < 0 then ret (-1)
       else bnd (filedup f) (\<lambda>_. ret fd)))"

text \<open>The arguments that \<open>read\<close> and \<open>write\<close> share: the file, the buffer and the count.\<close>

definition args_rw :: "('x procst_scheme, (nat \<times> u32 \<times> int) option) kmon" where
  "args_rw =
     bnd (argfd 0) (\<lambda>r.
     case r of None \<Rightarrow> ret None | Some (_, f) \<Rightarrow>
       bnd (argint 2) (\<lambda>r.
       case r of None \<Rightarrow> ret None | Some n \<Rightarrow>
         bnd (argptr 1 (sint n)) (\<lambda>r.
         case r of None \<Rightarrow> ret None | Some p \<Rightarrow> ret (Some (f, p, sint n)))))"

definition sys_read :: "('x filest_scheme, int) kmon" where
  "sys_read = bnd args_rw (\<lambda>r. case r of None \<Rightarrow> ret (-1) | Some (f, p, n) \<Rightarrow> fileread f p n)"

definition sys_write :: "('x filest_scheme, int) kmon" where
  "sys_write = bnd args_rw (\<lambda>r. case r of None \<Rightarrow> ret (-1) | Some (f, p, n) \<Rightarrow> filewrite f p n)"

definition sys_close :: "('x filest_scheme, int) kmon" where
  "sys_close =
     bnd (argfd 0) (\<lambda>r.
     case r of None \<Rightarrow> ret (-1) | Some (fd, f) \<Rightarrow>
       bnd curproc (\<lambda>p.
       sq (upd_proc p (\<lambda>q. q\<lparr>p_ofile := (p_ofile q)[fd := None]\<rparr>)) (
       sq (fileclose f)
          (ret 0))))"

definition sys_fstat :: "('x filest_scheme, int) kmon" where
  "sys_fstat =
     bnd (argfd 0) (\<lambda>r.
     case r of None \<Rightarrow> ret (-1) | Some (_, f) \<Rightarrow>
       bnd (argptr 1 20) (\<lambda>r.
       case r of None \<Rightarrow> ret (-1) | Some st \<Rightarrow> filestat f st))"

section \<open>Links\<close>

definition sys_link :: "('x consst_scheme, int) kmon" where
  "sys_link =
     bnd (argpath 0) (\<lambda>r.
     case r of None \<Rightarrow> ret (-1) | Some old \<Rightarrow>
     bnd (argpath 1) (\<lambda>r.
     case r of None \<Rightarrow> ret (-1) | Some new \<Rightarrow>
       sq begin_op (
       bnd (namei old) (\<lambda>r.
       case r of None \<Rightarrow> sq end_op (ret (-1)) | Some ip \<Rightarrow>
         let bad =
           sq (ilock (Some ip)) (
           sq (upd_inode ip (\<lambda>k. k\<lparr>i_nlink := i_nlink k - 1\<rparr>)) (
           sq (iupdate ip) (
           sq (iunlockput ip) (
           sq end_op
              (ret (-1)))))) in
         sq (ilock (Some ip)) (
         bnd (get_inode ip) (\<lambda>k.
         if i_type k = T_DIR then
           sq (iunlockput ip) (sq end_op (ret (-1)))
         else
           sq (upd_inode ip (\<lambda>k. k\<lparr>i_nlink := i_nlink k + 1\<rparr>)) (
           sq (iupdate ip) (
           sq (iunlock (Some ip)) (
           bnd (nameiparent new (replicate 14 0)) (\<lambda>(r, name).
           case r of None \<Rightarrow> bad | Some dp \<Rightarrow>
             sq (ilock (Some dp)) (
             bnd (get_inode dp) (\<lambda>d.
             bnd (get_inode ip) (\<lambda>k.
             bnd (if i_dev d \<noteq> i_dev k then ret (-1) else dirlink dp name (i_inum k)) (\<lambda>v.
             if v < 0 then sq (iunlockput dp) bad
             else
               sq (iunlockput dp) (
               sq (iput ip) (
               sq end_op
                  (ret 0)))))))))))))))))"

definition isdirempty :: "nat \<Rightarrow> ('x consst_scheme, bool) kmon" where
  "isdirempty dp =
     bnd (get_inode dp) (\<lambda>k.
     bnd (for_loop 2 ((unat (i_size k) + 15) div 16 - 2) (\<lambda>j.
       bnd (dirent_at ''isdirempty: readi'' dp (of_nat (16 * j))) (\<lambda>de.
       ret (if get16 de 0 \<noteq> 0 then Some () else None)))) (\<lambda>r.
     ret (r = None)))"

text \<open>The names \<open>.\<close> and \<open>..\<close> as zero-terminated strings.\<close>

abbreviation (input) DOT :: "u8 list" where "DOT \<equiv> [46, 0]"
abbreviation (input) DOTDOT :: "u8 list" where "DOTDOT \<equiv> [46, 46, 0]"

definition sys_unlink :: "('x consst_scheme, int) kmon" where
  "sys_unlink =
     bnd (argpath 0) (\<lambda>r.
     case r of None \<Rightarrow> ret (-1) | Some path \<Rightarrow>
       sq begin_op (
       bnd (nameiparent path (replicate 14 0)) (\<lambda>(r, name).
       case r of None \<Rightarrow> sq end_op (ret (-1)) | Some dp \<Rightarrow>
         let bad = sq (iunlockput dp) (sq end_op (ret (-1))) in
         sq (ilock (Some dp)) (
         if namecmp name DOT = 0 \<or> namecmp name DOTDOT = 0 then bad
         else bnd (dirlookup dp name) (\<lambda>r.
           case r of None \<Rightarrow> bad | Some (ip, off) \<Rightarrow>
             sq (ilock (Some ip)) (
             bnd (get_inode ip) (\<lambda>k.
             if sint (i_nlink k) < 1 then panic ''unlink: nlink < 1''
             else bnd (if i_type k = T_DIR then isdirempty ip else ret True) (\<lambda>e.
               if i_type k = T_DIR \<and> \<not> e then sq (iunlockput ip) bad
               else bnd (writei (src_local (replicate 16 0)) dp off 16) (\<lambda>w.
                 if w \<noteq> 16 then panic ''unlink: writei''
                 else
                   bnd (get_inode ip) (\<lambda>k.
                   sq (whenk (i_type k = T_DIR) (
                        sq (upd_inode dp (\<lambda>d. d\<lparr>i_nlink := i_nlink d - 1\<rparr>))
                           (iupdate dp))) (
                   sq (iunlockput dp) (
                   sq (upd_inode ip (\<lambda>k. k\<lparr>i_nlink := i_nlink k - 1\<rparr>)) (
                   sq (iupdate ip) (
                   sq (iunlockput ip) (
                   sq end_op
                      (ret 0))))))))))))))))"

section \<open>Creating and opening files\<close>

definition create :: "u8 list \<Rightarrow> u16 \<Rightarrow> u16 \<Rightarrow> u16 \<Rightarrow> ('x consst_scheme, nat option) kmon" where
  "create path type major minor =
     bnd (nameiparent path (replicate 14 0)) (\<lambda>(r, name).
     case r of None \<Rightarrow> ret None | Some dp \<Rightarrow>
       sq (ilock (Some dp)) (
       bnd (dirlookup dp name) (\<lambda>r.
       case r of
         Some (ip, _) \<Rightarrow>
           sq (iunlockput dp) (
           sq (ilock (Some ip)) (
           bnd (get_inode ip) (\<lambda>k.
           if type = T_FILE \<and> i_type k = T_FILE then ret (Some ip)
           else sq (iunlockput ip) (ret None))))
       | None \<Rightarrow>
           bnd (get_inode dp) (\<lambda>d.
           bnd (ialloc (i_dev d) type) (\<lambda>ip.
           sq (ilock (Some ip)) (
           sq (upd_inode ip (\<lambda>k. k\<lparr>i_major := major, i_minor := minor, i_nlink := 1\<rparr>)) (
           sq (iupdate ip) (
           bnd (get_inode ip) (\<lambda>k.
           sq (whenk (type = T_DIR) (
                sq (upd_inode dp (\<lambda>d. d\<lparr>i_nlink := i_nlink d + 1\<rparr>)) (
                sq (iupdate dp) (
                bnd (dirlink ip DOT (i_inum k)) (\<lambda>v.
                bnd (if v < 0 then ret (-1) else dirlink ip DOTDOT (i_inum d)) (\<lambda>v.
                whenk (v < 0) (panic ''create dots''))))))) (
           bnd (dirlink dp name (i_inum k)) (\<lambda>v.
           if v < 0 then panic ''create: dirlink''
           else
             sq (iunlockput dp)
                (ret (Some ip)))))))))))))"

definition sys_open :: "('x filest_scheme, int) kmon" where
  "sys_open =
     bnd (argpath 0) (\<lambda>r.
     case r of None \<Rightarrow> ret (-1) | Some path \<Rightarrow>
     bnd (argint 1) (\<lambda>r.
     case r of None \<Rightarrow> ret (-1) | Some omode \<Rightarrow>
       sq begin_op (
       bnd (if omode AND 0x200 \<noteq> 0 then create path T_FILE 0 0
            else bnd (namei path) (\<lambda>r.
              case r of None \<Rightarrow> ret None | Some ip \<Rightarrow>
                sq (ilock (Some ip)) (
                bnd (get_inode ip) (\<lambda>k.
                if i_type k = T_DIR \<and> omode \<noteq> 0 then sq (iunlockput ip) (ret None)
                else ret (Some ip))))) (\<lambda>r.
       case r of None \<Rightarrow> sq end_op (ret (-1)) | Some ip \<Rightarrow>
         bnd filealloc (\<lambda>r.
         bnd (case r of None \<Rightarrow> ret (-1) | Some f \<Rightarrow> fdalloc f) (\<lambda>fd.
         case r of
           Some f \<Rightarrow>
             if fd < 0 then
               sq (fileclose f) (
               sq (iunlockput ip) (
               sq end_op
                  (ret (-1))))
             else
               sq (iunlock (Some ip)) (
               sq end_op (
               sq (upd_file f (\<lambda>k. k\<lparr>f_type := FD_INODE, f_ip := Some ip, f_off := 0,
                     f_readable := (if omode AND 1 = 0 then 1 else 0),
                     f_writable := (if omode AND 1 \<noteq> 0 \<or> omode AND 2 \<noteq> 0 then 1 else 0)\<rparr>))
                  (ret fd)))
         | None \<Rightarrow> sq (iunlockput ip) (sq end_op (ret (-1)))))))))"

text \<open>\<open>mkdir\<close> and \<open>mknod\<close>: a transaction that creates an inode and lets go of it.\<close>

definition create_op :: "nat option \<Rightarrow> ('x consst_scheme, int) kmon" where
  "create_op r =
     (case r of
        None \<Rightarrow> sq end_op (ret (-1))
      | Some ip \<Rightarrow> sq (iunlockput ip) (sq end_op (ret 0)))"

definition sys_mkdir :: "('x consst_scheme, int) kmon" where
  "sys_mkdir =
     sq begin_op (
     bnd (bnd (argpath 0) (\<lambda>r.
          case r of None \<Rightarrow> ret None | Some path \<Rightarrow> create path T_DIR 0 0))
         create_op)"

definition sys_mknod :: "('x consst_scheme, int) kmon" where
  "sys_mknod =
     sq begin_op (
     bnd (bnd (argpath 0) (\<lambda>r.
          case r of None \<Rightarrow> ret None | Some path \<Rightarrow>
          bnd (argint 1) (\<lambda>r.
          case r of None \<Rightarrow> ret None | Some major \<Rightarrow>
          bnd (argint 2) (\<lambda>r.
          case r of None \<Rightarrow> ret None | Some minor \<Rightarrow>
            create path T_DEV (ucast major) (ucast minor)))))
         create_op)"

definition sys_chdir :: "('x consst_scheme, int) kmon" where
  "sys_chdir =
     bnd curproc (\<lambda>p.
     sq begin_op (
     bnd (bnd (argpath 0) (\<lambda>r. case r of None \<Rightarrow> ret None | Some path \<Rightarrow> namei path)) (\<lambda>r.
     case r of None \<Rightarrow> sq end_op (ret (-1)) | Some ip \<Rightarrow>
       sq (ilock (Some ip)) (
       bnd (get_inode ip) (\<lambda>k.
       if i_type k \<noteq> T_DIR then sq (iunlockput ip) (sq end_op (ret (-1)))
       else
         sq (iunlock (Some ip)) (
         bnd (get_proc p) (\<lambda>q.
         sq (bnd (nonnull ''cwd is null'' (p_cwd q)) iput) (
         sq end_op (
         sq (upd_proc p (\<lambda>q. q\<lparr>p_cwd := Some ip\<rparr>))
            (ret 0))))))))))"

section \<open>exec and pipe\<close>

text \<open>The loop of \<open>sys_exec\<close> over the argument vector, with \<open>k\<close> entries of \<open>argv\<close> left.\<close>

primrec fetch_args :: "nat \<Rightarrow> u32 \<Rightarrow> u8 list list \<Rightarrow> ('x procst_scheme, u8 list list option) kmon" where
  "fetch_args 0 a args = ret None"
| "fetch_args (Suc k) a args =
     bnd (fetchint a) (\<lambda>r.
     case r of None \<Rightarrow> ret None | Some uarg \<Rightarrow>
       if uarg = 0 then ret (Some args)
       else bnd (fetchstr uarg) (\<lambda>r.
         case r of None \<Rightarrow> ret None | Some (addr, len) \<Rightarrow>
           bnd (vload addr len) (\<lambda>bs. fetch_args k (a + 4) (args @ [bs]))))"

definition sys_exec :: "('x lifest_scheme, int) kmon" where
  "sys_exec =
     bnd (argpath 0) (\<lambda>r.
     case r of None \<Rightarrow> ret (-1) | Some path \<Rightarrow>
     bnd (argint 1) (\<lambda>r.
     case r of None \<Rightarrow> ret (-1) | Some uargv \<Rightarrow>
     bnd (fetch_args 32 uargv []) (\<lambda>r.
     case r of None \<Rightarrow> ret (-1) | Some argv \<Rightarrow> exec path argv)))"

definition sys_pipe :: "('x filest_scheme, int) kmon" where
  "sys_pipe =
     bnd (argptr 0 8) (\<lambda>r.
     case r of None \<Rightarrow> ret (-1) | Some fd \<Rightarrow>
     bnd pipealloc (\<lambda>(v, r0, r1).
     if v < 0 then ret (-1)
     else
       bnd (nonnull ''rf is null'' r0) (\<lambda>rf.
       bnd (nonnull ''wf is null'' r1) (\<lambda>wf.
       bnd (fdalloc rf) (\<lambda>fd0.
       bnd (if fd0 < 0 then ret (-1) else fdalloc wf) (\<lambda>fd1.
       if fd0 < 0 \<or> fd1 < 0 then
         sq (whenk (0 \<le> fd0) (
              bnd curproc (\<lambda>p. upd_proc p (\<lambda>q. q\<lparr>p_ofile := (p_ofile q)[nat fd0 := None]\<rparr>)))) (
         sq (fileclose rf) (
         sq (fileclose wf)
            (ret (-1))))
       else
         sq (vst32 fd (of_int fd0)) (
         sq (vst32 (fd + 4) (of_int fd1))
            (ret 0))))))))"

end
