(* ===== verification/Trap.thy ===== *)
theory Trap
  imports Sysfile
begin

text \<open>
  The way into the kernel: the process system calls of sysproc.c, the dispatch of syscall.c and the trap
  handler of trap.c. What the keyboard and the serial port have to deliver at an interrupt is an
  argument of \<open>trap\<close>.
\<close>

section \<open>State\<close>

text \<open>\<open>vectors\<close> are the entry points of vectors.S, \<open>cr2\<close> is the faulting address register, and \<open>idtr\<close>
  is the limit of the table once the processor uses it.\<close>

record trapst = lifest +
  ticks :: u32
  idt :: "gatedesc list"
  vectors :: "nat \<Rightarrow> u32"
  idtr :: "u16 option"
  cr2 :: u32

section \<open>Process system calls\<close>

definition sys_fork :: "('x lifest_scheme, int) kmon" where
  "sys_fork = fork"

definition sys_exit :: "('x lifest_scheme, int) kmon" where
  "sys_exit = sq exit (ret 0)"

definition sys_wait :: "('x procst_scheme, int) kmon" where
  "sys_wait = wait"

definition sys_kill :: "('x procst_scheme, int) kmon" where
  "sys_kill = bnd (argint 0) (\<lambda>r. case r of None \<Rightarrow> ret (-1) | Some pid \<Rightarrow> kill (sint pid))"

definition sys_getpid :: "('x procst_scheme, int) kmon" where
  "sys_getpid = bnd curproc (\<lambda>p. bnd (get_proc p) (\<lambda>q. ret (p_pid q)))"

definition sys_sbrk :: "('x procst_scheme, int) kmon" where
  "sys_sbrk =
     bnd (argint 0) (\<lambda>r.
     case r of None \<Rightarrow> ret (-1) | Some n \<Rightarrow>
       bnd curproc (\<lambda>p.
       bnd (get_proc p) (\<lambda>q.
       bnd (growproc (sint n)) (\<lambda>v.
       ret (if v < 0 then -1 else sint (p_sz q))))))"

text \<open>The loop of \<open>sys_sleep\<close>, which a woken process enters again.\<close>

definition sleep_loop :: "u32 \<Rightarrow> u32 \<Rightarrow> ('x trapst_scheme, int) kmon" where
  "sleep_loop ticks0 n =
     bnd (gets ticks) (\<lambda>t.
     if t - ticks0 < n then
       bnd curproc (\<lambda>p.
       bnd (get_proc p) (\<lambda>q.
       if p_killed q \<noteq> 0 then sq (release LTicks) (ret (-1))
       else sq (sleep ChanTicks (Some LTicks)) (fail Switched)))
     else sq (release LTicks) (ret 0))"

definition sys_sleep :: "('x trapst_scheme, int) kmon" where
  "sys_sleep =
     bnd (argint 0) (\<lambda>r.
     case r of None \<Rightarrow> ret (-1) | Some n \<Rightarrow>
       sq (acquire LTicks) (
       bnd (gets ticks) (\<lambda>ticks0. sleep_loop ticks0 n)))"

definition sys_uptime :: "('x trapst_scheme, int) kmon" where
  "sys_uptime =
     sq (acquire LTicks) (
     bnd (gets ticks) (\<lambda>xticks.
     sq (release LTicks)
        (ret (sint xticks))))"

definition sys_shmget :: "('x shmst_scheme, int) kmon" where
  "sys_shmget =
     bnd (argint 0) (\<lambda>r. case r of None \<Rightarrow> ret (-1) | Some key \<Rightarrow>
     bnd (argint 1) (\<lambda>r. case r of None \<Rightarrow> ret (-1) | Some sz \<Rightarrow>
     bnd (argint 2) (\<lambda>r. case r of None \<Rightarrow> ret (-1) | Some fl \<Rightarrow> shmget key sz (sint fl))))"

definition sys_shmdt :: "('x shmst_scheme, int) kmon" where
  "sys_shmdt = bnd (argint 0) (\<lambda>r. case r of None \<Rightarrow> ret 0 | Some i \<Rightarrow> shmdt i)"

definition sys_shmat :: "('x shmst_scheme, u32) kmon" where
  "sys_shmat =
     bnd (argint 0) (\<lambda>r. case r of None \<Rightarrow> ret 0 | Some shmid \<Rightarrow>
     bnd (argint 1) (\<lambda>r. case r of None \<Rightarrow> ret 0 | Some i \<Rightarrow>
     bnd (argint 2) (\<lambda>r. case r of None \<Rightarrow> ret 0 | Some fl \<Rightarrow> shmat (sint shmid) i (sint fl))))"

definition sys_shmctl :: "('x shmst_scheme, int) kmon" where
  "sys_shmctl =
     bnd (argint 0) (\<lambda>r. case r of None \<Rightarrow> ret (-1) | Some shmid \<Rightarrow>
     bnd (argint 1) (\<lambda>r. case r of None \<Rightarrow> ret (-1) | Some cmd \<Rightarrow>
     bnd (argint 2) (\<lambda>r. case r of None \<Rightarrow> ret (-1) | Some buf \<Rightarrow> shmctl (sint shmid) (sint cmd) buf)))"

section \<open>Dispatch\<close>

definition word_result :: "('s, int) kmon \<Rightarrow> ('s, u32) kmon" where
  "word_result m = bnd m (\<lambda>v. ret (of_int v))"

text \<open>The table \<open>syscalls\<close>: the handler of a number, with its result as it is stored in \<open>eax\<close>.\<close>

definition syscalls :: "int \<Rightarrow> ('x trapst_scheme, u32) kmon option" where
  "syscalls num =
     (if num = 1 then Some (word_result sys_fork)
      else if num = 2 then Some (word_result sys_exit)
      else if num = 3 then Some (word_result sys_wait)
      else if num = 4 then Some (word_result sys_pipe)
      else if num = 5 then Some (word_result sys_read)
      else if num = 6 then Some (word_result sys_kill)
      else if num = 7 then Some (word_result sys_exec)
      else if num = 8 then Some (word_result sys_fstat)
      else if num = 9 then Some (word_result sys_chdir)
      else if num = 10 then Some (word_result sys_dup)
      else if num = 11 then Some (word_result sys_getpid)
      else if num = 12 then Some (word_result sys_sbrk)
      else if num = 13 then Some (word_result sys_sleep)
      else if num = 14 then Some (word_result sys_uptime)
      else if num = 15 then Some (word_result sys_open)
      else if num = 16 then Some (word_result sys_write)
      else if num = 17 then Some (word_result sys_mknod)
      else if num = 18 then Some (word_result sys_unlink)
      else if num = 19 then Some (word_result sys_link)
      else if num = 20 then Some (word_result sys_mkdir)
      else if num = 21 then Some (word_result sys_close)
      else if num = 22 then Some (word_result sys_shmget)
      else if num = 23 then Some sys_shmat
      else if num = 24 then Some (word_result sys_shmdt)
      else if num = 25 then Some (word_result sys_shmctl)
      else None)"

definition syscall :: "('x trapst_scheme, unit) kmon" where
  "syscall =
     bnd curproc (\<lambda>p.
     bnd (get_proc p) (\<lambda>q.
     bnd (rd32 (p_tf q + TF_EAX)) (\<lambda>eax.
     case syscalls (sint eax) of
       Some handler \<Rightarrow>
         bnd handler (\<lambda>v.
         bnd (get_proc p) (\<lambda>q.
         wr32 (p_tf q + TF_EAX) v))
     | None \<Rightarrow>
         sq (cprintfa ''%d %s: unknown sys call %d\<newline>''
              [AInt (p_pid q), AChars (p_name q), AInt (sint eax)])
            (wr32 (p_tf q + TF_EAX) (-1)))))"

section \<open>Traps\<close>

definition tvinit :: "('x trapst_scheme, unit) kmon" where
  "tvinit =
     sq (each 0 256 (\<lambda>i. modify (\<lambda>s. s\<lparr>idt := (idt s)[i := SETGATE False 0x8 (vectors s i) 0]\<rparr>))) (
     sq (modify (\<lambda>s. s\<lparr>idt := (idt s)[64 := SETGATE True 0x8 (vectors s 64) 3]\<rparr>))
        (initlock LTicks ''time''))"

definition idtinit :: "('x trapst_scheme, unit) kmon" where
  "idtinit = modify (\<lambda>s. s\<lparr>idtr := Some 2047\<rparr>)"

text \<open>Is \<open>name\<close> a prefix of \<open>testShared\<close>, the test of the page-fault case.\<close>

definition named_testShared :: "u8 list \<Rightarrow> bool" where
  "named_testShared name \<longleftrightarrow>
     (let m = arrays name [116, 101, 115, 116, 83, 104, 97, 114, 101, 100, 0]
      in case strlen m 0 of None \<Rightarrow> False | Some n \<Rightarrow> strncmp m 0 4096 (of_int n) = 0)"

text \<open>A trap that the kernel does not expect: it panics in kernel mode and reports the process else.\<close>

definition unexpected_trap :: "u32 \<Rightarrow> ('x trapst_scheme, unit) kmon" where
  "unexpected_trap tf =
     bnd (rd32 (tf + TF_TRAPNO)) (\<lambda>trapno.
     bnd (rd32 (tf + TF_EIP)) (\<lambda>eip.
     bnd (rd32 (tf + TF_CS)) (\<lambda>cs.
     bnd (rd32 (tf + TF_ERR)) (\<lambda>err.
     bnd (gets cr2) (\<lambda>cr2.
     bnd myproc (\<lambda>mp.
     bnd cpuid (\<lambda>cpu.
     case mp of
       None \<Rightarrow>
         sq (cprintfa ''unexpected trap %d from cpu %d eip %x (cr2=0x%x)\<newline>''
              [AWord trapno, AInt (int cpu), AWord eip, AWord cr2])
            (panic ''trap'')
     | Some p \<Rightarrow>
         if cs AND 3 = 0 then
           sq (cprintfa ''unexpected trap %d from cpu %d eip %x (cr2=0x%x)\<newline>''
                [AWord trapno, AInt (int cpu), AWord eip, AWord cr2])
              (panic ''trap'')
         else
           bnd (get_proc p) (\<lambda>q.
           cprintfa ''pid %d %s: trap %d err %d on cpu %d eip 0x%x addr 0x%x--kill proc\<newline>''
             [AInt (p_pid q), AChars (p_name q), AWord trapno, AWord err, AInt (int cpu), AWord eip,
              AWord cr2]))))))))"

definition mark_killed :: "('x procst_scheme, unit) kmon" where
  "mark_killed = bnd curproc (\<lambda>p. upd_proc p (\<lambda>q. q\<lparr>p_killed := 1\<rparr>))"

definition exit_if_killed :: "u32 \<Rightarrow> ('x lifest_scheme, unit) kmon" where
  "exit_if_killed cs =
     bnd myproc (\<lambda>mp.
     case mp of None \<Rightarrow> ret () | Some p \<Rightarrow>
       bnd (get_proc p) (\<lambda>q.
       whenk (p_killed q \<noteq> 0 \<and> cs AND 3 = 3) exit))"

text \<open>
  The cases of the switch: timer, disk, spurious disk, keyboard, serial port, spurious, page fault and
  the rest. \<open>kbd\<close> and \<open>com\<close> are the characters that the keyboard and the serial port deliver.
\<close>

definition trap_case :: "int list \<Rightarrow> int list \<Rightarrow> u32 \<Rightarrow> u32 \<Rightarrow> ('x trapst_scheme, unit) kmon" where
  "trap_case kbd com tf trapno =
     (if trapno = 32 then
        bnd cpuid (\<lambda>c.
        sq (whenk (c = 0) (
             sq (acquire LTicks) (
             sq (modify (\<lambda>s. s\<lparr>ticks := ticks s + 1\<rparr>)) (
             sq (wakeup ChanTicks)
                (release LTicks)))))
           (hwcall Lapiceoi))
      else if trapno = 46 then sq ideintr (hwcall Lapiceoi)
      else if trapno = 47 then ret ()
      else if trapno = 33 then sq (consoleintr kbd) (hwcall Lapiceoi)
      else if trapno = 36 then sq (consoleintr com) (hwcall Lapiceoi)
      else if trapno = 39 \<or> trapno = 63 then
        bnd cpuid (\<lambda>c.
        bnd (rd32 (tf + TF_CS)) (\<lambda>cs.
        bnd (rd32 (tf + TF_EIP)) (\<lambda>eip.
        sq (cprintfa ''cpu%d: spurious interrupt at %x:%x\<newline>''
             [AInt (int c), AWord (cs AND 0xFFFF), AWord eip])
           (hwcall Lapiceoi))))
      else if trapno = 14 then
        bnd curproc (\<lambda>p.
        bnd (get_proc p) (\<lambda>q.
        sq (if named_testShared (p_name q)
            then cprintf ''Segmentation fault (Core dumped) - Trap 14\<newline>''
            else unexpected_trap tf)
           mark_killed))
      else sq (unexpected_trap tf) mark_killed)"

definition trap :: "int list \<Rightarrow> int list \<Rightarrow> u32 \<Rightarrow> ('x trapst_scheme, unit) kmon" where
  "trap kbd com tf =
     bnd (rd32 (tf + TF_TRAPNO)) (\<lambda>trapno.
     if trapno = 64 then
       bnd curproc (\<lambda>p.
       bnd (get_proc p) (\<lambda>q.
       sq (whenk (p_killed q \<noteq> 0) exit) (
       sq (upd_proc p (\<lambda>q. q\<lparr>p_tf := tf\<rparr>)) (
       sq syscall (
       bnd curproc (\<lambda>p.
       bnd (get_proc p) (\<lambda>q.
       whenk (p_killed q \<noteq> 0) exit)))))))
     else
       bnd (rd32 (tf + TF_CS)) (\<lambda>cs.
       sq (trap_case kbd com tf trapno) (
       sq (exit_if_killed cs) (
       sq (bnd myproc (\<lambda>mp.
           case mp of None \<Rightarrow> ret () | Some p \<Rightarrow>
             bnd (get_proc p) (\<lambda>q.
             whenk (p_state q = RUNNING \<and> trapno = 32) yield)))
          (exit_if_killed cs)))))"

end
