(* ===== verification/Shmprops.thy ===== *)
theory Shmprops
  imports Shmspec
begin

text \<open>
  Properties of processes and of the shared-memory calls, over the specifications of the previous
  theories: no wakeup is lost, the scheduler finds a runnable process, a key keeps naming its region,
  attaching and detaching are inverse, and removal gives the pages back. The last sections show where
  the code does not do what it means to.
\<close>

section \<open>Sleeping and waking\<close>


lemma shm_kernel_table:
  "ptable (shm_kernel R) = demo_proc RUNNING 0x80400000 # replicate 63 (demo_proc UNUSED 0)"
  "length (ptable (shm_kernel R)) = 64"
  by (simp_all add: shm_kernel_def)


text \<open>
  C11: \<open>wakeup\<close> makes exactly the processes that sleep on the channel runnable. It changes nothing else in
  the process table and leaves the locks as they were.
\<close>

theorem wakeup_wakes_exactly:
  assumes "can_lock LPtable s" and "length (ptable s) = NPROC"
  shows "\<exists>s'. wakeup ch s = Inr ((), s') \<and> lockview s' = lockview s \<and> mem s' = mem s
    \<and> length (ptable s') = NPROC
    \<and> (\<forall>i < NPROC. ptable s' ! i =
         (if p_state (ptable s ! i) = SLEEPING \<and> p_chan (ptable s ! i) = ch
          then (ptable s ! i)\<lparr>p_state := RUNNABLE\<rparr> else ptable s ! i))"
proof -
  have "mem (bracket LPtable s) = mem s" by (simp add: bracket_def)
  then show ?thesis
    using wakeup_eq [OF assms, of ch] assms by (auto simp: lockview_bracket woken_def)
qed

theorem wakeup_wakes_exactly_witness:
  "can_lock LPtable (shm_kernel []) \<and> (\<exists>s'. wakeup ChanTicks (shm_kernel []) = Inr ((), s')
    \<and> p_state (ptable s' ! 0) = RUNNING)"
  using wakeup_wakes_exactly [OF shm_kernel_locks(1), of "[]" ChanTicks]
  by (auto simp: shm_kernel_locks shm_kernel_table demo_proc_def)

section \<open>The scheduler\<close>

lemma scheduler_starts:
  assumes "cpu_ok s" "\<not> eflags_IF s"
  shows "scheduler (Suc n) s = sq (sched_round (the (cpu_index s)))
     (sq (each (Suc 0) n (\<lambda>_. sched_round (the (cpu_index s)))) (fail Diverges))
     (s\<lparr>cpus := (cpus s)[the (cpu_index s) := (cur_cpu s)\<lparr>c_proc := None\<rparr>]\<rparr>)"
  using mycpu_eq [OF assms]
  by (simp add: scheduler_def bnd_def sq_def upd_cpu_def modify_def cur_cpu_def
      split: sum.split)

text \<open>
  C12: the scheduler does not miss work. On a CPU that holds no lock, with a runnable process in the
  table and the table lock free, \<open>scheduler\<close> switches to the first runnable process in its first round:
  that process becomes the running one of this CPU, its page table is loaded, its kernel stack is in the
  task state, the table lock is held for the process to release, and no other entry has changed.
\<close>

theorem scheduler_runs_first:
  assumes "idle s" and "\<not> eflags_IF s"
    and "first_index (\<lambda>j. p_state (ptable s ! j) = RUNNABLE) NPROC = Some i"
    and "p_kstack (ptable s ! i) \<noteq> 0" and "p_pgdir (ptable s ! i) \<noteq> 0"
  shows "\<exists>t. scheduler (Suc n) s = Inl (Switched, t) \<and> held LPtable t
    \<and> c_proc (cur_cpu t) = Some i \<and> cr3 t = V2P (p_pgdir (ptable s ! i))
    \<and> ts_esp0 (c_ts (cur_cpu t)) = p_kstack (ptable s ! i) + KSTACKSIZE
    \<and> ptable t = (ptable s)[i := (ptable s ! i)\<lparr>p_state := RUNNING\<rparr>]"
proof -
  let ?s = "s\<lparr>cpus := (cpus s)[the (cpu_index s) := (cur_cpu s)\<lparr>c_proc := None\<rparr>]\<rparr>"
  have ok: "cpu_ok s" using assms(1) by (simp add: idle_def can_lock_def)
  note S = cur_cpu_set_proc [OF ok, of None]
  have idle: "idle ?s" using assms(1) S by (simp add: idle_def can_lock_def)
  let ?u = "acquired LPtable (?s\<lparr>eflags_IF := True\<rparr>)"
  let ?t = "dispatched i ?u"
  have c: "can_lock LPtable (?s\<lparr>eflags_IF := True\<rparr>)" using idle by (simp add: idle_def can_lock_sti)
  have u: "cpu_ok ?u" "held LPtable ?u" "ptable ?u = ptable s"
    using in_lock_acquired [OF c] by (simp_all add: in_lock_def)
  note D = cur_cpu_set_proc [OF u(1), of "Some i"]
  have "sched_round (the (cpu_index s)) ?s = Inl (Switched, ?t)"
    using sched_round_runs [OF idle, of i] assms(3-5) S(1) by simp
  then have "scheduler (Suc n) s = Inl (Switched, ?t)"
    using scheduler_starts [OF ok assms(2), of n] by (simp add: sq_def bnd_def)
  moreover have "held LPtable ?t"
    using u(2) D(1) by (simp add: dispatched_def held_def)
  moreover have "cur_cpu ?t = load_user (ts_addr ?u (the (cpu_index ?u))) (ptable s ! i)
      ((cur_cpu ?u)\<lparr>c_proc := Some i\<rparr>)"
    using cur_cpu_switched_to(1) [OF D(3)] D u(3) by (simp add: dispatched_def)
  ultimately show ?thesis
    using u(3) by (auto intro!: exI [of _ ?t] simp: dispatched_def load_user_def)
qed

definition runnable_kernel :: shmst where
  "runnable_kernel = (shm_kernel [])\<lparr>ptable := demo_proc UNUSED 0 #
     (demo_proc RUNNABLE 0x80400000)\<lparr>p_kstack := 0x80405000\<rparr> # replicate 62 (demo_proc UNUSED 0)\<rparr>"

theorem scheduler_runs_first_witness:
  "idle runnable_kernel \<and> (\<exists>t. scheduler 1 runnable_kernel = Inl (Switched, t)
     \<and> c_proc (cur_cpu t) = Some 1 \<and> p_state (ptable t ! 1) = RUNNING)"
proof -
  let ?k = "runnable_kernel"
  have c: "c_ncli (cur_cpu (shm_kernel [])) = 0"
    by (simp add: cur_cpu_def cpu_index_def first_index_def shm_kernel_def boot_cpu_def)
  have i: "idle ?k"
    using shm_kernel_locks(1) [of LPtable "[]"] c by (simp add: idle_def runnable_kernel_def)
  have e: "\<not> eflags_IF ?k" by (simp add: runnable_kernel_def shm_kernel_def)
  have pt: "ptable ?k = demo_proc UNUSED 0 #
      (demo_proc RUNNABLE 0x80400000)\<lparr>p_kstack := 0x80405000\<rparr> # replicate 62 (demo_proc UNUSED 0)"
    by (simp add: runnable_kernel_def)
  have f: "first_index (\<lambda>j. p_state (ptable ?k ! j) = RUNNABLE) NPROC = Some 1"
    by (simp add: pt first_index_Some demo_proc_def)
  have "p_kstack (ptable ?k ! 1) \<noteq> 0" "p_pgdir (ptable ?k ! 1) \<noteq> 0" by (simp_all add: pt demo_proc_def)
  from scheduler_runs_first [OF i e f this, of 0] obtain t where
    t: "scheduler (Suc 0) ?k = Inl (Switched, t)" "c_proc (cur_cpu t) = Some 1"
      "ptable t = (ptable ?k)[1 := (ptable ?k ! 1)\<lparr>p_state := RUNNING\<rparr>]" by blast
  have "p_state (ptable t ! 1) = RUNNING" unfolding t(3) by (simp add: pt)
  with i t(1,2) show ?thesis by auto
qed

lemma shmget_plan_found:
  assumes "first_index (\<lambda>i. r_key (R ! i) = key) 64 = Some i" "key \<noteq> IPC_PRIVATE" "sz \<noteq> 0"
    "fl = 0 \<or> fl = IPC_CREAT OR READ_SHM \<or> fl = IPC_CREAT OR RW_SHM"
    "unat (sz div PGSIZE) + 1 \<le> 64" "r_size (R ! i) = of_nat (unat (sz div PGSIZE) + 1)"
    "ip_mode (shm_perm (r_buffer (R ! i))) = READ_SHM \<or> ip_mode (shm_perm (r_buffer (R ! i))) = RW_SHM"
  shows "shmget_plan key sz fl R = Found (r_shmid (R ! i))"
proof -
  have "shmget_flags key fl \<in> {Some (-1, 0), Some (4, 512), Some (6, 512)}"
    using assms(2,4) by (auto simp: shmget_flags_def)
  then show ?thesis using assms by (auto simp: shmget_plan_def Let_def)
qed

lemma can_lock_bracket: "can_lock l s \<Longrightarrow> can_lock k s \<Longrightarrow> can_lock k (bracket l s)"
  by (metis can_lock_def can_lock_lockview cpu_ok_bracket lockview_bracket)

lemma shmget_found_again:
  assumes r: "shm_ready s L p" and g: "shmget key sz fl s = Inr (v, s1)" and v: "v \<noteq> -1"
  shows "\<exists>i. can_lock LShm s1 \<and> first_index (\<lambda>i. r_key (allRegions s1 ! i) = key) 64 = Some i
    \<and> unat (sz div PGSIZE) + 1 \<le> 64 \<and> r_size (allRegions s1 ! i) = of_nat (unat (sz div PGSIZE) + 1)
    \<and> (ip_mode (shm_perm (r_buffer (allRegions s1 ! i))) = READ_SHM
       \<or> ip_mode (shm_perm (r_buffer (allRegions s1 ! i))) = RW_SHM) \<and> r_shmid (allRegions s1 ! i) = v"
proof -
  have s: "can_lock LShm s" "table_ok (allRegions s)" "cpu_ok s"
    using r by (simp_all add: shm_ready_def can_lock_def)
  show ?thesis
  proof (cases "shmget_plan key sz fl (allRegions s)")
    case Refused
    then show ?thesis using shmget_no_create(1) [OF s(1) Refused] g v by simp
  next
    case (Found j)
    then have "v = j" "s1 = bracket LShm s" using shmget_no_create(2) [OF s(1) Found] g by simp_all
    then show ?thesis
      using Found can_lock_bracket [OF s(1) s(1)]
      by (auto simp: shmget_plan_def Let_def split: option.splits prod.splits if_splits)
  next
    case (Create i n permission)
    note P = shmget_plan_Create [OF Create]
    from wpeD [OF shmget_create_spec [OF r Create] g] v
    have c: "v = int i" "sframe s s1"
      and R: "allRegions s1 = (allRegions s)[i := filled key sz n permission (p_pid (ptable s ! p)) i
          ((allRegions s ! i)\<lparr>r_physicalAddr :=
             map V2P (take n L) @ drop n (r_physicalAddr (allRegions s ! i))\<rparr>)]"
      by (auto split: if_splits)
    have i: "i < length (allRegions s)" using P(1) table_okD(1) [OF s(2)] by simp
    obtain fl' where fl: "shmget_flags key fl = Some (permission, fl')"
      using Create by (auto simp: shmget_plan_def Let_def split: option.splits prod.splits if_splits)
    have perm: "permission = READ_SHM \<or> permission = RW_SHM"
      using shmget_flags_perm [OF fl P(7) [OF fl]] .
    have "first_index (\<lambda>i. r_key (allRegions s1 ! i) = key) 64 = Some i"
      unfolding first_index_Some R using P(1,6) i by (auto simp: nth_upd filled_def)
    moreover have "can_lock LShm s1" using sframe_cpu(6) [OF c(2) s(3)] s(1) by simp
    ultimately show ?thesis using c(1) i P(4,5) perm by (auto simp: R filled_def)
  qed
qed


section \<open>Attaching and detaching\<close>

text \<open>The slots in use describe ranges of at least one page below \<open>KERNBASE\<close>.\<close>

definition slots_ok :: "sharedPages list \<Rightarrow> bool" where
  "slots_ok gs \<longleftrightarrow> (\<forall>g \<in> set gs. sp_key g \<noteq> -1 \<longrightarrow>
     sp_virtualAddr g < sp_virtualAddr g + sp_size g * PGSIZE)"

lemma shmat_post_ready:
  assumes r: "shm_ready s L p" and q: "shmat shmid shmaddr shmflag s = Inr (v, s1)"
    and po: "shmat_post s L p shmid va perm idx v s1"
  shows "\<exists>L1. shm_ready s1 L1 p \<and> vm_inv s1 (p_pgdir (ptable s ! p)) L1"
proof -
  obtain L1 where L1: "vm_inv s1 (p_pgdir (ptable s ! p)) L1"
    using po by (auto simp: shmat_post_def Let_def)
  have "can_lock LShm s1"
    using po r can_lock_lockview [of s1 s] by (auto simp: shmat_post_def Let_def shm_ready_def can_lock_def)
  moreover have "table_ok (allRegions s1)"
    using stableD [OF stable_shmat _ q] r by (simp add: shm_ready_def)
  ultimately show ?thesis
    using L1 po r by (auto simp: shm_ready_def vm_inv_def shmat_post_def Let_def)
qed

lemma attached_segment:
  fixes s s1 :: "'x shmst_scheme"
  assumes r: "shm_ready s L p" "p < length (ptable s)" and at: "attachable s p shmid shmaddr shmflag va perm idx"
    and sl: "length (p_pages (ptable s ! p)) = 64" "slots_ok (p_pages (ptable s ! p))" "va \<noteq> 0"
    and po: "shmat_post s L p shmid va perm idx va s1"
  shows "segment_at s1 p va idx" and "p < length (ptable s1)"
    and "p_pages (ptable s1 ! p) ! idx = attached_slot shmid va perm (allRegions s ! nat shmid) (p_pages (ptable s ! p) ! idx)"
    and "allRegions s1 ! nat shmid = attached_region (p_pid (ptable s ! p)) (allRegions s ! nat shmid)"
proof -
  let ?q = "ptable s ! p" and ?r = "allRegions s ! nat shmid" and ?d = "p_pgdir (ptable s ! p)"
  let ?g = "attached_slot shmid va perm ?r (p_pages ?q ! idx)" and ?n = "unat (r_size ?r)"
  let ?ps = "take ?n (r_physicalAddr ?r)"
  have A: "0 \<le> shmid" "shmid < 64" "r_shmid ?r \<noteq> -1" "pgaligned va" "unat va + 4096 * ?n < 2147483648"
    "first_index (\<lambda>i. sp_key (p_pages ?q ! i) = -1) 64 = Some idx"
    "\<And>i. i < 64 \<Longrightarrow> sp_key (p_pages ?q ! i) \<noteq> -1 \<Longrightarrow> \<not> (sp_virtualAddr (p_pages ?q ! i) \<le> va \<and>
        va < sp_virtualAddr (p_pages ?q ! i) + sp_size (p_pages ?q ! i) * PGSIZE)"
    using at by (auto simp: attachable_def Let_def)
  have t: "table_ok (allRegions s)" using r by (simp add: shm_ready_def)
  have u: "region_used (nat shmid) ?r" using used_index(2) [OF t A(1-3)] .
  have len: "length (allRegions s) = 64" "length (r_physicalAddr ?r) = 64" "?n \<le> 64"
    using table_okD(1) [OF t] table_okD(2) [OF t, of "nat shmid"] A(1,2) used_size [OF u] by (simp_all add: region_ok_def)
  have "unat (-1 :: u32) = 4294967295" by (simp add: unsigned_minus_1_eq_mask mask_eq_exp_minus_1)
  then have ne: "va \<noteq> -1" using A(5) by auto
  have P: "pte (mem s1) ?d = map_list (pte (mem s) ?d) va ?ps perm"
    "ptable s1 = (ptable s)[p := ?q\<lparr>p_pages := (p_pages ?q)[idx := ?g]\<rparr>]"
    "allRegions s1 = (allRegions s)[nat shmid := attached_region (p_pid ?q) ?r]"
    using po ne by (auto simp: shmat_post_def Let_def)
  have idx: "idx < 64" "\<And>j. j < idx \<Longrightarrow> sp_key (p_pages ?q ! j) \<noteq> -1"
    using A(6) by (auto simp: first_index_Some)
  have other: "sp_virtualAddr (p_pages ?q ! j) \<noteq> va" if j: "j < idx" for j
  proof
    assume eq: "sp_virtualAddr (p_pages ?q ! j) = va"
    have "p_pages ?q ! j \<in> set (p_pages ?q)" using j idx(1) sl(1) by simp
    then have "va < va + sp_size (p_pages ?q ! j) * PGSIZE"
      using sl(2) idx(2) [OF j] eq by (auto simp: slots_ok_def)
    then show False using A(7) [of j] idx j eq by auto
  qed
  have q1: "p_pages (ptable s1 ! p) = (p_pages ?q)[idx := ?g]" "p_pgdir (ptable s1 ! p) = ?d"
    "p_pages (ptable s1 ! p) ! idx = ?g"
    using P(2) r(2) idx(1) sl(1) by simp_all
  then show "p_pages (ptable s1 ! p) ! idx = ?g" "p < length (ptable s1)" using P(2) r(2) by simp_all
  show "allRegions s1 ! nat shmid = attached_region (p_pid ?q) ?r" using P(3) A(1,2) len by simp
  have key: "sp_key ?g \<noteq> -1" "sp_virtualAddr ?g = va" "sp_size ?g = r_size ?r" "sp_shmid ?g = shmid"
    using u by (simp_all add: attached_slot_def region_used_def)
  have "first_index (\<lambda>i. sp_key (p_pages (ptable s1 ! p) ! i) \<noteq> -1 \<and>
      sp_virtualAddr (p_pages (ptable s1 ! p) ! i) = va) 64 = Some idx"
    unfolding first_index_Some q1(1) using idx(1) other key sl(1) by (auto simp: nth_upd)
  moreover have "PDX (va + of_nat k * PGSIZE) \<in> tables (mem s1) ?d" if k: "k < ?n" for k
  proof (rule ccontr)
    assume "PDX (va + of_nat k * PGSIZE) \<notin> tables (mem s1) ?d"
    then have "pte (mem s1) ?d (va + of_nat k * PGSIZE) = 0" by (simp add: pte_def)
    moreover have "pg (va + of_nat k * PGSIZE) = pg va + k"
      by (rule page_step(2) [OF A(4) _ k]) (use A(5) in simp)
    ultimately have "?ps ! k OR perm OR PTE_P = 0" using P(1) k len by (simp add: map_list_def)
    then show False by (simp add: or_eq_0_iff)
  qed
  ultimately show "segment_at s1 p va idx"
    using q1 key sl(3) A(1,2,4,5) len by (simp add: segment_at_def Let_def)
qed
text \<open>
  C3: \<open>shmat\<close> of a region in use, at an address where the process has nothing mapped, either maps exactly
  the pages of the region there with the permission of the region and of the flags, records the segment
  in the first free slot and counts the attachment, or it runs out of memory for page tables and returns
  -1 with both tables unchanged. The second case arises only when there are fewer free pages than the
  region has pages.
\<close>

theorem shmat_maps_region:
  fixes s :: "'x shmst_scheme"
  assumes "shm_ready s L p" and "p < length (ptable s)" and "vm_inv s (p_pgdir (ptable s ! p)) L"
    and "attachable s p shmid shmaddr shmflag va perm idx"
  defines "q \<equiv> ptable s ! p" and "r \<equiv> allRegions s ! nat shmid"
  shows "\<exists>v s' L'. shmat shmid shmaddr shmflag s = Inr (v, s') \<and> lockview s' = lockview s
    \<and> vm_inv s' (p_pgdir q) L'
    \<and> (v = va
        \<and> pte (mem s') (p_pgdir q) =
            map_list (pte (mem s) (p_pgdir q)) va (take (unat (r_size r)) (r_physicalAddr r)) perm
        \<and> ptable s' = (ptable s)[p := q\<lparr>p_pages :=
            (p_pages q)[idx := attached_slot shmid va perm r (p_pages q ! idx)]\<rparr>]
        \<and> allRegions s' = (allRegions s)[nat shmid := attached_region (p_pid q) r]
       \<or> v = -1 \<and> L' = [] \<and> length L < unat (r_size r)
        \<and> ptable s' = ptable s \<and> allRegions s' = allRegions s)"
proof -
  obtain v s' where s': "shmat shmid shmaddr shmflag s = Inr (v, s')" "shmat_post s L p shmid va perm idx v s'"
    using wpe_returns [OF shmat_spec [OF assms(1,2,4,3)]] by blast
  have "k < length (take n xs) \<Longrightarrow> m \<le> k \<Longrightarrow> m < n" for k n m and xs :: "u32 list" by simp
  with s' show ?thesis unfolding shmat_post_def Let_def q_def r_def by metis
qed

text \<open>
  A kernel with one region of one page, number \<open>m\<close>, marked for deletion or not, and a process that has
  nothing attached.
\<close>

definition demo_region :: "nat \<Rightarrow> int \<Rightarrow> shmRegion" where
  "demo_region m d =
     (filled 5 100 1 6 1 m (blank_region\<lparr>r_physicalAddr := 0x403000 # replicate 63 0\<rparr>))\<lparr>r_toBeDeleted := d\<rparr>"

abbreviation demo_regions :: "nat \<Rightarrow> int \<Rightarrow> shmRegion list" where
  "demo_regions m d \<equiv> (replicate 64 blank_region)[m := demo_region m d]"

lemma demo_regions_ok: "m < 64 \<Longrightarrow> d \<in> {0, 1} \<Longrightarrow> table_ok (demo_regions m d)"
  by (rule table_ok_upd [OF blank_table_ok])
    (auto simp: region_ok_def region_used_def demo_region_def filled_def blank_region_def)

lemma demo_slots:
  "p_pages (ptable (shm_kernel R) ! 0) = replicate 64 blank_page" "allRegions (shm_kernel R) = R"
  "p_pgdir (ptable (shm_kernel R) ! 0) = 0x80400000"
  by (simp_all add: shm_kernel_def demo_proc_def)

lemma demo_attachable:
  assumes "m < 64"
  shows "attachable (shm_kernel (demo_regions m d)) 0 (int m) 0 0 HEAPLIMIT 6 0"
proof -
  have "shmat_addr (replicate 64 blank_page) 1 0 0 = Some HEAPLIMIT" by code_simp
  moreover have "\<not> range_mapped (pte (mem (shm_kernel R)) 0x80400000) HEAPLIMIT 1" for R
    by (simp add: shm_kernel_def vm_demo_inv(2) range_mapped_def)
  moreover have "first_index (\<lambda>i. sp_key (replicate 64 blank_page ! i) = -1) 64 = Some 0"
    by (simp add: first_index_Some blank_page_def)
  ultimately show ?thesis
    using assms
    by (simp add: attachable_def Let_def demo_slots demo_region_def filled_def blank_page_def
        shmat_perm_def pgaligned_def)
qed

lemma demo_attach_facts:
  assumes "m < 64" "d \<in> {0, 1}"
  shows "shm_ready (shm_kernel (demo_regions m d)) [0x80401000, 0x80402000] 0" "0 < length (ptable (shm_kernel R))"
    "vm_inv (shm_kernel R) (p_pgdir (ptable (shm_kernel R) ! 0)) [0x80401000, 0x80402000]"
    "length (p_pages (ptable (shm_kernel R) ! 0)) = 64" "slots_ok (p_pages (ptable (shm_kernel R) ! 0))"
  using shm_kernel_ready [OF demo_regions_ok [OF assms]] shm_kernel_vm [of R]
  by (simp_all add: shm_kernel_table(2) demo_slots slots_ok_def blank_page_def)

lemma demo_region_facts:
  "r_size (demo_region m d) = 1" "r_toBeDeleted (demo_region m d) = d" "r_shmid (demo_region m d) = int m"
  "shm_nattch (r_buffer (demo_region m d)) = 0" "region_pages (demo_region m d) = [0x80403000]"
  by (simp_all add: demo_region_def filled_def blank_region_def region_pages_def P2V_def)

theorem shmat_maps_region_witness:
  "\<exists>s'. shmat 3 0 0 (shm_kernel (demo_regions 3 0)) = Inr (HEAPLIMIT, s')
     \<and> p_pages (ptable s' ! 0) ! 0 = attached_slot 3 HEAPLIMIT 6 (demo_region 3 0) blank_page"
proof -
  let ?k = "shm_kernel (demo_regions 3 0)"
  have m: "(3 :: nat) < 64" "(0 :: int) \<in> {0, 1}" by simp_all
  have r: "allRegions ?k ! nat (int 3) = demo_region 3 0" by (simp add: demo_slots)
  obtain v s' where s': "shmat (int 3) 0 0 ?k = Inr (v, s')"
    and v: "v = HEAPLIMIT \<and> ptable s' = (ptable ?k)[0 := (ptable ?k ! 0)\<lparr>p_pages := (replicate 64 blank_page)
          [0 := attached_slot (int 3) HEAPLIMIT 6 (demo_region 3 0) (replicate 64 blank_page ! 0)]\<rparr>]
      \<or> length [0x80401000, 0x80402000 :: u32] < unat (r_size (demo_region 3 0))"
    using shmat_maps_region [OF demo_attach_facts(1-3) [OF m] demo_attachable [OF m(1)]]
    unfolding r demo_slots(1) by blast
  then show ?thesis by (auto simp: demo_region_facts shm_kernel_table)
qed

text \<open>
  C4: detaching undoes attaching. After an \<open>shmat\<close> that succeeded, \<open>shmdt\<close> of the address it returned
  succeeds: no page of the range is mapped any more, every other address translates as before, the slot
  is free again and the others are as before, and the region has its old number of attachments.
\<close>

theorem shmat_shmdt_roundtrip:
  fixes s s1 :: "'x shmst_scheme"
  assumes "shm_ready s L p" and "p < length (ptable s)" and "vm_inv s (p_pgdir (ptable s ! p)) L"
    and "attachable s p shmid shmaddr shmflag va perm idx"
    and "length (p_pages (ptable s ! p)) = 64" and "slots_ok (p_pages (ptable s ! p))" and "va \<noteq> 0"
    and "r_toBeDeleted (allRegions s ! nat shmid) = 0"
    and "shmat shmid shmaddr shmflag s = Inr (va, s1)"
  defines "q \<equiv> ptable s ! p" and "r \<equiv> allRegions s ! nat shmid"
  shows "\<exists>s2. shmdt va s1 = Inr (0, s2) \<and> lockview s2 = lockview s
    \<and> pte (mem s2) (p_pgdir q) = unmap_pages (pte (mem s) (p_pgdir q)) va (unat (r_size r))
    \<and> sp_key (p_pages (ptable s2 ! p) ! idx) = -1
    \<and> (\<forall>j < 64. j \<noteq> idx \<longrightarrow> p_pages (ptable s2 ! p) ! j = p_pages q ! j)
    \<and> shm_nattch (r_buffer (allRegions s2 ! nat shmid)) = shm_nattch (r_buffer r)
    \<and> (\<forall>j < 64. j \<noteq> nat shmid \<longrightarrow> allRegions s2 ! j = allRegions s ! j)"
proof -
  let ?g = "attached_slot shmid va perm r (p_pages q ! idx)" and ?n = "unat (r_size r)"
  have po: "shmat_post s L p shmid va perm idx va s1"
    using wpeD [OF shmat_spec [OF assms(1,2,4,3)] assms(9)] .
  obtain L1 where L1: "shm_ready s1 L1 p" "vm_inv s1 (p_pgdir q) L1"
    using shmat_post_ready [OF assms(1,9) po] unfolding q_def by blast
  have dt: "detachable s1 p va idx"
    using attached_segment [OF assms(1,2,4-7) po] assms(8)
    by (simp add: detachable_def attached_slot_def attached_region_def)
  have A: "0 \<le> shmid" "shmid < 64" "unat va + 4096 * ?n < 2147483648"
    "first_index (\<lambda>i. sp_key (p_pages q ! i) = -1) 64 = Some idx" "r_shmid r \<noteq> -1"
    using assms(4) by (simp_all add: attachable_def Let_def q_def r_def)
  have t: "table_ok (allRegions s)" using assms(1) by (simp add: shm_ready_def)
  have u: "length (allRegions s) = 64" "length (r_physicalAddr r) = 64" "?n \<le> 64"
    "0 \<le> shm_nattch (r_buffer r)"
    using table_okD(1) [OF t] table_okD(2) [OF t, of "nat shmid"] A(1,2)
      used_size [OF used_index(2) [OF t A(1,2)]] A(5) by (simp_all add: region_ok_def r_def)
  have "unat (-1 :: u32) = 4294967295" by (simp add: unsigned_minus_1_eq_mask mask_eq_exp_minus_1)
  then have ne: "va \<noteq> -1" using A(3) by auto
  have P: "pte (mem s1) (p_pgdir q) = map_list (pte (mem s) (p_pgdir q)) va (take ?n (r_physicalAddr r)) perm"
    "ptable s1 = (ptable s)[p := q\<lparr>p_pages := (p_pages q)[idx := ?g]\<rparr>]"
    "allRegions s1 = (allRegions s)[nat shmid := attached_region (p_pid q) r]" "lockview s1 = lockview s"
    using po ne by (auto simp: shmat_post_def Let_def q_def r_def)
  have idx: "idx < 64" using A(4) by (simp add: first_index_Some)
  have q1: "ptable s1 ! p = q\<lparr>p_pages := (p_pages q)[idx := ?g]\<rparr>"
    "p_pages (ptable s1 ! p) ! idx = ?g" "p < length (ptable s1)"
    using P(2) assms(2,5) idx by (simp_all add: q_def)
  have g: "sp_size ?g = r_size r" "sp_shmid ?g = shmid" by (simp_all add: attached_slot_def)
  have "unmap_pages (map_list f va (take ?n (r_physicalAddr r)) perm) va ?n = unmap_pages f va ?n" for f
    using u by (auto simp: unmap_pages_def map_list_def fun_eq_iff)
  with wpe_returns [OF shmdt_spec [OF L1(1) q1(3) dt]] L1(2) show ?thesis
    using q1 g P u A(1,2) idx assms(2,5)
    by (auto simp: detached_slot_def detached_region_def attached_region_def q_def)
qed

lemma demo_attach:
  assumes "m < 64" "d \<in> {0, 1}"
  shows "\<exists>s'. shmat (int m) 0 0 (shm_kernel (demo_regions m d)) = Inr (HEAPLIMIT, s')
    \<and> shmat_post (shm_kernel (demo_regions m d)) [0x80401000, 0x80402000] 0 (int m) HEAPLIMIT 6 0 HEAPLIMIT s'"
proof -
  let ?k = "shm_kernel (demo_regions m d)"
  obtain v s' where s': "shmat (int m) 0 0 ?k = Inr (v, s')"
    and po: "shmat_post ?k [0x80401000, 0x80402000] 0 (int m) HEAPLIMIT 6 0 v s'"
    using wpe_returns [OF shmat_spec [OF demo_attach_facts(1,2) [OF assms] demo_attachable [OF assms(1)]
      demo_attach_facts(3) [OF assms]]] by blast
  then have "v = HEAPLIMIT"
    using assms(1) by (auto simp: shmat_post_def Let_def demo_slots demo_region_facts)
  with s' po show ?thesis by simp
qed

theorem shmat_shmdt_roundtrip_witness:
  "\<exists>s1 s2. shmat 3 0 0 (shm_kernel (demo_regions 3 0)) = Inr (HEAPLIMIT, s1)
     \<and> shmdt HEAPLIMIT s1 = Inr (0, s2) \<and> sp_key (p_pages (ptable s2 ! 0) ! 0) = -1"
proof -
  let ?k = "shm_kernel (demo_regions 3 0)"
  have m: "(3 :: nat) < 64" "(0 :: int) \<in> {0, 1}" by simp_all
  obtain s1 where s1: "shmat (int 3) 0 0 ?k = Inr (HEAPLIMIT, s1)" using demo_attach [OF m] by blast
  have d: "HEAPLIMIT \<noteq> 0" "r_toBeDeleted (allRegions ?k ! nat (int 3)) = 0"
    by (simp_all add: demo_slots demo_region_facts)
  from shmat_shmdt_roundtrip [OF demo_attach_facts(1-3) [OF m] demo_attachable [OF m(1)]
      demo_attach_facts(4,5) [OF m] d s1] s1
  show ?thesis by auto
qed

section \<open>Removing a region\<close>

text \<open>The pages of a region are pages of the allocator's range that are not on the free list.\<close>

definition pages_held :: "'x machine_scheme \<Rightarrow> u32 list \<Rightarrow> shmRegion \<Rightarrow> bool" where
  "pages_held s L r \<longleftrightarrow> distinct (region_pages r) \<and> (\<forall>v \<in> set (region_pages r). page_ok s v)
     \<and> set (region_pages r) \<inter> set L = {}"

lemma remove_region_locked:
  fixes s :: "'x shmst_scheme"
  assumes c: "can_lock LShm s" and fr: "sframe (acquired LShm s) u" and k: "kmem_ready s" "free_pages u L"
    and i: "0 \<le> i" "i < 64" "table_ok (allRegions u)" "pages_held s L (allRegions u ! nat i)"
  shows "\<exists>t. remove_region i u = Inr ((), t) \<and> sframe (acquired LShm s) t
    \<and> free_pages t (rev (region_pages (allRegions u ! nat i)) @ L)
    \<and> allRegions t = (allRegions u)[nat i := removed (allRegions u ! nat i)]"
proof -
  let ?r = "allRegions u ! nat i"
  have ok: "cpu_ok (acquired LShm s)" using in_lock_acquired [OF c] by (simp add: in_lock_def)
  have u: "cpu_ok u" "kmem_ready u"
    using sframe_cpu(1) [OF fr ok] kmem_ready_sframe [OF fr kmem_ready_acquired [OF c k(1)] ok] by simp_all
  have n: "nat i < 64" using i(1,2) by simp
  have ro: "region_ok (nat i) ?r" using table_okD(2) [OF i(3) n] .
  then have r: "length (r_physicalAddr ?r) = 64" "unat (r_size ?r) \<le> 64"
    using used_size [of "nat i" ?r] by (auto simp: region_ok_def region_free_def)
  have l: "nat i < length (allRegions u)" using table_okD(1) [OF i(3)] n by simp
  have pg: "distinct (region_pages ?r)" "\<forall>v \<in> set (region_pages ?r). page_ok u v"
      "set (region_pages ?r) \<inter> set L = {}"
    using i(4) sframe_fields(3) [OF fr] by (simp_all add: pages_held_def page_ok_def)
  from wpe_returns [OF remove_region_spec [OF u(2) k(2) u(1) i(1,2) l refl r pg]]
  show ?thesis using sframe_trans [OF fr] by auto
qed

text \<open>
  C6: \<open>shmctl\<close> with \<open>IPC_RMID\<close> removes a region that nobody has attached: its entry is free again and all
  its pages, and only they, go back to the free list. A region that is attached somewhere is only marked.
  Nobody else's region changes.
\<close>

theorem shmctl_rmid_frees:
  fixes s :: "'x shmst_scheme"
  assumes "shm_ready s L p" and "0 \<le> shmid" and "shmid < 64"
    and "r_shmid (allRegions s ! nat shmid) \<noteq> -1" and "pages_held s L (allRegions s ! nat shmid)"
  defines "r \<equiv> allRegions s ! nat shmid"
  shows "\<exists>s'. shmctl shmid IPC_RMID buf s = Inr (0, s') \<and> lockview s' = lockview s \<and> ptable s' = ptable s
    \<and> (if shm_nattch (r_buffer r) = 0
       then free_pages s' (rev (region_pages r) @ L) \<and> allRegions s' = (allRegions s)[nat shmid := removed r]
       else free_pages s' L \<and> allRegions s' = (allRegions s)[nat shmid := r\<lparr>r_toBeDeleted := 1\<rparr>])"
proof -
  let ?a = "acquired LShm s"
  have s: "can_lock LShm s" "kmem_ready s" "free_pages s L" "table_ok (allRegions s)"
    using assms(1) by (simp_all add: shm_ready_def)
  have idx: "r_shmid r = shmid" using used_index(1) [OF s(4) assms(2-4)] by (simp add: r_def)
  have eq: "shmctl shmid IPC_RMID buf s = shmctl_rmid shmid ?a"
    using assms(2,3) idx s(1) by (simp add: shmctl_def run r_def)
  obtain t where t: "(if shm_nattch (r_buffer r) = 0 then remove_region shmid
        else upd_region shmid (\<lambda>r. r\<lparr>r_toBeDeleted := 1\<rparr>)) ?a = Inr ((), t)" "sframe ?a t"
    and out: "if shm_nattch (r_buffer r) = 0
       then free_pages t (rev (region_pages r) @ L) \<and> allRegions t = (allRegions s)[nat shmid := removed r]
       else free_pages t L \<and> allRegions t = (allRegions s)[nat shmid := r\<lparr>r_toBeDeleted := 1\<rparr>]"
    using remove_region_locked [OF s(1) sframe_refl s(2) _ assms(2,3)] s(3,4) assms(2,3,5)
    by (cases "shm_nattch (r_buffer r) = 0") (auto simp: r_def upd_region_def modify_def)
  have "shmctl_rmid shmid ?a = Inr (0, released LShm t)"
    using t leave_eq [OF s(1) t(2), of 0] assms(2,3)
    by (simp add: shmctl_rmid_def get_region_def bnd_def sq_def gets_def r_def)
  then show ?thesis
    using eq out sframe_fields [OF sframe_section(2) [OF s(1) t(2)]] by auto
qed

lemma demo_held:
  "pages_held (shm_kernel R) [0x80401000, 0x80402000] (demo_region m d)"
  by (simp add: pages_held_def demo_region_facts page_ok_def pgaligned_def shm_kernel_def vm_demo_def
      boot_kmem_def V2P_def)

theorem shmctl_rmid_frees_witness:
  "\<exists>s'. shmctl 3 IPC_RMID 0 (shm_kernel (demo_regions 3 0)) = Inr (0, s')
     \<and> free_pages s' [0x80403000, 0x80401000, 0x80402000]"
proof -
  have m: "(3 :: nat) < 64" "(0 :: int) \<in> {0, 1}" by simp_all
  show ?thesis
    using shmctl_rmid_frees [OF demo_attach_facts(1) [OF m], of 3 0] demo_held
    by (simp add: demo_slots demo_region_facts) blast
qed

text \<open>
  The last detachment from a region marked for deletion: the code resets the region whose index is that
  of the slot of the process, not the region that was attached.
\<close>

lemma kframe_procs:
  "kframe s t \<Longrightarrow> kframe (s\<lparr>ptable := X\<rparr>) (t\<lparr>ptable := X\<rparr>)"
  by (cases s; cases t) (simp add: kframe_def lockview_def cur_cpu_def cpu_index_def)

lemma acquired_procs: "acquired l (s\<lparr>ptable := X\<rparr>) = (acquired l s)\<lparr>ptable := X\<rparr>"
  by (simp add: acquired_def pushed_def cur_cpu_def cpu_index_def)

definition last_detached :: "nat \<Rightarrow> nat \<Rightarrow> int \<Rightarrow> shmRegion list \<Rightarrow> shmRegion list" where
  "last_detached m idx pid R =
     (let R = R[m := (R ! m)\<lparr>r_buffer := (r_buffer (R ! m))\<lparr>shm_nattch := 0\<rparr>\<rparr>];
          R = R[idx := removed (R ! idx)]
      in R[m := (R ! m)\<lparr>r_buffer := (r_buffer (R ! m))\<lparr>shm_lpid := pid\<rparr>\<rparr>])"

lemma shmdt_last:
  fixes s :: "'x shmst_scheme"
  assumes r: "shm_ready s L p" "p < length (ptable s)" and dt: "segment_at s p addr idx"
    and inv: "vm_inv s (p_pgdir (ptable s ! p)) L"
  defines "q \<equiv> ptable s ! p"
  defines "m \<equiv> sp_shmid (p_pages q ! idx)"
  assumes del: "r_toBeDeleted (allRegions s ! nat m) = 1" "shm_nattch (r_buffer (allRegions s ! nat m)) = 1"
    and held: "pages_held s L (allRegions s ! idx)"
  shows "\<exists>s'. shmdt addr s = Inr (0, s') \<and> free_pages s' (rev (region_pages (allRegions s ! idx)) @ L)
    \<and> lockview s' = lockview s \<and> allRegions s' = last_detached (nat m) idx (p_pid q) (allRegions s)"
proof -
  let ?g = "p_pages q ! idx" and ?r = "allRegions s ! nat m"
  let ?R = "(allRegions s)[nat m := ?r\<lparr>r_buffer := (r_buffer ?r)\<lparr>shm_nattch := 0\<rparr>\<rparr>]"
  let ?X = "(ptable s)[p := q\<lparr>p_pages := (p_pages q)[idx := detached_slot ?g]\<rparr>]"
  have s: "can_lock LShm s" "kmem_ready s" "table_ok (allRegions s)"
    using r by (simp_all add: shm_ready_def)
  have m: "0 \<le> m" "m < 64" "idx < 64" "nat m < 64"
    using dt by (auto simp: segment_at_def Let_def m_def q_def first_index_Some)
  have len: "length (allRegions s) = 64" using table_okD(1) [OF s(3)] .
  have ro: "region_ok (nat m) ?r" using table_okD(2) [OF s(3) m(4)] .
  then have "region_ok (nat m) (?r\<lparr>r_buffer := (r_buffer ?r)\<lparr>shm_nattch := 0\<rparr>\<rparr>)"
    by (auto simp: region_ok_def region_free_def region_used_def)
  then have tR: "table_ok ?R" using table_ok_upd [OF s(3)] by simp
  have rp: "region_pages (?R ! idx) = region_pages (allRegions s ! idx)"
    using m len by (cases "idx = nat m") (simp_all add: region_pages_def)
  obtain u where eq: "shmdt addr s = shmdt_release p idx m u"
    and u: "vm_inv u (p_pgdir q) L" "kframe (acquired LShm s) u"
      "allRegions u = allRegions s" "ptable u = ptable s"
    using shmdt_unmaps [OF r(1) dt inv] unfolding q_def m_def by blast
  let ?s = "s\<lparr>ptable := ?X\<rparr>" and ?v = "u\<lparr>ptable := ?X, allRegions := ?R\<rparr>"
  have fr: "sframe (acquired LShm ?s) ?v"
    using kframe_sframe [OF kframe_procs [OF u(2), of ?X]] by (simp add: acquired_procs)
  have c: "can_lock LShm ?s" "kmem_ready ?s" "free_pages ?v L" "pages_held ?s L (?R ! idx)"
    using s u(1) held rp by (simp_all add: vm_inv_def pages_held_def page_ok_def)
  obtain t where t: "remove_region (int idx) ?v = Inr ((), t)" "sframe (acquired LShm ?s) t"
    "free_pages t (rev (region_pages (allRegions s ! idx)) @ L)" "allRegions t = ?R[idx := removed (?R ! idx)]"
    using remove_region_locked [OF c(1) fr c(2,3), of "int idx"] m tR c(4) rp by auto
  let ?t = "t\<lparr>allRegions := last_detached (nat m) idx (p_pid q) (allRegions s)\<rparr>"
  have "sframe (acquired LShm ?s) ?t" using t(2) by simp
  note lv = leave_eq [OF c(1) this, of "0 :: int"] sframe_fields(4) [OF sframe_section(2) [OF c(1) this]]
  have pt: "ptable t ! p = q\<lparr>p_pages := (p_pages q)[idx := detached_slot ?g]\<rparr>"
    using sframe_fields(1) [OF t(2)] r(2) by (simp add: acquired_procs)
  have rm: "sq (remove_region (int idx)) k ?v = k t" for k :: "('x shmst_scheme, int) kmon"
    using t(1) by (simp add: sq_def bnd_def)
  have "shmdt_release p idx m u = leave 0 ?t"
    using m del len u(3,4) t(4) r(2) pt rm
    by (simp add: shmdt_release_def upd_slot_def upd_buffer_def run detached_slot_def q_def whenk_def
        last_detached_def Let_def)
  then show ?thesis using eq lv t(3) by auto
qed

lemma demo_marked:
  assumes "m < 64"
  shows "\<exists>s1 L1. shmat (int m) 0 0 (shm_kernel (demo_regions m 1)) = Inr (HEAPLIMIT, s1) \<and> shm_ready s1 L1 0
    \<and> 0 < length (ptable s1) \<and> segment_at s1 0 HEAPLIMIT 0 \<and> vm_inv s1 (p_pgdir (ptable s1 ! 0)) L1
    \<and> sp_shmid (p_pages (ptable s1 ! 0) ! 0) = int m \<and> r_toBeDeleted (allRegions s1 ! m) = 1
    \<and> shm_nattch (r_buffer (allRegions s1 ! m)) = 1 \<and> pages_held s1 L1 (allRegions s1 ! m)
    \<and> (\<forall>j < 64. j \<noteq> m \<longrightarrow> allRegions s1 ! j = blank_region)"
proof -
  let ?k = "shm_kernel (demo_regions m 1)" and ?L = "[0x80401000, 0x80402000] :: u32 list"
  have m: "m < 64" "(1 :: int) \<in> {0, 1}" using assms by simp_all
  obtain s1 where s1: "shmat (int m) 0 0 ?k = Inr (HEAPLIMIT, s1)"
    and po: "shmat_post ?k ?L 0 (int m) HEAPLIMIT 6 0 HEAPLIMIT s1" using demo_attach [OF m] by blast
  note f = demo_attach_facts [OF m]
  note seg = attached_segment [OF f(1,2) demo_attachable [OF m(1)] f(4,5) _ po]
  have pd: "p_pgdir (demo_proc st d) = d" "p_pid (demo_proc st d) = 1" for st d
    by (simp_all add: demo_proc_def)
  obtain L1 where L1: "vm_inv s1 0x80400000 L1"
    "owned (mem s1) 0x80400000 \<union> set L1 = owned (mem ?k) 0x80400000 \<union> set ?L"
    "allRegions s1 = (demo_regions m 1)[m := attached_region (p_pid (ptable ?k ! 0)) (demo_region m 1)]"
    "p_pgdir (ptable s1 ! 0) = 0x80400000" "kend s1 = kend ?k"
    using po m(1) by (auto simp: shmat_post_def Let_def demo_slots shm_kernel_table pd)
  have own: "owned (mem ?k) 0x80400000 = {0x80400000}"
    by (simp add: shm_kernel_def vm_demo_dir owned_def)
  have "set L1 \<subseteq> {0x80400000, 0x80401000, 0x80402000}" using L1(2) unfolding own by auto
  moreover have "0x80403000 \<notin> {0x80400000, 0x80401000, 0x80402000 :: u32}" by simp
  ultimately have "0x80403000 \<notin> set L1" by blast
  then have held: "pages_held s1 L1 (demo_region m 1)"
    using demo_held [of "demo_regions m 1" m 1] L1(5)
    by (simp add: pages_held_def demo_region_facts page_ok_def)
  have "can_lock LShm s1" "table_ok (allRegions s1)" "c_proc (cur_cpu s1) = Some 0" "kmem_ready s1" "free_pages s1 L1"
    using shmat_post_ready [OF f(1) s1 po] L1(1) by (auto simp: shm_ready_def vm_inv_def)
  moreover have "region_pages (attached_region 1 r) = region_pages r" for r
    by (simp add: attached_region_def region_pages_def)
  ultimately show ?thesis
    using s1 L1 seg m(1) held demo_slots(1) [of "demo_regions m 1"]
    by (auto simp: shm_ready_def attached_slot_def attached_region_def demo_region_facts demo_slots
        pages_held_def region_pages_def)
qed

text \<open>
  C7: the last detachment from a region marked for deletion removes it, when the process attached it in
  the slot that has the number of the region: the entry is free again and its pages are on the free list.
\<close>

theorem shmdt_last_removes:
  fixes s :: "'x shmst_scheme"
  assumes "shm_ready s L p" and "p < length (ptable s)" and "segment_at s p addr idx"
    and "vm_inv s (p_pgdir (ptable s ! p)) L" and "sp_shmid (p_pages (ptable s ! p) ! idx) = int idx"
    and "r_toBeDeleted (allRegions s ! idx) = 1" and "shm_nattch (r_buffer (allRegions s ! idx)) = 1"
    and "pages_held s L (allRegions s ! idx)"
  shows "\<exists>s'. shmdt addr s = Inr (0, s') \<and> free_pages s' (rev (region_pages (allRegions s ! idx)) @ L)
    \<and> region_free (allRegions s' ! idx) \<and> (\<forall>j. j \<noteq> idx \<longrightarrow> allRegions s' ! j = allRegions s ! j)"
proof -
  have "length (allRegions s) = 64" "idx < 64"
    using assms(1,3) table_okD(1) by (auto simp: shm_ready_def segment_at_def Let_def first_index_Some)
  then show ?thesis
    using shmdt_last [OF assms(1-4)] assms(5-8)
    by (auto simp: last_detached_def Let_def removed_def region_free_def)
qed

theorem shmdt_last_removes_witness:
  "\<exists>s1 s2. shmat 0 0 0 (shm_kernel (demo_regions 0 1)) = Inr (HEAPLIMIT, s1)
     \<and> shmdt HEAPLIMIT s1 = Inr (0, s2) \<and> region_free (allRegions s2 ! 0)"
proof -
  obtain s1 L1 where s1: "shmat (int 0) 0 0 (shm_kernel (demo_regions 0 1)) = Inr (HEAPLIMIT, s1)"
    and a: "shm_ready s1 L1 0" "0 < length (ptable s1)" "segment_at s1 0 HEAPLIMIT 0"
      "vm_inv s1 (p_pgdir (ptable s1 ! 0)) L1" "sp_shmid (p_pages (ptable s1 ! 0) ! 0) = int 0"
      "r_toBeDeleted (allRegions s1 ! 0) = 1" "shm_nattch (r_buffer (allRegions s1 ! 0)) = 1"
      "pages_held s1 L1 (allRegions s1 ! 0)"
    using demo_marked [of 0] by auto
  from shmdt_last_removes [OF a] s1 show ?thesis by auto
qed

text \<open>
  C8: in any other slot the removal goes wrong. When the entry of the table that has the number of the
  slot is free, the last detachment resets that entry instead: the region keeps its key and its mark,
  nobody is attached to it, and none of its pages is given back.
\<close>

theorem shmdt_last_leaks:
  fixes s :: "'x shmst_scheme"
  assumes "shm_ready s L p" and "p < length (ptable s)" and "segment_at s p addr idx"
    and "vm_inv s (p_pgdir (ptable s ! p)) L" and "sp_shmid (p_pages (ptable s ! p) ! idx) = int m"
    and "m \<noteq> idx" and "region_free (allRegions s ! idx)"
    and "r_toBeDeleted (allRegions s ! m) = 1" and "shm_nattch (r_buffer (allRegions s ! m)) = 1"
  shows "\<exists>s'. shmdt addr s = Inr (0, s') \<and> free_pages s' L
    \<and> r_key (allRegions s' ! m) = r_key (allRegions s ! m) \<and> r_size (allRegions s' ! m) = r_size (allRegions s ! m)
    \<and> r_physicalAddr (allRegions s' ! m) = r_physicalAddr (allRegions s ! m)
    \<and> r_toBeDeleted (allRegions s' ! m) = 1 \<and> shm_nattch (r_buffer (allRegions s' ! m)) = 0"
proof -
  have l: "length (allRegions s) = 64" "idx < 64" "m < 64"
    using assms(1,3,5) table_okD(1) by (auto simp: shm_ready_def segment_at_def Let_def first_index_Some)
  have e: "region_pages (allRegions s ! idx) = []" using assms(7) by (simp add: region_pages_def region_free_def)
  then have "pages_held s L (allRegions s ! idx)" by (simp add: pages_held_def)
  with shmdt_last [OF assms(1-4)] assms(5,6,8,9) l e show ?thesis
    by (auto simp: last_detached_def Let_def)
qed

theorem shmdt_last_leaks_witness:
  "\<exists>s1 s2. shmat 3 0 0 (shm_kernel (demo_regions 3 1)) = Inr (HEAPLIMIT, s1)
     \<and> shmdt HEAPLIMIT s1 = Inr (0, s2) \<and> r_toBeDeleted (allRegions s2 ! 3) = 1
     \<and> shm_nattch (r_buffer (allRegions s2 ! 3)) = 0"
proof -
  obtain s1 L1 where s1: "shmat (int 3) 0 0 (shm_kernel (demo_regions 3 1)) = Inr (HEAPLIMIT, s1)"
    and a: "shm_ready s1 L1 0" "0 < length (ptable s1)" "segment_at s1 0 HEAPLIMIT 0"
      "vm_inv s1 (p_pgdir (ptable s1 ! 0)) L1" "sp_shmid (p_pages (ptable s1 ! 0) ! 0) = int 3"
      "r_toBeDeleted (allRegions s1 ! 3) = 1" "shm_nattch (r_buffer (allRegions s1 ! 3)) = 1"
      "\<forall>j < 64. j \<noteq> 3 \<longrightarrow> allRegions s1 ! j = blank_region"
    using demo_marked [of 3] by auto
  have f: "(3 :: nat) \<noteq> 0" "region_free (allRegions s1 ! 0)"
    using a(8) by (simp_all add: region_free_def blank_region_def)
  from shmdt_last_leaks [OF a(1-5) f a(6,7)] s1 show ?thesis by auto
qed

section \<open>Identifiers out of range\<close>

text \<open>
  C9: an identifier that names no entry of the table is refused by \<open>shmat\<close> and \<open>shmctl\<close> before they take
  the lock, unless it is 64: the bound is off by one, and for 64 both calls read beyond the end of
  the table, with the lock held.
\<close>

theorem shmid_bound_off_by_one:
  fixes s :: "'x shmst_scheme"
  assumes "can_lock LShm s" and "c_proc (cur_cpu s) = Some p" and "shmid < 0 \<or> 64 \<le> shmid"
  defines "overrun \<equiv> (Undefined ''allRegions: index out of bounds'', acquired LShm s)"
  shows "shmat shmid a fl s = (if shmid = 64 then Inl overrun else Inr (-1, s))
    \<and> shmctl shmid cmd buf s = (if shmid = 64 then Inl overrun else Inr (-1, s))"
proof -
  have cur: "curproc (acquired LShm s) = Inr (p, acquired LShm s)"
    using in_lock_acquired [OF assms(1)] assms(1,2) polled_id [of "acquired LShm s"]
    by (simp add: curproc_def bnd_def myproc_eq in_lock_def nonnull_def ret_def can_lock_def cur_cpu_pushed)
  have "shmat shmid a fl s = (if shmid = 64 then Inl overrun else Inr (-1, s))"
    using assms(1,3) cur
    by (auto simp: shmat_def run bnd_def get_region_def ret_def fail_def overrun_def)
  moreover have "shmctl shmid cmd buf s = (if shmid = 64 then Inl overrun else Inr (-1, s))"
    using assms(1,3)
    by (auto simp: shmctl_def run bnd_def get_region_def ret_def fail_def overrun_def)
  ultimately show ?thesis by simp
qed

theorem shmid_bound_off_by_one_witness:
  "shmat 64 0 0 (shm_kernel []) =
     Inl (Undefined ''allRegions: index out of bounds'', acquired LShm (shm_kernel []))
   \<and> shmctl 65 0 0 (shm_kernel []) = Inr (-1, shm_kernel [])"
  using shmid_bound_off_by_one [where shmid = 64, OF shm_kernel_locks(1) shm_kernel_locks(3)]
    shmid_bound_off_by_one [where shmid = 65, OF shm_kernel_locks(1) shm_kernel_locks(3)] by simp

end
