(* ===== verification/Demo.thy ===== *)
theory Demo
  imports File
begin

text \<open>
  A small concrete kernel with the state of every component up to open files, for the theorems' witnesses:
  one CPU, one running process with an empty page directory, every lock free, an empty buffer cache and
  an empty disk. The witnesses update the fields they need.
\<close>

definition demo_kernel :: filest where
  "demo_kernel = shmst.extend (shm_kernel (replicate 64 blank_region))
     (slst_ext (\<lambda>_. \<lparr>sl_locked = 0, sl_name = [], sl_pid = 0\<rparr>)
     (biost_ext [] [] 0 []
     (logst_ext \<lparr>lg_start = 2, lg_size = 31, lg_outstanding = 0, lg_committing = 0, lg_dev = 1,
        lg_lh = \<lparr>lh_n = 0, lh_block = replicate 30 0\<rparr>\<rparr>
     (fsst_ext \<lparr>sb_size = 1000, sb_nblocks = 941, sb_ninodes = 200, sb_nlog = 30, sb_logstart = 2,
        sb_inodestart = 32, sb_bmapstart = 58\<rparr> []
     (consst_ext 0 False (\<lambda>_. 0) 0 False [] \<lparr>in_buf = replicate 128 0, in_r = 0, in_w = 0, in_e = 0\<rparr> [] []
     (filest_ext [] (\<lambda>_. \<lparr>pi_data = replicate 512 0, pi_nread = 0, pi_nwrite = 0, pi_readopen = 1,
        pi_writeopen = 1\<rparr>) ()))))))"

lemma demo_kernel_locks:
  "can_lock l demo_kernel" "c_proc (cur_cpu demo_kernel) = Some 0" "c_ncli (cur_cpu demo_kernel) = 0"
  "ptable demo_kernel = demo_proc RUNNING 0x80400000 # replicate 63 (demo_proc UNUSED 0)"
  by (simp_all add: demo_kernel_def shm_kernel_def shmst.defs can_lock_def cpu_ok_def cpu_index_def
      first_index_def cur_cpu_def boot_cpu_def boot_lock_def)

lemma demo_kernel_fields:
  "pipes demo_kernel p = \<lparr>pi_data = replicate 512 0, pi_nread = 0, pi_nwrite = 0, pi_readopen = 1, pi_writeopen = 1\<rparr>"
  "input demo_kernel = \<lparr>in_buf = replicate 128 0, in_r = 0, in_w = 0, in_e = 0\<rparr>"
  "mem demo_kernel = mem vm_demo"
  by (simp_all add: demo_kernel_def shm_kernel_def shmst.defs)

end
