(* ===== verification/Ring.thy ===== *)
theory Ring
  imports Memory
begin

text \<open>
  Ring buffers with free-running 32-bit positions, as pipes and the console input use them: the
  element at position \<open>i\<close> is in cell \<open>i mod size\<close>, and the positions wrap around at \<open>2 ^ 32\<close>, a multiple
  of the size. The contract of a bounded first-in first-out queue is a locale; the components that hold
  a ring interpret it.
\<close>

section \<open>Bounded queues\<close>

locale bounded_queue =
  fixes contents :: "'q \<Rightarrow> 'a list" and ok :: "'q \<Rightarrow> bool" and cap :: nat
    and enq :: "'a \<Rightarrow> 'q \<Rightarrow> 'q" and front :: "'q \<Rightarrow> 'a" and deq :: "'q \<Rightarrow> 'q"
  assumes bounded: "ok q \<Longrightarrow> length (contents q) \<le> cap"
    and ok_enq: "ok q \<Longrightarrow> length (contents q) < cap \<Longrightarrow> ok (enq x q)"
    and contents_enq: "ok q \<Longrightarrow> length (contents q) < cap \<Longrightarrow> contents (enq x q) = contents q @ [x]"
    and ok_deq: "ok q \<Longrightarrow> contents q \<noteq> [] \<Longrightarrow> ok (deq q)"
    and contents_deq: "ok q \<Longrightarrow> contents q \<noteq> [] \<Longrightarrow> contents q = front q # contents (deq q)"
begin

lemma enq_all:
  assumes "ok q" "length (contents q) + length xs \<le> cap"
  shows "ok (fold enq xs q)" "contents (fold enq xs q) = contents q @ xs"
proof -
  have "ok (fold enq xs q) \<and> contents (fold enq xs q) = contents q @ xs"
    using assms by (induction xs arbitrary: q) (simp_all add: ok_enq contents_enq)
  then show "ok (fold enq xs q)" "contents (fold enq xs q) = contents q @ xs" by simp_all
qed

lemma deq_all:
  assumes "ok q" "n \<le> length (contents q)"
  shows "ok ((deq ^^ n) q)" "contents ((deq ^^ n) q) = drop n (contents q)"
proof -
  have "ok ((deq ^^ n) q) \<and> contents ((deq ^^ n) q) = drop n (contents q)"
    using assms(2)
  proof (induction n)
    case (Suc n)
    then have IH: "ok ((deq ^^ n) q)" "contents ((deq ^^ n) q) = drop n (contents q)" by simp_all
    moreover have "contents ((deq ^^ n) q) \<noteq> []" using Suc.prems IH(2) by simp
    ultimately have "ok ((deq ^^ Suc n) q)" "drop n (contents q) = front ((deq ^^ n) q) # contents ((deq ^^ Suc n) q)"
      using ok_deq [of "(deq ^^ n) q"] contents_deq [of "(deq ^^ n) q"] by simp_all
    moreover have "drop (Suc n) (contents q) = tl (drop n (contents q))" by (simp add: drop_Suc tl_drop)
    ultimately show ?case by simp
  qed (use assms(1) in simp)
  then show "ok ((deq ^^ n) q)" "contents ((deq ^^ n) q) = drop n (contents q)" by simp_all
qed

lemma front_nth:
  assumes "ok q" "n < length (contents q)"
  shows "front ((deq ^^ n) q) = contents q ! n"
proof -
  have "contents ((deq ^^ n) q) = front ((deq ^^ n) q) # contents (deq ((deq ^^ n) q))"
    using deq_all [OF assms(1), of n] assms(2) by (intro contents_deq) auto
  then have "hd (drop n (contents q)) = front ((deq ^^ n) q)"
    using deq_all(2) [OF assms(1), of n] assms(2) by simp
  then show ?thesis using assms(2) by (simp add: hd_drop_conv_nth)
qed

lemma fifo:
  assumes "ok q" "length (contents q) + length xs \<le> cap" "n \<le> length (contents q) + length xs"
  shows "map (\<lambda>i. front ((deq ^^ i) (fold enq xs q))) [0..<n] = take n (contents q @ xs)"
  using front_nth [OF enq_all(1) [OF assms(1,2)]] enq_all(2) [OF assms(1,2)] assms(3)
  by (intro nth_equalityI) (simp_all del: take_append)

end

section \<open>Rings\<close>

definition ring_list :: "'a list \<Rightarrow> u32 \<Rightarrow> u32 \<Rightarrow> u32 \<Rightarrow> 'a list" where
  "ring_list xs n r w = map (\<lambda>i. xs ! unat ((r + of_nat i) mod n)) [0..<unat (w - r)]"

definition ring_ok :: "'a list \<Rightarrow> u32 \<Rightarrow> u32 \<Rightarrow> u32 \<Rightarrow> bool" where
  "ring_ok xs n r w \<longleftrightarrow> length xs = unat n \<and> w - r \<le> n"

lemma ring_length [simp]: "length (ring_list xs n r w) = unat (w - r)"
  by (simp add: ring_list_def)

lemma ring_cell:
  fixes n r :: u32
  assumes "unat n dvd 4294967296"
  shows "unat ((r + of_nat i) mod n) = (unat r + i) mod unat n"
  using assms by (simp add: unat_mod unat_word_ariths unat_of_nat mod_add_right_eq mod_mod_cancel)

lemma ring_full: "ring_ok xs n r w \<Longrightarrow> w = r + n \<longleftrightarrow> unat n \<le> length (ring_list xs n r w)"
  by (auto simp: ring_ok_def word_le_nat_alt word_unat_eq_iff [of "w - r" n, symmetric] algebra_simps
      dest: antisym)

lemma ring_empty: "r = w \<longleftrightarrow> ring_list xs n r w = []"
  by (auto simp: ring_list_def unat_eq_0)

lemma ring_push:
  assumes ok: "ring_ok xs n r w" and room: "unat (w - r) < unat n" and d: "unat n dvd 4294967296"
  shows "ring_ok (xs[unat (w mod n) := x]) n r (w + 1)"
    "ring_list (xs[unat (w mod n) := x]) n r (w + 1) = ring_list xs n r w @ [x]"
proof -
  let ?k = "unat (w - r)" and ?n = "unat n" and ?r = "unat r"
  have w: "w = r + of_nat ?k" by simp
  have n: "0 < ?n" "?n < 4294967296" using room unat_lt_2p32 [of n] by simp_all
  have e: "w + 1 - r = (w - r) + 1" by (simp add: algebra_simps)
  have k: "unat (w + 1 - r) = Suc ?k"
    unfolding e using room n unat_word_ariths(1) [of "w - r" 1] by simp
  then show "ring_ok (xs[unat (w mod n) := x]) n r (w + 1)"
    using ok room by (simp add: ring_ok_def word_le_nat_alt)
  have cell: "unat (w mod n) = (?r + ?k) mod ?n" using ring_cell [OF d, of r ?k] w by simp
  have "xs[unat (w mod n) := x] ! unat ((r + of_nat i) mod n) = xs ! unat ((r + of_nat i) mod n)"
    if i: "i < ?k" for i
  proof -
    have "(?r + i) mod ?n \<noteq> (?r + ?k) mod ?n"
    proof
      assume "(?r + i) mod ?n = (?r + ?k) mod ?n"
      then have "?n dvd (?r + ?k) - (?r + i)" by (metis mod_eq_dvd_iff_nat add_le_cancel_left i less_imp_le)
      then show False using i room by (simp add: nat_dvd_not_less)
    qed
    then show ?thesis unfolding cell ring_cell [OF d] by simp
  qed
  moreover have "xs[unat (w mod n) := x] ! unat ((r + of_nat ?k) mod n) = x"
    using ok n w by (simp add: ring_ok_def unat_mod)
  ultimately show "ring_list (xs[unat (w mod n) := x]) n r (w + 1) = ring_list xs n r w @ [x]"
    unfolding ring_list_def k upt_Suc_append [OF le0] map_append by simp
qed

lemma ring_pop:
  assumes ok: "ring_ok xs n r w" and ne: "r \<noteq> w"
  shows "ring_ok xs n (r + 1) w"
    "ring_list xs n r w = xs ! unat (r mod n) # ring_list xs n (r + 1) w"
proof -
  have "w - r \<noteq> 0" using ne by simp
  then have p: "0 < unat (w - r)" by (simp add: unat_gt_0)
  have e: "w - (r + 1) = (w - r) - 1" by (simp add: algebra_simps)
  have k: "unat (w - r) = Suc (unat (w - (r + 1)))"
    unfolding e using p unat_sub [of 1 "w - r"] by (simp add: word_le_nat_alt)
  show "ring_ok xs n (r + 1) w" using ok k by (simp add: ring_ok_def word_le_nat_alt)
  have "map (\<lambda>i. xs ! unat ((r + of_nat (Suc i)) mod n)) [0..<j]
      = map (\<lambda>i. xs ! unat ((r + 1 + of_nat i) mod n)) [0..<j]" for j
    by (simp add: algebra_simps)
  then show "ring_list xs n r w = xs ! unat (r mod n) # ring_list xs n (r + 1) w"
    unfolding ring_list_def k upt_conv_Cons [OF zero_less_Suc]
    by (simp add: map_Suc_upt [symmetric] del: upt_Suc)
qed

end
