(* ===== verification/Pipeprops.thy ===== *)
theory Pipeprops
  imports Demo Ring
begin

text \<open>
  Pipes are bounded first-in first-out queues of bytes. The ring of a pipe interprets the queue
  contract; the theorems say what \<open>pipewrite\<close> and \<open>piperead\<close> do on every path: transfer, waiting for the
  other end, the other end closed, the process killed.
\<close>

section \<open>The ring of a pipe\<close>

definition pipe_contents :: "pipe \<Rightarrow> u8 list" where
  "pipe_contents k = ring_list (pi_data k) PIPESIZE (pi_nread k) (pi_nwrite k)"

definition pipe_ok :: "pipe \<Rightarrow> bool" where
  "pipe_ok k \<longleftrightarrow> ring_ok (pi_data k) PIPESIZE (pi_nread k) (pi_nwrite k)"

definition pipe_put :: "u8 \<Rightarrow> pipe \<Rightarrow> pipe" where
  "pipe_put b k = k\<lparr>pi_data := (pi_data k)[unat (pi_nwrite k mod PIPESIZE) := b], pi_nwrite := pi_nwrite k + 1\<rparr>"

definition pipe_front :: "pipe \<Rightarrow> u8" where
  "pipe_front k = pi_data k ! unat (pi_nread k mod PIPESIZE)"

definition pipe_get :: "pipe \<Rightarrow> pipe" where
  "pipe_get k = k\<lparr>pi_nread := pi_nread k + 1\<rparr>"

lemma pipe_tests:
  assumes "pipe_ok k"
  shows "pi_nwrite k = pi_nread k + PIPESIZE \<longleftrightarrow> length (pipe_contents k) = 512"
    "pi_nread k = pi_nwrite k \<longleftrightarrow> pipe_contents k = []"
proof -
  have "length (pipe_contents k) \<le> 512"
    using assms by (simp add: pipe_ok_def pipe_contents_def ring_ok_def word_le_nat_alt)
  then show "pi_nwrite k = pi_nread k + PIPESIZE \<longleftrightarrow> length (pipe_contents k) = 512"
    using ring_full assms by (fastforce simp: pipe_ok_def pipe_contents_def)
  show "pi_nread k = pi_nwrite k \<longleftrightarrow> pipe_contents k = []"
    unfolding pipe_contents_def by (rule ring_empty)
qed

interpretation pipeq: bounded_queue pipe_contents pipe_ok 512 pipe_put pipe_front pipe_get
proof
  fix k x
  assume ok: "pipe_ok k"
  then show "length (pipe_contents k) \<le> 512"
    by (simp add: pipe_ok_def pipe_contents_def ring_ok_def word_le_nat_alt)
  show "pipe_ok (pipe_put x k)" "pipe_contents (pipe_put x k) = pipe_contents k @ [x]"
    if "length (pipe_contents k) < 512"
    using ring_push [of "pi_data k" PIPESIZE "pi_nread k" "pi_nwrite k" x] ok that
    by (simp_all add: pipe_ok_def pipe_contents_def pipe_put_def)
  assume "pipe_contents k \<noteq> []"
  then have "pi_nread k \<noteq> pi_nwrite k" using pipe_tests(2) [OF ok] by simp
  then show "pipe_ok (pipe_get k)" "pipe_contents k = pipe_front k # pipe_contents (pipe_get k)"
    using ring_pop [of "pi_data k" PIPESIZE "pi_nread k" "pi_nwrite k"] ok
    by (simp_all add: pipe_ok_def pipe_contents_def pipe_get_def pipe_front_def)
qed

lemma pipe_flags [simp]:
  "pi_readopen (fold pipe_put bs k) = pi_readopen k" "pi_writeopen (fold pipe_put bs k) = pi_writeopen k"
  "pi_readopen ((pipe_get ^^ n) k) = pi_readopen k" "pi_writeopen ((pipe_get ^^ n) k) = pi_writeopen k"
proof -
  show "pi_readopen (fold pipe_put bs k) = pi_readopen k" "pi_writeopen (fold pipe_put bs k) = pi_writeopen k"
    by (induction bs arbitrary: k) (simp_all add: pipe_put_def)
  show "pi_readopen ((pipe_get ^^ n) k) = pi_readopen k" "pi_writeopen ((pipe_get ^^ n) k) = pi_writeopen k"
    by (induction n) (simp_all add: pipe_get_def)
qed

section \<open>The state of a transfer\<close>

lemma pipes_locking [simp]:
  "pipes (acquired l s) = pipes s" "pipes (released l s) = pipes s" "pipes (bracket l s) = pipes s"
  by (simp_all add: acquired_def pushed_def released_def popped_def bracket_def)

definition set_pipe :: "u32 \<Rightarrow> pipe \<Rightarrow> 'x filest_scheme \<Rightarrow> 'x filest_scheme" where
  "set_pipe p k s = s\<lparr>pipes := (pipes s)(p := k)\<rparr>"

lemma set_pipe_frame [simp]:
  "pipes (set_pipe p k s) = (pipes s)(p := k)" "set_pipe p k (set_pipe p k' s) = set_pipe p k s"
  "mem (set_pipe p k s) = mem s" "cr3 (set_pipe p k s) = cr3 s" "ptable (set_pipe p k s) = ptable s"
  "locks (set_pipe p k s) = locks s" "set_pipe p (pipes s p) s = s"
  "cpu_index (set_pipe p k s) = cpu_index s" "cur_cpu (set_pipe p k s) = cur_cpu s"
  "cpu_ok (set_pipe p k s) = cpu_ok s" "held l (set_pipe p k s) = held l s"
  "in_lock l (set_pipe p k s) = in_lock l s" "can_lock l (set_pipe p k s) = can_lock l s"
  "lockview (set_pipe p k s) = lockview s" "released l (set_pipe p k s) = set_pipe p k (released l s)"
  by (simp_all add: set_pipe_def cpu_ok_def cur_cpu_def cpu_index_def held_def in_lock_def can_lock_def
      lockview_def fun_eq_iff released_def popped_def)

lemma run_pipe [run]:
  "bnd (get_pipe p) f u = f (pipes u p) u" "sq (upd_pipe p g) n u = n (set_pipe p (g (pipes u p)) u)"
  by (simp_all add: get_pipe_def upd_pipe_def set_pipe_def run)

lemma set_pipe_locking [simp]:
  "acquired l (set_pipe p k s) = set_pipe p k (acquired l s)"
  "bracket l (set_pipe p k s) = set_pipe p k (bracket l s)"
  "(set_pipe p k s)\<lparr>ptable := x\<rparr> = set_pipe p k (s\<lparr>ptable := x\<rparr>)"
proof -
  show a: "acquired l (set_pipe p k s) = set_pipe p k (acquired l s)"
    by (simp add: set_pipe_def acquired_def pushed_def cur_cpu_def cpu_index_def)
  show "bracket l (set_pipe p k s) = set_pipe p k (bracket l s)" by (simp add: bracket_def a)
qed (simp add: set_pipe_def)

lemma translate_cong: "mem t = mem s \<Longrightarrow> cr3 t = cr3 s \<Longrightarrow> translate t wr a = translate s wr a"
  unfolding translate_def Let_def by simp

lemma translate_frame [simp]:
  "translate (set_pipe p k s) wr a = translate s wr a" "translate (t\<lparr>ptable := y\<rparr>) wr a = translate t wr a"
  "translate (acquired l u) wr a = translate u wr a"
  by (rule translate_cong; simp)+

text \<open>
  The buffer at \<open>addr\<close> is mapped at the addresses \<open>ks\<close>, whatever it contains: no page table that
  translates it lies inside the buffer itself.
\<close>

definition buffer_at :: "'x machine_scheme \<Rightarrow> bool \<Rightarrow> u32 \<Rightarrow> u32 list \<Rightarrow> bool" where
  "buffer_at s wr addr ks \<longleftrightarrow> distinct ks \<and>
     (\<forall>m i. i < length ks \<longrightarrow> (\<forall>x. x \<notin> set ks \<longrightarrow> m x = mem s x) \<longrightarrow>
        translate (s\<lparr>mem := m\<rparr>) wr (addr + of_nat i) = Some (ks ! i))"

lemma buffer_translate:
  assumes "buffer_at s wr addr ks" "i < length ks"
  shows "translate s wr (addr + of_nat i) = Some (ks ! i)"
proof -
  have "translate (s\<lparr>mem := mem s\<rparr>) wr (addr + of_nat i) = Some (ks ! i)"
    using assms unfolding buffer_at_def by blast
  then show ?thesis by simp
qed

definition pipe_ready :: "'x procst_scheme \<Rightarrow> u32 \<Rightarrow> nat \<Rightarrow> bool" where
  "pipe_ready s p c \<longleftrightarrow> can_lock (LPipe p) s \<and> can_lock LPtable s \<and> c_ncli (cur_cpu s) = 0
     \<and> c_proc (cur_cpu s) = Some c \<and> c < length (ptable s) \<and> length (ptable s) = NPROC"

lemma for_loop_add:
  "for_loop i (j + k) body =
     bnd (for_loop i j body) (\<lambda>r. case r of Some v \<Rightarrow> ret (Some v) | None \<Rightarrow> for_loop (i + j) k body)"
proof (induction j arbitrary: i)
  case (Suc j)
  then show ?case
    by (auto simp: bnd_def ret_def fun_eq_iff split: sum.splits option.splits)
qed (simp add: bnd_def ret_def fun_eq_iff)

lemma for_loop_snoc:
  assumes "for_loop 0 m body s = Inr (None, t)" "body m t = Inr (r, t')"
  shows "for_loop 0 (Suc m) body s = Inr (r, t')"
  using assms for_loop_add [of 0 m 1 body] by (simp add: bnd_def ret_def split: option.split)

section \<open>Writing\<close>

lemma pipewrite_byte_room:
  assumes "pipe_ok (pipes u p)" "length (pipe_contents (pipes u p)) < 512"
    "translate u False (addr + of_nat i) = Some x"
  shows "pipewrite_byte p addr i u = Inr (None, set_pipe p (pipe_put (mem u x) (pipes u p)) u)"
proof -
  have "pi_nwrite (pipes u p) \<noteq> pi_nread (pipes u p) + PIPESIZE" using pipe_tests(1) [OF assms(1)] assms(2) by simp
  then show ?thesis
    using assms(3)
    by (simp add: pipewrite_byte_def get_pipe_def vld8_def upd_pipe_def run pipe_put_def bnd_def gets_def
        sq_def modify_def ret_def set_pipe_def)
qed

lemma pipewrite_loop:
  assumes "pipe_ok (pipes u p)" "buffer_at u False addr ks" "m \<le> length ks"
    "length (pipe_contents (pipes u p)) + m \<le> 512"
  shows "for_loop 0 m (pipewrite_byte p addr) u
    = Inr (None, set_pipe p (fold pipe_put (map (mem u) (take m ks)) (pipes u p)) u)"
  using assms(3,4)
proof (induction m)
  case (Suc m)
  let ?k = "fold pipe_put (map (mem u) (take m ks)) (pipes u p)"
  have b: "length (pipe_contents (pipes u p)) + length (map (mem u) (take m ks)) \<le> 512"
    "length (map (mem u) (take m ks)) = m" using Suc.prems by simp_all
  have "translate (set_pipe p ?k u) False (addr + of_nat m) = Some (ks ! m)"
    using buffer_translate [OF assms(2), of m] Suc.prems by simp
  then have "pipewrite_byte p addr m (set_pipe p ?k u) = Inr (None, set_pipe p (pipe_put (mem u (ks ! m)) ?k) u)"
    using pipewrite_byte_room [of "set_pipe p ?k u" p addr m "ks ! m"] pipeq.enq_all [OF assms(1) b(1)]
      Suc.prems b(2) by simp
  with Suc for_loop_snoc [of m "pipewrite_byte p addr" u "set_pipe p ?k u"] show ?case
    by (simp add: take_Suc_conv_app_nth)
qed (simp add: ret_def)

lemma more_pipes:
  fixes s s' :: "'x filest_scheme"
  assumes "kmemst.more s' = kmemst.more s"
  shows "pipes s' = pipes s"
  using assms by (cases s; cases s'; simp)

text \<open>Inside the critical section of a pipe, and after a \<open>wakeup\<close> there.\<close>

lemma pipe_section:
  fixes s a :: "'x filest_scheme"
  assumes r: "pipe_ready s p c" and f: "kframe (acquired (LPipe p) s) a"
  defines "b \<equiv> bracket LPtable a"
  shows "in_lock (LPipe p) a" "can_lock LPtable a" "cpu_ok a" "c_proc (cur_cpu a) = Some c" "c_ncli (cur_cpu a) = 1"
    "ptable a = ptable s" "pipes a = pipes s"
    "wakeup ch (set_pipe p k a) = Inr ((), set_pipe p k (b\<lparr>ptable := map (woken ch) (ptable s)\<rparr>))"
    "in_lock (LPipe p) b" "can_lock LPtable b" "c_proc (cur_cpu b) = Some c" "c_ncli (cur_cpu b) = 1"
    "ptable b = ptable s" "pipes b = pipes s" "mem b = mem a"
    "lockview (released (LPipe p) b) = lockview s" "lockview (released (LPipe p) a) = lockview s"
proof -
  let ?a = "acquired (LPipe p) s"
  have s: "can_lock (LPipe p) s" "can_lock LPtable s" "cpu_ok s" "length (ptable s) = NPROC"
    using r by (simp_all add: pipe_ready_def can_lock_def)
  have a: "in_lock (LPipe p) ?a" by (rule in_lock_acquired [OF s(1)])
  have ac: "can_lock LPtable ?a" by (rule can_lock_acquired [OF s(1,2)]) simp
  then have "cpu_ok ?a" by (simp add: can_lock_def)
  note k = kframe_locks [OF f this] kframe_cpu [OF f this]
  show il: "in_lock (LPipe p) a" and cl: "can_lock LPtable a" and ok: "cpu_ok a"
    using k a ac by simp_all
  show c: "c_proc (cur_cpu a) = Some c" "c_ncli (cur_cpu a) = 1"
    using k r s(3) by (simp_all add: pipe_ready_def cur_cpu_pushed)
  show m: "ptable a = ptable s" "pipes a = pipes s"
    using f more_procs(1) [of a ?a] more_pipes [of a ?a] by (simp_all add: kframe_def)
  show "wakeup ch (set_pipe p k a) = Inr ((), set_pipe p k (b\<lparr>ptable := map (woken ch) (ptable s)\<rparr>))"
    using wakeup_eq [of "set_pipe p k a" ch] cl s(4) m by (simp add: b_def)
  have g: "kframe a b" unfolding b_def by (rule kframe_bracket [OF cl])
  note k' = kframe_locks [OF g ok] kframe_cpu [OF g ok]
  show "in_lock (LPipe p) b" "can_lock LPtable b" "c_proc (cur_cpu b) = Some c" "c_ncli (cur_cpu b) = 1"
    using k' il cl c by simp_all
  show "ptable b = ptable s" "pipes b = pipes s" "mem b = mem a" using m by (simp_all add: b_def)
  have "kframe s (released (LPipe p) b)" "kframe s (released (LPipe p) a)"
    using kframe_section(2) [OF s(1)] f kframe_trans [OF f g] by simp_all
  then show "lockview (released (LPipe p) b) = lockview s" "lockview (released (LPipe p) a) = lockview s"
    by (simp_all add: kframe_def)
qed

lemma pipe_ready_again:
  fixes s a :: "'x filest_scheme"
  assumes r: "pipe_ready s p c" and f: "kframe (acquired (LPipe p) s) a"
  shows "pipe_ready (set_pipe p k ((released (LPipe p) (bracket LPtable a))\<lparr>ptable := map (woken ch) (ptable s)\<rparr>)) p c"
proof -
  have s: "can_lock (LPipe p) s" "cpu_ok s" using r by (simp_all add: pipe_ready_def can_lock_def)
  have "kframe a (bracket LPtable a)" by (rule kframe_bracket [OF pipe_section(2) [OF r f]])
  from kframe_section(2) [OF s(1) kframe_trans [OF f this]]
  have k: "kframe s (released (LPipe p) (bracket LPtable a))" .
  show ?thesis
    using kframe_locks [OF k s(2)] kframe_cpu [OF k s(2)] r by (simp add: pipe_ready_def)
qed

lemma buffer_at_acquired: "buffer_at (acquired l s) wr addr ks = buffer_at s wr addr ks"
proof -
  have "translate ((acquired l s)\<lparr>mem := m\<rparr>) wr a = translate (s\<lparr>mem := m\<rparr>) wr a" for m a
    by (rule translate_cong) simp_all
  then show ?thesis by (simp add: buffer_at_def)
qed

text \<open>
  A write of no more bytes than the pipe has room for appends exactly these bytes to its contents,
  in order, wakes the readers, gives up the lock and returns the number of bytes.
\<close>

lemma pipewrite_appends:
  fixes s :: "'x filest_scheme"
  assumes "pipe_ready s p c" and "pipe_ok (pipes s p)" and "buffer_at s False addr ks"
    and "length (pipe_contents (pipes s p)) + length ks \<le> 512"
  shows "\<exists>s'. pipewrite p addr (int (length ks)) s = Inr (int (length ks), s')
    \<and> pipe_ok (pipes s' p) \<and> pipe_contents (pipes s' p) = pipe_contents (pipes s p) @ map (mem s) ks
    \<and> (\<forall>q. q \<noteq> p \<longrightarrow> pipes s' q = pipes s q) \<and> lockview s' = lockview s \<and> mem s' = mem s
    \<and> ptable s' = map (woken (ChanPipeRead p)) (ptable s) \<and> pipe_ready s' p c \<and> cr3 s' = cr3 s"
proof -
  let ?a = "acquired (LPipe p) s" and ?k = "fold pipe_put (map (mem s) ks) (pipes s p)"
  let ?b = "(bracket LPtable ?a)\<lparr>ptable := map (woken (ChanPipeRead p)) (ptable s)\<rparr>"
  note S = pipe_section [OF assms(1) kframe_refl]
  have "for_loop 0 (length ks) (pipewrite_byte p addr) ?a = Inr (None, set_pipe p ?k ?a)"
    using pipewrite_loop [of ?a p addr ks "length ks"] assms by (simp add: buffer_at_acquired)
  moreover have "in_lock (LPipe p) (set_pipe p ?k ?b)" using S(9) by simp
  ultimately have "pipewrite p addr (int (length ks)) s
      = Inr (int (length ks), released (LPipe p) (set_pipe p ?k ?b))"
    using S(8) [of "ChanPipeRead p" ?k] assms(1)
    by (simp add: pipewrite_def pipewrite_from_def run pipe_ready_def bnd_def sq_def ret_def
        acquire_eq can_lock_def release_eq in_lock_def)
  moreover have "pipe_ready (released (LPipe p) (set_pipe p ?k ?b)) p c"
    using pipe_ready_again [OF assms(1) kframe_refl] by simp
  ultimately show ?thesis
    using pipeq.enq_all [OF assms(2), of "map (mem s) ks"] assms(4) S(16) by auto
qed

lemma pipewrite_byte_full:
  fixes u :: "'x filest_scheme"
  assumes "pipe_ok (pipes u p)" "length (pipe_contents (pipes u p)) = 512"
    and u: "in_lock (LPipe p) u" "c_proc (cur_cpu u) = Some c"
  shows "pipewrite_byte p addr i u =
    (if pi_readopen (pipes u p) = 0 \<or> p_killed (ptable u ! c) \<noteq> 0 then Inr (Some (-1), released (LPipe p) u)
     else sq (wakeup (ChanPipeRead p)) (sq (sleep (ChanPipeWrite p) (Some (LPipe p)))
       (bnd (vld8 (addr + of_nat i)) (\<lambda>b.
         sq (upd_pipe p (\<lambda>k. k\<lparr>pi_data := (pi_data k)[unat (pi_nwrite k mod PIPESIZE) := b],
               pi_nwrite := pi_nwrite k + 1\<rparr>)) (ret None)))) u)"
proof -
  have "pi_nwrite (pipes u p) = pi_nread (pipes u p) + PIPESIZE" using pipe_tests(1) [OF assms(1)] assms(2) by simp
  moreover have "polled u = u" "cpu_ok u" using u polled_id by (auto simp: in_lock_def)
  ultimately show ?thesis
    using u
    by (auto simp: pipewrite_byte_def get_pipe_def run run_curproc get_proc_def bnd_def gets_def ret_def sq_def
        release_eq in_lock_def curproc_def myproc_eq nonnull_def split: sum.split)
qed

text \<open>
  C21: \<open>pipewrite\<close> of more bytes than fit fills the pipe with the first of them. If no reader is left, or
  the process has been killed, it returns -1 with the lock released. Otherwise it wakes the readers and
  the process sleeps until there is room, without the lock of the pipe; nothing is lost or reordered.
\<close>

theorem pipewrite_fills:
  fixes s :: "'x filest_scheme"
  assumes "pipe_ready s p c" and "pipe_ok (pipes s p)" and "buffer_at s False addr ks"
    and "512 < length (pipe_contents (pipes s p)) + length ks"
  defines "stop \<equiv> pi_readopen (pipes s p) = 0 \<or> p_killed (ptable s ! c) \<noteq> 0"
  shows "\<exists>s'. pipewrite p addr (int (length ks)) s = (if stop then Inr (-1, s') else Inl (Switched, s'))
    \<and> pipe_ok (pipes s' p) \<and> pipe_contents (pipes s' p) = take 512 (pipe_contents (pipes s p) @ map (mem s) ks)
    \<and> (\<forall>q. q \<noteq> p \<longrightarrow> pipes s' q = pipes s q) \<and> mem s' = mem s \<and> lk_locked (locks s' (LPipe p)) = 0
    \<and> ptable s' = (if stop then ptable s else (map (woken (ChanPipeRead p)) (ptable s))
        [c := (woken (ChanPipeRead p) (ptable s ! c))\<lparr>p_chan := ChanPipeWrite p, p_state := SLEEPING\<rparr>])"
proof -
  let ?a = "acquired (LPipe p) s"
  define m where "m = 512 - length (pipe_contents (pipes s p))"
  define bs where "bs = map (mem s) (take m ks)"
  define k where "k = fold pipe_put bs (pipes s p)"
  let ?u = "set_pipe p k ?a"
  let ?b = "set_pipe p k ((bracket LPtable ?a)\<lparr>ptable := map (woken (ChanPipeRead p)) (ptable s)\<rparr>)"
  note S = pipe_section [OF assms(1) kframe_refl]
  have len: "length (pipe_contents (pipes s p)) \<le> 512" by (rule pipeq.bounded [OF assms(2)])
  have m: "m < length ks" "length (pipe_contents (pipes s p)) + length bs = 512"
    using assms(4) len by (simp_all add: m_def bs_def)
  have k: "pipe_ok k" "pipe_contents k = pipe_contents (pipes s p) @ bs"
    using pipeq.enq_all [OF assms(2), of bs] m(2) by (simp_all add: k_def)
  have ck: "pipe_contents k = take 512 (pipe_contents (pipes s p) @ map (mem s) ks)"
    using len by (simp add: k(2) bs_def m_def take_map)
  have kf: "pi_readopen k = pi_readopen (pipes s p)" by (simp add: k_def)
  obtain j where j: "length ks = m + Suc j" using m(1) less_imp_Suc_add by force
  have pre: "for_loop 0 m (pipewrite_byte p addr) ?a = Inr (None, ?u)"
    using pipewrite_loop [of ?a p addr ks m] assms(2,3) m len
    by (simp add: buffer_at_acquired k_def bs_def)
  have full: "pipewrite_byte p addr m ?u = (if stop then Inr (Some (-1), released (LPipe p) ?u)
      else Inl (Switched, asleep c (ChanPipeWrite p) (LPipe p) ?b))"
  proof -
    have "can_sleep c (LPipe p) ?b"
      using S(9-13) assms(1) by (simp add: can_sleep_def pipe_ready_def)
    then show ?thesis
      using pipewrite_byte_full [of ?u p c addr m] S(1,4,6,8) k m(2) kf
      by (simp add: stop_def sq_def bnd_def sleep_eq)
  qed
  have "for_loop 0 (length ks) (pipewrite_byte p addr) ?a = (if stop then Inr (Some (-1), released (LPipe p) ?u)
      else Inl (Switched, asleep c (ChanPipeWrite p) (LPipe p) ?b))"
    unfolding j for_loop_add using pre full by (simp add: bnd_def ret_def)
  then have "pipewrite p addr (int (length ks)) s = (if stop then Inr (-1, released (LPipe p) ?u)
      else Inl (Switched, asleep c (ChanPipeWrite p) (LPipe p) ?b))"
    using assms(1) by (simp add: pipewrite_def pipewrite_from_def run pipe_ready_def bnd_def ret_def)
  moreover have "pipes (asleep c (ChanPipeWrite p) (LPipe p) ?b) = (pipes s)(p := k)"
    "mem (asleep c (ChanPipeWrite p) (LPipe p) ?b) = mem s"
    "lk_locked (locks (asleep c (ChanPipeWrite p) (LPipe p) ?b) (LPipe p)) = 0"
    "ptable (asleep c (ChanPipeWrite p) (LPipe p) ?b) = (map (woken (ChanPipeRead p)) (ptable s))
        [c := (woken (ChanPipeRead p) (ptable s ! c))\<lparr>p_chan := ChanPipeWrite p, p_state := SLEEPING\<rparr>]"
    using assms(1) by (simp_all add: asleep_def pipe_ready_def)
  ultimately show ?thesis using k(1) ck by auto
qed

section \<open>Reading\<close>

text \<open>The memory after storing the bytes \<open>bs\<close> at the addresses \<open>ks\<close>.\<close>

definition stored :: "u32 list \<Rightarrow> u8 list \<Rightarrow> bytes \<Rightarrow> bytes" where
  "stored ks bs m = fold (\<lambda>(x, b) m. m(x := b)) (zip ks bs) m"

lemma stored_snoc:
  "length ks = length bs \<Longrightarrow> stored (ks @ [x]) (bs @ [b]) m = (stored ks bs m)(x := b)"
  by (simp add: stored_def)

lemma stored_other: "x \<notin> set ks \<Longrightarrow> stored ks bs m x = m x"
proof (induction ks arbitrary: bs m)
  case (Cons y ks)
  then show ?case by (cases bs) (auto simp: stored_def)
qed (simp add: stored_def)

lemma stored_same: "distinct ks \<Longrightarrow> length bs = length ks \<Longrightarrow> map (stored ks bs m) ks = bs"
proof (induction ks arbitrary: bs m)
  case (Cons y ks)
  then obtain b bs' where bs: "bs = b # bs'" by (cases bs) auto
  have "stored (y # ks) bs m = stored ks bs' (m(y := b))" by (simp add: bs stored_def)
  then show ?case using Cons stored_other [of y ks bs' "m(y := b)"] by (simp add: bs)
qed simp

lemma set_pipe_mem [simp]: "(set_pipe p k s)\<lparr>mem := m\<rparr> = set_pipe p k (s\<lparr>mem := m\<rparr>)"
  by (simp add: set_pipe_def)

lemma piperead_byte_some:
  assumes "pipe_ok (pipes u p)" "pipe_contents (pipes u p) \<noteq> []"
    "translate u True (addr + of_nat i) = Some x"
  shows "piperead_byte p addr i u
    = Inr (None, set_pipe p (pipe_get (pipes u p)) (u\<lparr>mem := (mem u)(x := pipe_front (pipes u p))\<rparr>))"
proof -
  have ne: "pi_nread (pipes u p) \<noteq> pi_nwrite (pipes u p)" using pipe_tests(2) [OF assms(1)] assms(2) by simp
  have "translate (set_pipe p k u) True (addr + of_nat i) = Some x" for k using assms(3) by simp
  then have "vst8 (addr + of_nat i) b (set_pipe p k u) = Inr ((), set_pipe p k (u\<lparr>mem := (mem u)(x := b)\<rparr>))" for k b
    by (simp add: vst8_def bnd_def gets_def modify_def)
  then show ?thesis
    using ne
    by (simp add: piperead_byte_def run run_step(2) pipe_get_def pipe_front_def ret_def)
qed

lemma piperead_loop:
  assumes ok: "pipe_ok (pipes u p)" and b: "buffer_at u True addr ks" and m: "m \<le> length ks"
    "m \<le> length (pipe_contents (pipes u p))"
  shows "for_loop 0 m (piperead_byte p addr) u = Inr (None, set_pipe p ((pipe_get ^^ m) (pipes u p))
    (u\<lparr>mem := stored (take m ks) (take m (pipe_contents (pipes u p))) (mem u)\<rparr>))"
  using m
proof (induction m)
  case 0
  then show ?case by (simp add: ret_def stored_def)
next
  case (Suc m)
  let ?k = "pipes u p" and ?q = "(pipe_get ^^ m) (pipes u p)"
  let ?M = "stored (take m ks) (take m (pipe_contents ?k)) (mem u)"
  let ?u = "set_pipe p ?q (u\<lparr>mem := ?M\<rparr>)"
  have q: "pipe_ok ?q" "pipe_contents ?q \<noteq> []" "pipe_front ?q = pipe_contents ?k ! m"
    using pipeq.deq_all [OF ok, of m] pipeq.front_nth [OF ok, of m] Suc.prems by simp_all
  have "?M x = mem u x" if "x \<notin> set ks" for x
    using that by (intro stored_other) (auto dest: in_set_takeD)
  then have "translate (u\<lparr>mem := ?M\<rparr>) True (addr + of_nat m) = Some (ks ! m)"
    using b Suc.prems by (simp add: buffer_at_def)
  then have "piperead_byte p addr m ?u
      = Inr (None, set_pipe p (pipe_get ?q) (u\<lparr>mem := ?M(ks ! m := pipe_contents ?k ! m)\<rparr>))"
    using piperead_byte_some [of ?u p addr m "ks ! m"] q by simp
  with Suc for_loop_snoc [of m "piperead_byte p addr" u ?u] show ?case
    by (simp add: take_Suc_conv_app_nth stored_snoc fun_upd_def)
qed

lemma piperead_copies:
  fixes s :: "'x filest_scheme"
  assumes "pipe_ready s p c" and ok: "pipe_ok (pipes s p)" and "buffer_at s True addr ks"
    and go: "pipe_contents (pipes s p) \<noteq> [] \<or> pi_writeopen (pipes s p) = 0"
  defines "m \<equiv> min (length ks) (length (pipe_contents (pipes s p)))"
  shows "\<exists>s'. piperead p addr (int (length ks)) s = Inr (int m, s')
    \<and> pipe_ok (pipes s' p) \<and> pipe_contents (pipes s' p) = drop m (pipe_contents (pipes s p))
    \<and> (\<forall>q. q \<noteq> p \<longrightarrow> pipes s' q = pipes s q) \<and> lockview s' = lockview s
    \<and> mem s' = stored (take m ks) (take m (pipe_contents (pipes s p))) (mem s)
    \<and> ptable s' = map (woken (ChanPipeWrite p)) (ptable s)"
proof -
  let ?a = "acquired (LPipe p) s" and ?k = "(pipe_get ^^ m) (pipes s p)"
  let ?v = "?a\<lparr>mem := stored (take m ks) (take m (pipe_contents (pipes s p))) (mem s)\<rparr>"
  have fr: "kframe ?a ?v" by (simp add: kframe_upd)
  note S = pipe_section [OF assms(1) kframe_refl] and S' = pipe_section [OF assms(1) fr]
  have m: "m \<le> length ks" "m \<le> length (pipe_contents (pipes s p))" by (simp_all add: m_def)
  have k: "pipe_ok ?k" "pipe_contents ?k = drop m (pipe_contents (pipes s p))"
    using pipeq.deq_all [OF ok m(2)] by simp_all
  have pre: "for_loop 0 m (piperead_byte p addr) ?a = Inr (None, set_pipe p ?k ?v)"
    using piperead_loop [of ?a p addr ks m] ok assms(3) m by (simp add: buffer_at_acquired)
  have "\<exists>r. for_loop 0 (length ks) (piperead_byte p addr) ?a = Inr (r, set_pipe p ?k ?v)
      \<and> (case r of Some i \<Rightarrow> i | None \<Rightarrow> length ks) = m"
  proof (cases "m = length ks")
    case True
    then show ?thesis using pre by auto
  next
    case False
    then obtain j where j: "length ks = m + Suc j" using m(1) less_imp_Suc_add by force
    have "pipe_contents ?k = []" using False k(2) by (simp add: m_def)
    then have "piperead_byte p addr m (set_pipe p ?k ?v) = Inr (Some m, set_pipe p ?k ?v)"
      using pipe_tests(2) [OF k(1)] by (simp add: piperead_byte_def run ret_def)
    then show ?thesis unfolding j for_loop_add using pre by (simp add: bnd_def ret_def)
  qed
  then obtain r where r: "for_loop 0 (length ks) (piperead_byte p addr) ?a = Inr (r, set_pipe p ?k ?v)"
    "(case r of Some i \<Rightarrow> i | None \<Rightarrow> length ks) = m" by blast
  have "\<not> (pi_nread (pipes s p) = pi_nwrite (pipes s p) \<and> pi_writeopen (pipes s p) \<noteq> 0)"
    using go pipe_tests(2) [OF ok] by simp
  then have "piperead p addr (int (length ks)) s = piperead_copy p addr (int (length ks)) ?a"
    using assms(1) by (auto simp: piperead_def run pipe_ready_def)
  also have "\<dots> = Inr (int m, set_pipe p ?k ((released (LPipe p) (bracket LPtable ?v))
      \<lparr>ptable := map (woken (ChanPipeWrite p)) (ptable s)\<rparr>))"
    using r S'(8) [of "ChanPipeWrite p" ?k] S'(9)
    by (cases r) (simp_all add: piperead_copy_def run_step(1) run_step(2) run Let_def ret_def)
  finally show ?thesis using k S'(16) by auto
qed

text \<open>
  C20: a pipe is a first-in first-out queue. Bytes written when there is room are read back in the order in
  which they were written, after the bytes that were already there: a reader that asks for no more than
  is there gets the first bytes of the queue into its buffer and nothing else changes there; the rest
  stays for the next reader. This holds across the wrap-around of the ring and of its 32-bit positions.
\<close>

theorem pipe_fifo:
  fixes s :: "'x filest_scheme"
  assumes "pipe_ready s p c" and "pipe_ok (pipes s p)" and "buffer_at s False src xs"
    and "length (pipe_contents (pipes s p)) + length xs \<le> 512"
    and "buffer_at s True dst ks" and "0 < length ks"
    and "length ks \<le> length (pipe_contents (pipes s p)) + length xs"
  defines "queue \<equiv> pipe_contents (pipes s p) @ map (mem s) xs"
  shows "\<exists>s1 s2. pipewrite p src (int (length xs)) s = Inr (int (length xs), s1)
    \<and> piperead p dst (int (length ks)) s1 = Inr (int (length ks), s2)
    \<and> map (mem s2) ks = take (length ks) queue \<and> (\<forall>x. x \<notin> set ks \<longrightarrow> mem s2 x = mem s x)
    \<and> pipe_contents (pipes s2 p) = drop (length ks) queue \<and> lockview s2 = lockview s"
proof -
  obtain s1 where s1: "pipewrite p src (int (length xs)) s = Inr (int (length xs), s1)"
    "pipe_ok (pipes s1 p)" "pipe_contents (pipes s1 p) = queue" "lockview s1 = lockview s" "mem s1 = mem s"
    "pipe_ready s1 p c" "cr3 s1 = cr3 s"
    using pipewrite_appends [OF assms(1-4)] unfolding queue_def by blast
  have "translate (s1\<lparr>mem := m\<rparr>) True a = translate (s\<lparr>mem := m\<rparr>) True a" for m a
    by (rule translate_cong) (simp_all add: s1)
  then have b: "buffer_at s1 True dst ks" using assms(5) by (simp add: buffer_at_def s1)
  have l: "length ks \<le> length queue" "queue \<noteq> []" using assms(6,7) by (auto simp: queue_def)
  obtain s2 where s2: "piperead p dst (int (length ks)) s1 = Inr (int (length ks), s2)"
    "pipe_contents (pipes s2 p) = drop (length ks) queue" "lockview s2 = lockview s1"
    "mem s2 = stored ks (take (length ks) queue) (mem s1)"
    using piperead_copies [OF s1(6,2) b] l by (auto simp: s1(3) min_absorb1)
  have "distinct ks" using assms(5) by (simp add: buffer_at_def)
  then show ?thesis
    using s1(1,4,5) s2 stored_same [of ks "take (length ks) queue" "mem s"] l stored_other [of _ ks] by auto
qed

text \<open>A pipe whose positions are about to wrap around.\<close>

definition pipe_demo :: filest where
  "pipe_demo = set_pipe 0x80405000 \<lparr>pi_data = replicate 512 0, pi_nread = 0xFFFFFFFE, pi_nwrite = 0xFFFFFFFE,
     pi_readopen = 1, pi_writeopen = 1\<rparr> demo_kernel"

lemma kernel_buffer:
  assumes "KERNBASE \<le> addr" "unat addr + n \<le> 4294967296"
  shows "buffer_at s wr addr (map (\<lambda>i. addr + of_nat i) [0..<n])"
proof -
  have u: "unat (addr + of_nat i) = unat addr + i" if "i < n" for i
    using assms(2) that by (simp add: unat_word_ariths unat_of_nat)
  have "KERNBASE \<le> addr + of_nat i" if "i < n" for i
    using assms(1) u [OF that] by (simp add: word_le_nat_alt)
  moreover have "inj_on (\<lambda>i. addr + of_nat i) {0..<n}"
    by (rule inj_onI) (metis u add_left_cancel atLeastLessThan_iff)
  ultimately show ?thesis by (simp add: buffer_at_def translate_def distinct_map)
qed

lemma pipe_demo_facts:
  "pipe_ready pipe_demo 0x80405000 0" "pipe_ok (pipes pipe_demo 0x80405000)"
  "pipe_contents (pipes pipe_demo 0x80405000) = []"
  by (simp_all add: pipe_demo_def pipe_ready_def demo_kernel_locks pipe_ok_def ring_ok_def pipe_contents_def
      ring_list_def)

theorem pipe_fifo_witness:
  "\<exists>s1 s2. pipewrite 0x80405000 0x80500000 4 pipe_demo = Inr (4, s1)
     \<and> piperead 0x80405000 0x80600000 3 s1 = Inr (3, s2)
     \<and> pipe_contents (pipes s2 0x80405000) = [mem pipe_demo 0x80500003]"
proof -
  let ?p = "0x80405000 :: u32" and ?xs = "[0x80500000, 0x80500001, 0x80500002, 0x80500003 :: u32]"
    and ?ks = "[0x80600000, 0x80600001, 0x80600002 :: u32]"
  have "buffer_at pipe_demo False 0x80500000 ?xs" "buffer_at pipe_demo True 0x80600000 ?ks"
    using kernel_buffer [of "0x80500000" 4 pipe_demo False] kernel_buffer [of "0x80600000" 3 pipe_demo True]
    by (simp_all add: upt_rec)
  from pipe_fifo [OF pipe_demo_facts(1,2) this(1) _ this(2)] show ?thesis
    by (auto simp: pipe_demo_facts(3))
qed

text \<open>
  C22: reading from an empty pipe. With no writer left, \<open>piperead\<close> returns 0, the end of the file. While a
  writer has it open, a killed process gets -1, and any other one sleeps until there is something to
  read, without the lock of the pipe. Neither the pipe nor the buffer changes.
\<close>

theorem piperead_empty:
  fixes s :: "'x filest_scheme"
  assumes "pipe_ready s p c" and "pipe_ok (pipes s p)" and "pipe_contents (pipes s p) = []"
    and "buffer_at s True addr ks"
  defines "eof \<equiv> pi_writeopen (pipes s p) = 0" and "killed \<equiv> p_killed (ptable s ! c) \<noteq> 0"
  shows "\<exists>s'. piperead p addr (int (length ks)) s
      = (if eof then Inr (0, s') else if killed then Inr (-1, s') else Inl (Switched, s'))
    \<and> pipe_contents (pipes s' p) = [] \<and> mem s' = mem s \<and> lk_locked (locks s' (LPipe p)) = 0
    \<and> (\<not> eof \<and> \<not> killed \<longrightarrow> held LPtable s' \<and> ptable s' = (ptable s)[c := (ptable s ! c)
          \<lparr>p_chan := ChanPipeRead p, p_state := SLEEPING\<rparr>])"
proof (cases eof)
  case True
  then obtain s' where s': "piperead p addr (int (length ks)) s = Inr (0, s')" "pipe_contents (pipes s' p) = []"
    "lockview s' = lockview s" "mem s' = stored [] [] (mem s)"
    using piperead_copies [OF assms(1,2,4)] assms(3) by (auto simp: eof_def)
  have "can_lock (LPipe p) s" using assms(1) by (simp add: pipe_ready_def)
  then have "lk_locked (locks s' (LPipe p)) = 0"
    using s'(3) by (auto simp: lockview_def can_lock_def fun_eq_iff)
  with True s' show ?thesis by (auto simp: stored_def)
next
  case False
  let ?a = "acquired (LPipe p) s"
  note S = pipe_section [OF assms(1) kframe_refl]
  have p: "polled ?a = ?a" using polled_id [OF S(3)] S(5) by simp
  have cs: "can_sleep c (LPipe p) ?a" using S assms(1) by (simp add: can_sleep_def pipe_ready_def)
  have e: "pi_nread (pipes s p) = pi_nwrite (pipes s p)" using pipe_tests(2) [OF assms(2)] assms(3) by simp
  have "bnd curproc (\<lambda>c. bnd (get_proc c) (\<lambda>q. if p_killed q \<noteq> 0 then ret True
      else sq (sleep (ChanPipeRead p) (Some (LPipe p))) (ret False))) ?a
    = (if killed then Inr (True, ?a) else Inl (Switched, asleep c (ChanPipeRead p) (LPipe p) ?a))"
    using S(6) p sleep_eq [OF cs]
    by (simp add: run run_curproc [OF S(3,4)] killed_def ret_def run_step(4))
  then have "piperead p addr (int (length ks)) s = (if killed then Inr (-1, released (LPipe p) ?a)
      else Inl (Switched, asleep c (ChanPipeRead p) (LPipe p) ?a))"
    using assms(1) S(1) e False
    by (simp add: piperead_def run pipe_ready_def eof_def run_step(1,3) ret_def)
  moreover have "held LPtable (asleep c (ChanPipeRead p) (LPipe p) ?a)"
    using in_lock_swap(2) [OF S(2,1)] by (simp add: asleep_def in_lock_def)
  ultimately show ?thesis
    using False assms(3) by (auto simp: asleep_def bracket_def)
qed

theorem piperead_empty_witness:
  "\<exists>s'. piperead 0x80405000 0x80600000 1 pipe_demo = Inl (Switched, s') \<and> held LPtable s'"
proof -
  have "buffer_at pipe_demo True 0x80600000 [0x80600000]"
    using kernel_buffer [of "0x80600000" 1 pipe_demo True] by simp
  from piperead_empty [OF pipe_demo_facts this] show ?thesis
    by (auto simp: pipe_demo_def demo_kernel_locks demo_proc_def)
qed

theorem pipewrite_fills_witness:
  "\<exists>s'. pipewrite 0x80405000 0x80500000 600 pipe_demo = Inl (Switched, s')
     \<and> length (pipe_contents (pipes s' 0x80405000)) = 512"
proof -
  let ?ks = "map (\<lambda>i. 0x80500000 + of_nat i) [0..<600] :: u32 list"
  have b: "buffer_at pipe_demo False 0x80500000 ?ks" by (rule kernel_buffer) simp_all
  have l: "512 < length (pipe_contents (pipes pipe_demo 0x80405000)) + length ?ks" "int (length ?ks) = 600"
    by simp_all
  have k: "pi_readopen (pipes pipe_demo 0x80405000) = 1" "p_killed (ptable pipe_demo ! 0) = 0"
    by (simp_all add: pipe_demo_def demo_kernel_locks demo_proc_def)
  obtain s' where "pipewrite 0x80405000 0x80500000 600 pipe_demo = Inl (Switched, s')"
    "pipe_contents (pipes s' 0x80405000) = take 512 (map (mem pipe_demo) ?ks)"
    using pipewrite_fills [OF pipe_demo_facts(1,2) b l(1)] unfolding l(2) k pipe_demo_facts(3) by auto
  then show ?thesis by auto
qed

end
