(* ===== verification/Consprops.thy ===== *)
theory Consprops
  imports Demo Ring "HOL-Library.Sublist"
begin

text \<open>
  Properties of the console: the cursor stays on the screen, the line editor keeps its ring well formed
  and never touches a line that has been handed to the readers, and a number that is printed reads
  back as that number.
\<close>

section \<open>The screen\<close>

lemma cga_step:
  assumes "0 \<le> pos" "pos < 1920"
  shows "case cga_put c pos scr of (p, scr') \<Rightarrow>
    0 \<le> p \<and> p \<le> 1920 \<and> (\<forall>i. 1920 \<le> i \<longrightarrow> scr' i = scr i)"
proof -
  have "pos mod 80 < 80" by simp
  moreover have "pos - pos mod 80 = 80 * (pos div 80)" by (simp add: minus_mod_eq_mult_div)
  moreover have "pos div 80 \<le> 23" using assms by simp
  ultimately show ?thesis using assms by (auto simp: cga_put_def)
qed

lemma cga_scroll_step:
  assumes "0 \<le> pos" "pos \<le> 1920"
  shows "case cga_scroll pos scr of (p, scr') \<Rightarrow>
    0 \<le> p \<and> p < 1920 \<and> (\<forall>i. 1920 \<le> i \<longrightarrow> scr' i = scr i)"
proof (cases "24 \<le> pos div 80")
  case True
  then have "pos = 1920" using assms by simp
  then show ?thesis by (auto simp: cga_scroll_def Let_def)
next
  case False
  then have "pos < 1920" using assms(2) by (cases "pos = 1920") auto
  then show ?thesis using False assms by (auto simp: cga_scroll_def)
qed

lemma cursor_step:
  assumes "uint (crt_pos s) < 1920"
  shows "\<exists>s'. cgaputc c s = Inr ((), s') \<and> uint (crt_pos s') < 1920 \<and> (\<forall>i. 1920 \<le> i \<longrightarrow> crt s' i = crt s i)"
proof -
  obtain p scr where p: "cga_put c (uint (crt_pos s)) (crt s) = (p, scr)"
    "0 \<le> p" "p \<le> 1920" "\<forall>i. 1920 \<le> i \<longrightarrow> scr i = crt s i"
    using cga_step [of "uint (crt_pos s)" "crt s" c] assms by (auto split: prod.splits)
  obtain q scr' where q: "cga_scroll p scr = (q, scr')" "0 \<le> q" "q < 1920" "\<forall>i. 1920 \<le> i \<longrightarrow> scr' i = scr i"
    using cga_scroll_step [OF p(2,3), of scr] by (auto split: prod.splits)
  have "uint (of_int q :: u16) = q" "nat q < 1920" using q(2,3) by (simp_all add: uint_word_of_int)
  then show ?thesis
    using p q by (auto simp: cgaputc_def bnd_def gets_def modify_def)
qed

text \<open>
  C24: the cursor stays on the screen. With the cursor on the first 24 lines, printing any character, a
  backspace or a newline never reaches the panic for a position out of bounds, leaves the cursor on the
  first 24 lines, and writes no cell beyond them.
\<close>

theorem cursor_stays_on_screen:
  assumes "uint (crt_pos s) < 24 * 80"
  shows "\<exists>s'. cgaputc c s = Inr ((), s') \<and> uint (crt_pos s') < 24 * 80
    \<and> (\<forall>i. 24 * 80 \<le> i \<longrightarrow> crt s' i = crt s i)"
  using cursor_step [of s c] assms by simp

theorem cursor_stays_on_screen_witness:
  "\<exists>s'. cgaputc 10 (demo_kernel\<lparr>crt_pos := 1919\<rparr>) = Inr ((), s') \<and> uint (crt_pos s') < 24 * 80"
  using cursor_stays_on_screen [of "demo_kernel\<lparr>crt_pos := 1919\<rparr>" 10] by auto

section \<open>Line input\<close>

text \<open>
  The ring holds the bytes from the read position \<open>r\<close> to the edit position \<open>e\<close>; those up to \<open>w\<close> belong to
  finished lines.
\<close>

definition input_ok :: "input \<Rightarrow> bool" where
  "input_ok i \<longleftrightarrow> ring_ok (in_buf i) INPUT_BUF (in_r i) (in_e i) \<and> in_w i - in_r i \<le> in_e i - in_r i"

definition typed :: "input \<Rightarrow> u8 list" where
  "typed i = ring_list (in_buf i) INPUT_BUF (in_r i) (in_e i)"

definition committed :: "input \<Rightarrow> u8 list" where
  "committed i = ring_list (in_buf i) INPUT_BUF (in_r i) (in_w i)"

definition type_byte :: "u8 \<Rightarrow> input \<Rightarrow> input" where
  "type_byte b i = i\<lparr>in_buf := (in_buf i)[unat (in_e i mod INPUT_BUF) := b], in_e := in_e i + 1\<rparr>"

definition next_byte :: "input \<Rightarrow> u8" where
  "next_byte i = in_buf i ! unat (in_r i mod INPUT_BUF)"

definition skip_byte :: "input \<Rightarrow> input" where
  "skip_byte i = i\<lparr>in_r := in_r i + 1\<rparr>"

interpretation consq: bounded_queue typed "\<lambda>i. ring_ok (in_buf i) INPUT_BUF (in_r i) (in_e i)" 128
  type_byte next_byte skip_byte
proof
  fix i :: input and x
  assume ok: "ring_ok (in_buf i) INPUT_BUF (in_r i) (in_e i)"
  then show "length (typed i) \<le> 128" by (simp add: typed_def ring_ok_def word_le_nat_alt)
  show "ring_ok (in_buf (type_byte x i)) INPUT_BUF (in_r (type_byte x i)) (in_e (type_byte x i))"
    "typed (type_byte x i) = typed i @ [x]" if "length (typed i) < 128"
    using ring_push [of "in_buf i" INPUT_BUF "in_r i" "in_e i" x] ok that
    by (simp_all add: typed_def type_byte_def)
  assume "typed i \<noteq> []"
  then have "in_r i \<noteq> in_e i" using ring_empty by (auto simp: typed_def)
  then show "ring_ok (in_buf (skip_byte i)) INPUT_BUF (in_r (skip_byte i)) (in_e (skip_byte i))"
    "typed i = next_byte i # typed (skip_byte i)"
    using ring_pop [of "in_buf i" INPUT_BUF "in_r i" "in_e i"] ok
    by (simp_all add: typed_def skip_byte_def next_byte_def)
qed

lemma ring_take:
  "w - r \<le> e - r \<Longrightarrow> ring_list xs n r w = take (unat (w - r)) (ring_list xs n r e)"
  by (simp add: ring_list_def take_map word_le_nat_alt)

lemma committed_take: "input_ok i \<Longrightarrow> committed i = take (unat (in_w i - in_r i)) (typed i)"
  unfolding committed_def typed_def input_ok_def by (rule ring_take) simp

text \<open>
  The state in which the console can work: inside its critical section, with the process table at hand to
  wake the readers, no panic, and the cursor on the screen.
\<close>

definition cons_ready :: "'x consst_scheme \<Rightarrow> bool" where
  "cons_ready s \<longleftrightarrow> in_lock LCons s \<and> can_lock LPtable s \<and> length (ptable s) = NPROC
     \<and> \<not> panicked s \<and> uint (crt_pos s) < 1920"

lemma cons_upd_frame [simp]:
  "cons_ready (s\<lparr>input := x\<rparr>) = cons_ready s" "cons_ready (s\<lparr>uart_out := y\<rparr>) = cons_ready s"
  by (simp_all add: cons_ready_def cpu_ok_def cur_cpu_def cpu_index_def held_def in_lock_def can_lock_def)

lemma cgaputc_ready:
  assumes "cons_ready s"
  shows "wpe (cgaputc c) nofault (\<lambda>_ u. input u = input s \<and> cons_ready u) s"
proof -
  obtain s' where s': "cgaputc c s = Inr ((), s')" "uint (crt_pos s') < 1920"
    using cursor_step [of s c] assms by (auto simp: cons_ready_def)
  have "\<exists>x y. s' = s\<lparr>crt_pos := x, crt := y\<rparr>"
    using s'(1) by (auto simp: cgaputc_def bnd_def gets_def modify_def sq_def panic_def fail_def cprintf_def
        cprintfa_def Let_def split: prod.splits if_splits)
  then have "input s' = input s \<and> cons_ready s'"
    using assms s'(2) by (auto simp: cons_ready_def cpu_ok_def cur_cpu_def cpu_index_def held_def in_lock_def can_lock_def)
  then show ?thesis using s'(1) by (simp add: wpe_def)
qed

lemma consputc_ready:
  assumes "cons_ready s"
  shows "wpe (consputc c) nofault (\<lambda>_ u. input u = input s \<and> cons_ready u) s"
proof -
  have "\<not> panicked s" using assms by (simp add: cons_ready_def)
  then show ?thesis
    using assms cgaputc_ready
    by (auto simp: consputc_def wpe_bnd wpe_gets wpe_sq uartputc_def wpe_modify intro!: cgaputc_ready [THEN wpe_mono])
qed

lemma wakeup_ready:
  assumes "cons_ready s"
  shows "wpe (wakeup ch) nofault (\<lambda>_ u. input u = input s \<and> cons_ready u) s"
proof -
  let ?b = "bracket LPtable s"
  have c: "can_lock LPtable s" "length (ptable s) = NPROC" "cpu_ok s"
    using assms by (simp_all add: cons_ready_def can_lock_def)
  have f: "kframe s ?b" by (rule kframe_bracket [OF c(1)])
  have "input ?b = input s" "panicked ?b = panicked s" "crt_pos ?b = crt_pos s"
    by (simp_all add: bracket_def acquired_def pushed_def released_def popped_def)
  then show ?thesis
    using wakeup_eq [OF c(1,2), of ch] assms kframe_locks [OF f c(3)] c(2)
    by (simp add: wpe_def cons_ready_def)
qed

text \<open>
  What an edit may do to the ring: it stays well formed, nothing is read, and the bytes of the finished
  lines stay in place; new ones may follow.
\<close>

definition edited :: "input \<Rightarrow> input \<Rightarrow> bool" where
  "edited i j \<longleftrightarrow> input_ok j \<and> in_r j = in_r i \<and> prefix (committed i) (committed j)"

lemma edited_refl: "input_ok i \<Longrightarrow> edited i i"
  by (simp add: edited_def)

lemma edited_trans: "edited i j \<Longrightarrow> edited j k \<Longrightarrow> edited i k"
  by (auto simp: edited_def intro: prefix_order.trans)

lemma edited_rubout:
  assumes "edited i j" "in_e j \<noteq> in_w j"
  shows "edited i (j\<lparr>in_e := in_e j - 1\<rparr>)"
proof -
  let ?w = "in_w j - in_r j" and ?e = "in_e j - in_r j"
  have ok: "?w \<le> ?e" "?e \<le> 128" "length (in_buf j) = 128"
    using assms(1) by (auto simp: edited_def input_ok_def ring_ok_def)
  have "?w \<noteq> ?e" using assms(2) by simp
  then have lt: "unat ?w < unat ?e" using ok(1) by (simp add: word_less_nat_alt [symmetric] word_le_less_eq)
  have e: "in_e j - 1 - in_r j = ?e - 1" by (simp add: algebra_simps)
  have "unat (in_e j - 1 - in_r j) = unat ?e - 1"
    unfolding e using lt unat_sub [of 1 ?e] by (simp add: word_le_nat_alt)
  then have "?w \<le> in_e j - 1 - in_r j" "in_e j - 1 - in_r j \<le> 128"
    using lt ok(2) by (simp_all add: word_le_nat_alt)
  then show ?thesis
    using assms(1) ok(3) by (auto simp: edited_def input_ok_def ring_ok_def committed_def)
qed

lemma edited_type:
  assumes "edited i j" "in_e j - in_r j < INPUT_BUF"
  shows "edited i (type_byte b j)" and "edited i ((type_byte b j)\<lparr>in_w := in_e j + 1\<rparr>)"
proof -
  let ?k = "type_byte b j"
  have ok: "input_ok j" "ring_ok (in_buf j) INPUT_BUF (in_r j) (in_e j)" "in_w j - in_r j \<le> in_e j - in_r j"
    using assms(1) by (auto simp: edited_def input_ok_def)
  have l: "length (typed j) < 128" using assms(2) by (simp add: typed_def word_less_nat_alt)
  have k: "ring_ok (in_buf ?k) INPUT_BUF (in_r ?k) (in_e ?k)" "typed ?k = typed j @ [b]"
    using consq.ok_enq [OF ok(2) l] consq.contents_enq [OF ok(2) l] by simp_all
  have e: "in_e ?k = in_e j + 1" "in_r ?k = in_r j" "in_w ?k = in_w j" by (simp_all add: type_byte_def)
  have e': "in_e j + 1 - in_r j = (in_e j - in_r j) + 1" by (simp add: algebra_simps)
  have "in_e j - in_r j \<le> in_e ?k - in_r ?k"
    unfolding e e' using assms(2) unat_word_ariths(1) [of "in_e j - in_r j" 1]
    by (simp add: word_le_nat_alt word_less_nat_alt)
  then have okk: "input_ok ?k" using k(1) ok(3) e by (simp add: input_ok_def)
  have c: "committed ?k = committed j"
    unfolding committed_take [OF okk] committed_take [OF ok(1)] k(2) e
    using ok(3) by (simp add: typed_def word_le_nat_alt)
  show "edited i ?k" using assms(1) okk c e by (simp add: edited_def)
  let ?m = "?k\<lparr>in_w := in_e j + 1\<rparr>"
  have m: "input_ok ?m" "committed ?m = typed ?k"
    using k(1) e by (simp_all add: input_ok_def committed_def typed_def)
  have "prefix (committed j) (typed ?k)"
    unfolding committed_take [OF ok(1)] k(2) by (simp add: take_is_prefix prefix_prefix)
  then show "edited i ?m" using assms(1) m e by (auto simp: edited_def intro: prefix_order.trans)
qed

lemma kill_line_edits:
  "stable nofault (\<lambda>s. edited i (input s) \<and> cons_ready s) (kill_line k :: ('x consst_scheme, unit) kmon)"
proof (induction k)
  case 0
  then show ?case by (simp add: st)
next
  case (Suc k)
  show ?case
    unfolding stable_def
  proof (intro allI impI)
    fix s :: "'x consst_scheme"
    assume e: "edited i (input s) \<and> cons_ready s"
    let ?s = "s\<lparr>input := (input s)\<lparr>in_e := in_e (input s) - 1\<rparr>\<rparr>"
    have "wpe (sq (consputc BACKSPACE) (kill_line k)) nofault (\<lambda>_ s. edited i (input s) \<and> cons_ready s) ?s"
      if "in_e (input s) \<noteq> in_w (input s)"
      unfolding wpe_sq using e edited_rubout [of i "input s"] that
      by (auto intro!: wpe_mono [OF consputc_ready] wpe_stable [OF Suc])
    then show "wpe (kill_line (Suc k)) nofault (\<lambda>_ s. edited i (input s) \<and> cons_ready s) s"
      using e by (auto simp: wpe_bnd wpe_gets wpe_ret wpe_sq wpe_modify upd_input_def)
  qed
qed

lemma consoleintr_char_edits:
  "stable nofault (\<lambda>s. edited i (input s) \<and> cons_ready s) (consoleintr_char c :: ('x consst_scheme, bool) kmon)"
  unfolding stable_def
proof (intro allI impI)
  fix s :: "'x consst_scheme"
  let ?I = "\<lambda>s :: 'x consst_scheme. edited i (input s) \<and> cons_ready s"
  assume e: "?I s"
  have line: "wpe (bnd (gets input) (\<lambda>i. sq (whenk (b = 10 \<or> b = 4 \<or> in_e i = in_r i + INPUT_BUF)
        (sq (upd_input (\<lambda>i. i\<lparr>in_w := in_e i\<rparr>)) (wakeup ChanInput))) (ret False))) nofault (\<lambda>_. ?I) u"
    if "input u = type_byte a (input s)" "in_e (input s) - in_r (input s) < INPUT_BUF" "cons_ready u" for u a b
    using that edited_type [OF conjunct1 [OF e] that(2)]
    by (auto simp: wp upd_input_def type_byte_def intro!: wpe_mono [OF wakeup_ready])
  have "wpe (kill_line k) nofault (\<lambda>_. ?I) s" for k by (rule wpe_stable [OF kill_line_edits e])
  moreover have "wpe (sq (upd_input (\<lambda>i. i\<lparr>in_e := in_e i - 1\<rparr>)) (consputc BACKSPACE)) nofault (\<lambda>_. ?I) s"
    if "in_e (input s) \<noteq> in_w (input s)"
    using e edited_rubout [OF conjunct1 [OF e] that]
    by (auto simp: wp upd_input_def intro!: wpe_mono [OF consputc_ready])
  moreover have "wpe (sq (upd_input (\<lambda>i. i\<lparr>in_buf := (in_buf i)[unat (in_e i mod INPUT_BUF) := a], in_e := in_e i + 1\<rparr>))
      (sq (consputc b) (bnd (gets input) (\<lambda>i. sq (whenk (b = 10 \<or> b = 4 \<or> in_e i = in_r i + INPUT_BUF)
        (sq (upd_input (\<lambda>i. i\<lparr>in_w := in_e i\<rparr>)) (wakeup ChanInput))) (ret False))))) nofault (\<lambda>_. ?I) s"
    if "in_e (input s) - in_r (input s) < INPUT_BUF" for a b
    unfolding upd_input_def wpe_sq [of "modify f" for f] wpe_modify wpe_sq [of "consputc b"]
    by (rule wpe_mono [OF consputc_ready])
      (use line [OF _ that] e in \<open>auto simp: type_byte_def upd_input_def\<close>)
  ultimately show "wpe (consoleintr_char c) nofault (\<lambda>_. ?I) s"
    using e unfolding consoleintr_char_def by (simp add: wpe_bnd wpe_gets wpe_sq wpe_ret wpe_whenk Let_def)
qed

lemma consoleintr_loop_edits:
  "stable nofault (\<lambda>s. edited i (input s) \<and> cons_ready s) (consoleintr_loop cs d)"
  by (induction cs arbitrary: d) (auto intro!: st consoleintr_char_edits)

lemma procdump_input: "wpe procdump nofault (\<lambda>_ u. input u = input s) s"
  unfolding procdump_def
  by (rule wpe_each [where I = "\<lambda>_ u. input u = input s"])
    (auto simp: wp get_proc_def cprintfa_def cprintf_def rd32_def
      intro!: wpe_each [where I = "\<lambda>_ u. input u = input s"])

text \<open>
  C23: whatever is typed, the input ring of the console stays well formed, and the bytes of the lines that
  have been handed to the readers stay as they are: erasing a character or a line never reaches them,
  and typing only adds to them. The interrupt handler always returns.
\<close>

theorem line_editor_keeps_lines:
  assumes "input_ok (input s)" and "can_lock LCons s" and "can_lock LPtable s"
    and "length (ptable s) = NPROC" and "\<not> panicked s" and "uint (crt_pos s) < 24 * 80"
  shows "\<exists>s'. consoleintr cs s = Inr ((), s') \<and> input_ok (input s') \<and> in_r (input s') = in_r (input s)
    \<and> prefix (committed (input s)) (committed (input s'))"
proof -
  let ?a = "acquired LCons s"
  have a: "input ?a = input s" "panicked ?a = panicked s" "crt_pos ?a = crt_pos s"
    by (simp_all add: acquired_def pushed_def)
  have "edited (input s) (input ?a) \<and> cons_ready ?a"
    using assms a in_lock_acquired [OF assms(2)] can_lock_acquired [OF assms(2,3)]
    by (simp add: edited_refl cons_ready_def)
  from wpe_stable [OF consoleintr_loop_edits this]
  have "wpe (bnd (consoleintr_loop cs False) (\<lambda>d. sq (release LCons) (whenk d procdump))) nofault
      (\<lambda>_ u. edited (input s) (input u)) ?a"
    unfolding wpe_bnd
  proof (rule wpe_mono)
    fix d and u :: "'a consst_scheme"
    assume u: "edited (input s) (input u) \<and> cons_ready u"
    have "input (released LCons u) = input u" by (simp add: released_def popped_def)
    then show "wpe (sq (release LCons) (whenk d procdump)) nofault (\<lambda>_ u. edited (input s) (input u)) u"
      using u by (auto simp: wpe_sq wpe_release cons_ready_def wpe_whenk intro!: wpe_mono [OF procdump_input])
  qed simp
  then show ?thesis
    using wpe_returns assms(2) by (fastforce simp: consoleintr_def run edited_def)
qed

theorem line_editor_keeps_lines_witness:
  "\<exists>s'. consoleintr [108, 115, 8, 13] demo_kernel = Inr ((), s') \<and> input_ok (input s')"
  using line_editor_keeps_lines [OF _ demo_kernel_locks(1) demo_kernel_locks(1), of "[108, 115, 8, 13]"]
  by (simp add: demo_kernel_fields demo_kernel_locks input_ok_def ring_ok_def) (auto simp: demo_kernel_def shmst.defs)

section \<open>Numbers\<close>

definition digit_value :: "char \<Rightarrow> nat" where
  "digit_value c = (if CHR ''a'' \<le> c then of_char c - 87 else of_char c - 48)"

definition read_nat :: "nat \<Rightarrow> string \<Rightarrow> nat" where
  "read_nat base t = foldl (\<lambda>v c. v * base + digit_value c) 0 t"

definition read_int :: "nat \<Rightarrow> string \<Rightarrow> int" where
  "read_int base t = (if t \<noteq> [] \<and> hd t = CHR ''-'' then - int (read_nat base (tl t)) else int (read_nat base t))"

lemma hexdigit_value:
  assumes "d < 16"
  shows "digit_value (hexdigit d) = d" "hexdigit d \<noteq> CHR ''-''"
proof -
  have "\<forall>d < 16. digit_value (hexdigit d) = d \<and> hexdigit d \<noteq> CHR ''-''" by code_simp
  then show "digit_value (hexdigit d) = d" "hexdigit d \<noteq> CHR ''-''" using assms by simp_all
qed

lemma digits_of_unfold:
  fixes x :: u32
  assumes "2 \<le> base"
  shows "digits_of base x = hexdigit (unat x mod base)
      # (if unat x < base then [] else digits_of base (of_nat (unat x div base)))"
    and "unat (of_nat (unat x div base) :: u32) = unat x div base"
proof -
  have "unat x div base = 0 \<longleftrightarrow> unat x < base" using assms by (auto simp: div_eq_0_iff)
  then show "digits_of base x = hexdigit (unat x mod base)
      # (if unat x < base then [] else digits_of base (of_nat (unat x div base)))"
    using assms by (subst digits_of.simps) simp
  have "unat x div base \<le> unat x" by simp
  then have "unat x div base < 4294967296" using unat_lt_2p32 [of x] by linarith
  then show "unat (of_nat (unat x div base) :: u32) = unat x div base" by (simp add: unat_of_nat)
qed

lemma digits_of_value:
  assumes "2 \<le> base" "base \<le> 16"
  shows "foldr (\<lambda>c v. v * base + digit_value c) (digits_of base x) 0 = unat x
    \<and> CHR ''-'' \<notin> set (digits_of base x) \<and> digits_of base x \<noteq> []"
proof (induction "unat x" arbitrary: x rule: less_induct)
  case less
  note D = digits_of_unfold [OF assms(1), of x]
  have d: "unat x mod base < 16" using assms by (meson less_le_trans mod_less_divisor zero_less_numeral order_less_le_trans)
  show ?case
  proof (cases "unat x < base")
    case True
    then show ?thesis using D(1) hexdigit_value [OF d] by auto
  next
    case False
    then have "unat x div base < unat x" using assms(1) by simp
    with less [of "of_nat (unat x div base)"] D(2)
    have "foldr (\<lambda>c v. v * base + digit_value c) (digits_of base (of_nat (unat x div base))) 0 = unat x div base
      \<and> CHR ''-'' \<notin> set (digits_of base (of_nat (unat x div base)))" by simp
    then show ?thesis using D(1) hexdigit_value [OF d] False by auto
  qed
qed

lemma digits_of_length:
  assumes "2 \<le> base" "unat x < base ^ n" "0 < n"
  shows "length (digits_of base x) \<le> n"
  using assms(2,3)
proof (induction n arbitrary: x)
  case (Suc n)
  note D = digits_of_unfold [OF assms(1), of x]
  show ?case
  proof (cases "unat x < base")
    case False
    then have n: "0 < n" using Suc.prems(1) by (cases n) auto
    have "unat x div base < base ^ n" using Suc.prems(1) by (simp add: less_mult_imp_div_less mult.commute)
    then have "length (digits_of base (of_nat (unat x div base))) \<le> n"
      using Suc.IH n D(2) by simp
    then show ?thesis using D(1) False by simp
  qed (use D(1) in simp)
qed simp

lemma uint_lt_2p32: "0 \<le> uint (x :: u32) \<and> uint x < 4294967296"
  using uint_lt2p [of x] by simp

lemma sint_u32: "sint (x :: u32) = (if uint x < 2147483648 then uint x else uint x - 4294967296)"
proof -
  have "bit (uint x) 31 \<longleftrightarrow> \<not> uint x < 2147483648"
  proof -
    have "uint x div 2147483648 \<in> {0, 1}" using uint_lt_2p32 [of x] by auto
    then show ?thesis using uint_lt_2p32 [of x] by (auto simp: bit_iff_odd)
  qed
  moreover have "take_bit 32 (uint x) = uint x" using uint_lt_2p32 [of x] by (simp add: take_bit_int_eq_self)
  ultimately show ?thesis by (simp add: sint_uint signed_take_bit_eq_take_bit_minus)
qed

text \<open>
  C25: a printed number reads back. For the bases 10 and 16, signed or not, the characters that \<open>printint\<close>
  prints denote the value of its argument, the least negative number included, and they fit the buffer
  of 16 characters in which it builds them.
\<close>

theorem printint_reads_back:
  assumes "base \<in> {10, 16}"
  shows "read_int base (printint xx base sign) = (if sign then sint xx else uint xx)
    \<and> length (printint xx base sign) \<le> 16"
proof -
  define neg where "neg = (sign \<and> sint xx < 0)"
  define x where "x = (if neg then - xx else xx)"
  have b: "2 \<le> base" "base \<le> 16" using assms by auto
  have p: "printint xx base sign = (if neg then ''-'' else []) @ rev (digits_of base x)"
    by (simp add: printint_def Let_def neg_def x_def)
  have v: "read_nat base (rev (digits_of base x)) = unat x" "hd (rev (digits_of base x)) \<noteq> CHR ''-''"
    using digits_of_value [OF b, of x] by (auto simp: read_nat_def foldl_conv_foldr) (metis hd_in_set rev_is_Nil_conv set_rev)
  have "unat x < base ^ 10" using unat_lt_2p32 [of x] assms by auto
  then have "length (digits_of base x) \<le> 10" by (rule digits_of_length [OF b(1)]) simp
  moreover have "read_int base (printint xx base sign) = (if neg then - uint x else uint x)"
    using v by (auto simp: p read_int_def)
  moreover have "(if neg then - uint x else uint x) = (if sign then sint xx else uint xx)"
    using sint_u32 [of xx] uint_lt_2p32 [of xx]
    by (auto simp: neg_def x_def uint_word_ariths zmod_zminus1_eq_if split: if_splits)
  ultimately show ?thesis by (simp add: p)
qed

theorem printint_reads_back_witness:
  "read_int 10 (printint 0x80000000 10 True) = - 2147483648 \<and> read_int 16 (printint 0x80000000 16 False) = 2147483648"
  using printint_reads_back [of 10 "0x80000000" True] printint_reads_back [of 16 "0x80000000" False]
    sint_u32 [of "0x80000000"] by simp

end
