(* ===== verification/Bioprops.thy ===== *)
theory Bioprops
  imports Log
begin

text \<open>
  The buffer cache as a cache of the disk: the invariant of its ring of buffers and of what they hold,
  and what \<open>bread\<close>, \<open>bwrite\<close> and \<open>brelse\<close> do to the disk and to the contents a reader sees. The operations
  are considered in a state in which no other thread is inside the kernel: the spin locks are free and
  the only buffers in use are those of the running process.
\<close>

section \<open>A kernel at rest\<close>

definition calm :: "'x procst_scheme \<Rightarrow> nat \<Rightarrow> int \<Rightarrow> bool" where
  "calm s p pid \<longleftrightarrow> (\<forall>l. can_lock l s) \<and> c_proc (cur_cpu s) = Some p \<and> p < length (ptable s)
     \<and> length (ptable s) = NPROC \<and> p_pid (ptable s ! p) = pid"

lemma calm_kframe:
  fixes s t :: "'x procst_scheme"
  assumes "calm s p pid" "kframe s t"
  shows "calm t p pid"
proof -
  have ok: "cpu_ok s" using assms(1) by (simp add: calm_def can_lock_def)
  have "ptable t = ptable s" using assms(2) by (intro more_procs) (simp add: kframe_def)
  then show ?thesis
    using assms(1) kframe_locks(2) [OF assms(2) ok] kframe_cpu(3) [OF assms(2) ok] by (simp add: calm_def)
qed

lemma calm_bracket: "calm s p pid \<Longrightarrow> calm (bracket l s) p pid"
  by (rule calm_kframe) (auto simp: calm_def intro: kframe_bracket)

lemma calm_ptable:
  assumes "calm s p pid"
  shows "calm (s\<lparr>ptable := map (woken ch) (ptable s)\<rparr>) p pid"
  using assms by (simp add: calm_def woken_def)

text \<open>Two critical sections, the inner one on the process table.\<close>

lemma nested_section:
  assumes "calm s p pid" "l \<noteq> LPtable"
  shows "in_lock l (bracket LPtable (acquired l s))" "can_lock LPtable (acquired l s)"
    "calm (released l (bracket LPtable (acquired l s))) p pid"
proof -
  have c: "can_lock l s" "can_lock LPtable s" using assms(1) by (simp_all add: calm_def)
  show a: "can_lock LPtable (acquired l s)" using can_lock_acquired [OF c] assms(2) by simp
  have f: "kframe (acquired l s) (bracket LPtable (acquired l s))" by (rule kframe_bracket [OF a])
  show "in_lock l (bracket LPtable (acquired l s))" "calm (released l (bracket LPtable (acquired l s))) p pid"
    using kframe_section [OF c(1) f] calm_kframe [OF assms(1)] by simp_all
qed

section \<open>Sleep locks\<close>

definition set_sl :: "lockid \<Rightarrow> sleeplock \<Rightarrow> 'x slst_scheme \<Rightarrow> 'x slst_scheme" where
  "set_sl l k s = s\<lparr>sleeplocks := (sleeplocks s)(l := k)\<rparr>"

lemma set_sl_frame [simp]:
  "sleeplocks (set_sl l k s) = (sleeplocks s)(l := k)" "set_sl l k (set_sl l k' s) = set_sl l k s"
  "mem (set_sl l k s) = mem s" "ptable (set_sl l k s) = ptable s" "slst.more (set_sl l k s) = slst.more s"
  "cpu_index (set_sl l k s) = cpu_index s" "cur_cpu (set_sl l k s) = cur_cpu s" "cpu_ok (set_sl l k s) = cpu_ok s"
  "held m (set_sl l k s) = held m s" "in_lock m (set_sl l k s) = in_lock m s" "can_lock m (set_sl l k s) = can_lock m s"
  "released m (set_sl l k s) = set_sl l k (released m s)" "calm (set_sl l k s) p pid = calm s p pid"
  by (simp_all add: set_sl_def cpu_ok_def cur_cpu_def cpu_index_def held_def in_lock_def can_lock_def
      released_def popped_def calm_def)

lemma set_sl_locking [simp]:
  "acquired m (set_sl l k s) = set_sl l k (acquired m s)" "bracket m (set_sl l k s) = set_sl l k (bracket m s)"
  "(set_sl l k s)\<lparr>ptable := x\<rparr> = set_sl l k (s\<lparr>ptable := x\<rparr>)"
proof -
  show a: "acquired m (set_sl l k s) = set_sl l k (acquired m s)"
    by (simp add: set_sl_def acquired_def pushed_def cur_cpu_def cpu_index_def)
  show "bracket m (set_sl l k s) = set_sl l k (bracket m s)" by (simp add: bracket_def a)
qed (simp add: set_sl_def)

lemma sl_locking [simp]:
  "sleeplocks (acquired l s) = sleeplocks s" "sleeplocks (released l s) = sleeplocks s"
  "sleeplocks (bracket l s) = sleeplocks s" "slst.more (acquired l s) = slst.more s"
  "slst.more (released l s) = slst.more s" "slst.more (bracket l s) = slst.more s"
  by (simp_all add: acquired_def pushed_def released_def popped_def bracket_def)

lemma run_sleeplock [run]: "sq (upd_sleeplock l g) n u = n (set_sl l (g (sleeplocks u l)) u)"
  by (simp add: upd_sleeplock_def set_sl_def run)

lemma calm_section:
  assumes "calm s p pid"
  shows "can_lock l s" "in_lock l (acquired l s)" "cpu_ok (acquired l s)" "polled (acquired l s) = acquired l s"
    "c_proc (cur_cpu (acquired l s)) = Some p"
proof -
  show c: "can_lock l s" using assms by (simp add: calm_def)
  show i: "in_lock l (acquired l s)" by (rule in_lock_acquired [OF c])
  then show "cpu_ok (acquired l s)" "polled (acquired l s) = acquired l s" by (simp_all add: in_lock_def polled_id)
  show "c_proc (cur_cpu (acquired l s)) = Some p"
    using assms c by (simp add: calm_def can_lock_def cur_cpu_pushed)
qed

lemma acquiresleep_eq:
  assumes "calm s p pid" "sl_locked (sleeplocks s l) = 0"
  shows "acquiresleep l s = Inr ((), set_sl l ((sleeplocks s l)\<lparr>sl_locked := 1, sl_pid := pid\<rparr>) (bracket l s))"
proof -
  note C = calm_section [OF assms(1), of l]
  let ?a = "acquired l s"
  have p: "polled (set_sl l k ?a) = set_sl l k ?a" for k
    using C(2) by (intro polled_id) (simp_all add: in_lock_def)
  have c: "bnd curproc f (set_sl l k ?a) = f p (set_sl l k ?a)" for k f
    using C(3,5) p by (subst run_curproc [where p = p]) simp_all
  have "release l (set_sl l k ?a) = Inr ((), set_sl l k (bracket l s))" for k
    using C(2) by (simp add: release_eq in_lock_def bracket_def)
  then show ?thesis
    using assms C(1) by (simp add: acquiresleep_def run c calm_def)
qed

lemma holdingsleep_eq:
  assumes "calm s p pid"
  shows "holdingsleep l s
    = Inr (sl_locked (sleeplocks s l) \<noteq> 0 \<and> sl_pid (sleeplocks s l) = pid, bracket l s)"
proof -
  note C = calm_section [OF assms, of l]
  have c: "bnd curproc f (acquired l s) = f p (acquired l s)" for f
    using C(4) by (subst run_curproc [OF C(3,5)]) simp
  have r: "sq (release l) (ret x) (acquired l s) = Inr (x, bracket l s)" for x
    using C(2) by (simp add: run bracket_def ret_def)
  have "bnd curproc (\<lambda>p. bnd (get_proc p) (\<lambda>q. ret (x = p_pid q))) (acquired l s) = Inr (x = pid, acquired l s)" for x
    using assms by (simp add: run c calm_def ret_def)
  then show ?thesis
    using C(1) r by (cases "sl_locked (sleeplocks s l) = 0") (simp_all add: holdingsleep_def run run_step(1))
qed

lemma releasesleep_eq:
  assumes "calm s p pid" "l \<noteq> LPtable"
  shows "releasesleep l s = Inr ((), set_sl l ((sleeplocks s l)\<lparr>sl_locked := 0, sl_pid := 0\<rparr>)
    ((released l (bracket LPtable (acquired l s)))\<lparr>ptable := map (woken (slchan l)) (ptable s)\<rparr>))"
proof -
  note C = calm_section [OF assms(1), of l]
  note N = nested_section [OF assms]
  have "wakeup (slchan l) (set_sl l k (acquired l s))
      = Inr ((), set_sl l k ((bracket LPtable (acquired l s))\<lparr>ptable := map (woken (slchan l)) (ptable s)\<rparr>))" for k
    using wakeup_eq [of "set_sl l k (acquired l s)" "slchan l"] N(2) assms(1) by (simp add: calm_def)
  then show ?thesis
    using C(1) N(1) by (simp add: releasesleep_def run run_step(2) release_eq in_lock_def)
qed

section \<open>The ring of buffers\<close>

fun linked :: "(nat \<Rightarrow> nat) \<Rightarrow> (nat \<Rightarrow> nat) \<Rightarrow> nat list \<Rightarrow> bool" where
  "linked nx pv (a # b # ys) \<longleftrightarrow> nx a = b \<and> pv b = a \<and> linked nx pv (b # ys)"
| "linked nx pv _ \<longleftrightarrow> True"

lemma linked_append: "linked nx pv (us @ a # vs) \<longleftrightarrow> linked nx pv (us @ [a]) \<and> linked nx pv (a # vs)"
proof (induction us)
  case (Cons u us)
  then show ?case by (cases us) auto
qed simp

lemma linked_cong:
  assumes "\<And>a. a \<in> set (butlast ys) \<Longrightarrow> nx' a = nx a" "\<And>a. a \<in> set (tl ys) \<Longrightarrow> pv' a = pv a"
  shows "linked nx' pv' ys = linked nx pv ys"
  using assms
proof (induction ys)
  case (Cons a ys)
  then show ?case by (cases ys) auto
qed simp

text \<open>Taking a node out of the ring, and putting it in behind the head.\<close>

lemma linked_unlink:
  assumes l: "linked nx pv (h # us @ b # vs @ [h])" and d: "distinct (us @ b # vs)" "h \<notin> set (us @ b # vs)"
  shows "linked (nx(pv b := nx b)) (pv(nx b := pv b)) (h # us @ vs @ [h])"
proof -
  obtain A p where A: "h # us = A @ [p]" by (metis append_butlast_last_id list.distinct(1))
  obtain n B where B: "vs @ [h] = n # B" by (cases vs) auto
  have "linked nx pv (A @ p # b # n # B)" using l A B by (metis append.assoc append_Cons append_Nil)
  then have s: "linked nx pv (A @ [p])" "nx p = b" "pv b = p" "nx b = n" "pv n = b" "linked nx pv (n # B)"
    using linked_append [of nx pv A p "b # n # B"] by auto
  have us: "set us = set (tl (A @ [p]))" "set A \<subseteq> insert h (set us)" using A by (cases A; auto)+
  have nb: "set (butlast (n # B)) = set vs" using B by (metis butlast_snoc)
  have "p \<notin> set A" using A d by (cases A) (auto simp: Cons_eq_append_conv)
  have "n \<notin> set (tl (A @ [p]))" using B us d by (cases vs) auto
  with \<open>p \<notin> set A\<close> have 1: "linked (nx(p := n)) (pv(n := p)) (A @ [p])"
    using s(1) by (subst linked_cong [where nx = nx and pv = pv]) auto
  have "p \<notin> set vs" using A d by (cases A) (auto simp: Cons_eq_append_conv)
  moreover have "n \<notin> set B" using B d by (cases vs) auto
  ultimately have 2: "linked (nx(p := n)) (pv(n := p)) (n # B)"
    using s(6) nb by (subst linked_cong [where nx = nx and pv = pv]) auto
  have "h # us @ vs @ [h] = A @ p # n # B" using A B by simp
  then show ?thesis using 1 2 s(3,4) linked_append [of _ _ A p "n # B"] by simp
qed

lemma linked_insert:
  assumes l: "linked nx pv (h # zs @ [h])" and d: "distinct zs" "h \<notin> set zs" "b \<notin> set zs" "b \<noteq> h"
  shows "linked (nx(b := nx h, h := b)) (pv(b := h, nx h := b)) (h # b # zs @ [h])"
proof -
  obtain f C where f: "zs @ [h] = f # C" by (cases zs) auto
  have s: "nx h = f" "linked nx pv (f # C)" using l f by auto
  have nb: "set (butlast (f # C)) = set zs" using f by (metis butlast_snoc)
  have C: "f \<notin> set C" "b \<notin> set C" "f \<noteq> b" using f d by (cases zs; auto)+
  then have "linked (nx(b := f, h := b)) (pv(b := h, f := b)) (f # C)"
    using s(2) nb d by (subst linked_cong [where nx = nx and pv = pv]) auto
  then show ?thesis using f s(1) C d(4) by simp
qed

definition buf_ring :: "buf list \<Rightarrow> nat list \<Rightarrow> bool" where
  "buf_ring bs xs \<longleftrightarrow> length bs = Suc NBUF \<and> distinct xs \<and> set xs = {0..<NBUF}
     \<and> linked (\<lambda>i. b_next (bs ! i)) (\<lambda>i. b_prev (bs ! i)) (NBUF # xs @ [NBUF])"

lemma buf_ring_upd:
  assumes "buf_ring bs xs" "b_next k = b_next (bs ! i)" "b_prev k = b_prev (bs ! i)"
  shows "buf_ring (bs[i := k]) xs"
proof -
  have u: "(\<lambda>j. b_next (bs[i := k] ! j)) = (\<lambda>j. b_next (bs ! j))"
    by (rule ext, cases "i < length bs") (simp_all add: nth_list_update assms(2) list_update_beyond)
  have v: "(\<lambda>j. b_prev (bs[i := k] ! j)) = (\<lambda>j. b_prev (bs ! j))"
    by (rule ext, cases "i < length bs") (simp_all add: nth_list_update assms(3) list_update_beyond)
  show ?thesis using assms(1) unfolding buf_ring_def u v length_list_update .
qed

lemma scan_next:
  assumes "linked (\<lambda>i. b_next (bs ! i)) pv (a # xs @ [NBUF])" "NBUF \<notin> set xs" "length xs < n"
  shows "scan n b_next P bs (b_next (bs ! a)) = Some (find (\<lambda>i. P (bs ! i)) xs)"
  using assms
proof (induction xs arbitrary: a n)
  case Nil
  then show ?case by (cases n) auto
next
  case (Cons x xs)
  then show ?case by (cases n) (auto simp: eq_commute [of NBUF])
qed

lemma scan_prev:
  assumes "linked nx (\<lambda>i. b_prev (bs ! i)) (NBUF # xs @ [a])" "NBUF \<notin> set xs" "length xs < n"
  shows "scan n b_prev P bs (b_prev (bs ! a)) = Some (find (\<lambda>i. P (bs ! i)) (rev xs))"
  using assms
proof (induction xs arbitrary: a n rule: rev_induct)
  case Nil
  then show ?case by (cases n) auto
next
  case (snoc x xs)
  have "linked nx (\<lambda>i. b_prev (bs ! i)) (NBUF # xs @ [x])" "b_prev (bs ! a) = x"
    using snoc.prems(1) linked_append [of nx _ "NBUF # xs" x "[a]"] by auto
  with snoc show ?case by (cases n) (auto simp: eq_commute [of NBUF])
qed

lemma buf_ring_scan:
  assumes "buf_ring bs xs"
  shows "scan (NBUF + 1) b_next P bs (b_next (bs ! NBUF)) = Some (find (\<lambda>i. P (bs ! i)) xs)"
    "scan (NBUF + 1) b_prev P bs (b_prev (bs ! NBUF)) = Some (find (\<lambda>i. P (bs ! i)) (rev xs))"
proof -
  have "length xs = NBUF" using assms distinct_card [of xs] by (simp add: buf_ring_def)
  then show "scan (NBUF + 1) b_next P bs (b_next (bs ! NBUF)) = Some (find (\<lambda>i. P (bs ! i)) xs)"
    "scan (NBUF + 1) b_prev P bs (b_prev (bs ! NBUF)) = Some (find (\<lambda>i. P (bs ! i)) (rev xs))"
    using assms scan_next [of bs _ NBUF xs "NBUF + 1" P] scan_prev [of _ bs xs NBUF "NBUF + 1" P]
    by (auto simp: buf_ring_def)
qed

section \<open>The operations one by one\<close>

text \<open>The part of the state that the buffer cache works on, and the part that extends it.\<close>

definition bview :: "'x biost_scheme
    \<Rightarrow> (lockid \<Rightarrow> sleeplock) \<times> buf list \<times> u8 list list \<times> u32 \<times> (nat \<times> u8 list) list \<times> 'x" where
  "bview s = (sleeplocks s, bcache s, memdisk s, disksize s, disk_writes s, biost.more s)"

lemma bview_locking [simp]:
  "bview (acquired l s) = bview s" "bview (released l s) = bview s" "bview (bracket l s) = bview s"
  by (simp_all add: bview_def acquired_def pushed_def released_def popped_def bracket_def)

lemma bview_fields:
  "bview s = (SL, BC, D, N, W, M) \<longleftrightarrow> sleeplocks s = SL \<and> bcache s = BC \<and> memdisk s = D \<and> disksize s = N
     \<and> disk_writes s = W \<and> biost.more s = M"
  by (simp add: bview_def)

lemma bcache_locking [simp]:
  "bcache (acquired l s) = bcache s" "bcache (released l s) = bcache s" "bcache (bracket l s) = bcache s"
  "memdisk (bracket l s) = memdisk s" "disksize (bracket l s) = disksize s" "disk_writes (bracket l s) = disk_writes s"
  "biost.more (bracket l s) = biost.more s"
  by (simp_all add: acquired_def pushed_def released_def popped_def bracket_def)

lemma bcache_upd_locking [simp]:
  "can_lock l (s\<lparr>bcache := x\<rparr>) = can_lock l s" "in_lock l (s\<lparr>bcache := x\<rparr>) = in_lock l s"
  "released l (s\<lparr>bcache := x\<rparr>) = (released l s)\<lparr>bcache := x\<rparr>" "calm (s\<lparr>bcache := x\<rparr>) p pid = calm s p pid"
  "bracket l (s\<lparr>bcache := x\<rparr>) = (bracket l s)\<lparr>bcache := x\<rparr>"
  "calm (s\<lparr>sleeplocks := w\<rparr>) p pid = calm s p pid"
  "calm (s\<lparr>memdisk := y\<rparr>) p pid = calm s p pid" "calm (s\<lparr>disk_writes := z\<rparr>) p pid = calm s p pid"
  by (simp_all add: calm_def can_lock_def in_lock_def held_def cpu_ok_def cur_cpu_def cpu_index_def released_def
      popped_def bracket_def acquired_def pushed_def)

lemma run_buf [run]:
  "bnd (get_buf i) k s = k (bcache s ! i) s"
  "sq (upd_buf i f) n s = n (s\<lparr>bcache := (bcache s)[i := f (bcache s ! i)]\<rparr>)"
  "upd_buf i f s = Inr ((), s\<lparr>bcache := (bcache s)[i := f (bcache s ! i)]\<rparr>)"
  by (simp_all add: get_buf_def upd_buf_def run modify_def)

definition owns :: "'x slst_scheme \<Rightarrow> nat \<Rightarrow> int \<Rightarrow> bool" where
  "owns s b pid \<longleftrightarrow> sl_locked (sleeplocks s (LBufSleep b)) \<noteq> 0 \<and> sl_pid (sleeplocks s (LBufSleep b)) = pid"

lemma run_holdingsleep:
  assumes "calm s p pid" "owns s b pid"
  shows "bnd (holdingsleep (LBufSleep b)) k s = k True (bracket (LBufSleep b) s)"
  using holdingsleep_eq [OF assms(1), of "LBufSleep b"] assms(2) by (simp add: bnd_def owns_def)

lemma sq_nested: "sq (sq a b) c s = sq a (sq b c) s" "sq (bnd a f) c s = bnd a (\<lambda>x. sq (f x) c) s"
  by (simp_all add: sq_def bnd_def split: sum.splits)

lemma iderw_read:
  fixes s :: "'x biost_scheme"
  assumes "calm s p pid" "owns s b pid" "b < length (bcache s)"
    and "b_flags (bcache s ! b) = 0" "b_dev (bcache s ! b) = 1" "b_blockno (bcache s ! b) < disksize s"
  shows "\<exists>s'. iderw b s = Inr ((), s') \<and> calm s' p pid \<and> bview s' = (sleeplocks s,
    (bcache s)[b := (bcache s ! b)\<lparr>b_data := memdisk s ! unat (b_blockno (bcache s ! b)), b_flags := B_VALID\<rparr>],
    memdisk s, disksize s, disk_writes s, biost.more s)"
  using assms assms(6) [unfolded not_le [symmetric]]
  by (simp add: iderw_def run sq_nested run_holdingsleep [OF assms(1,2)] bview_def calm_bracket)

lemma iderw_write:
  fixes s :: "'x biost_scheme"
  assumes "calm s p pid" "owns s b pid" "b < length (bcache s)"
    and "b_flags (bcache s ! b) = B_VALID OR B_DIRTY" "b_dev (bcache s ! b) = 1"
    and "b_blockno (bcache s ! b) < disksize s"
  defines "k \<equiv> bcache s ! b"
  shows "\<exists>s'. iderw b s = Inr ((), s') \<and> calm s' p pid \<and> bview s' = (sleeplocks s,
    (bcache s)[b := k\<lparr>b_flags := B_VALID\<rparr>], (memdisk s)[unat (b_blockno k) := b_data k], disksize s,
    disk_writes s @ [(unat (b_blockno k), b_data k)], biost.more s)"
  using assms assms(6) [unfolded not_le [symmetric]]
  by (simp add: iderw_def run sq_nested run_holdingsleep [OF assms(1,2)] bview_def calm_bracket)

lemma bwrite_eq:
  fixes s :: "'x biost_scheme"
  assumes "calm s p pid" "owns s b pid" "b < length (bcache s)"
    and "b_flags (bcache s ! b) \<in> {B_VALID, B_VALID OR B_DIRTY}" "b_dev (bcache s ! b) = 1"
    and "b_blockno (bcache s ! b) < disksize s"
  defines "k \<equiv> bcache s ! b"
  shows "\<exists>s'. bwrite b s = Inr ((), s') \<and> calm s' p pid \<and> bview s' = (sleeplocks s,
    (bcache s)[b := k\<lparr>b_flags := B_VALID\<rparr>], (memdisk s)[unat (b_blockno k) := b_data k], disksize s,
    disk_writes s @ [(unat (b_blockno k), b_data k)], biost.more s)"
proof -
  let ?u = "(bracket (LBufSleep b) s)\<lparr>bcache := (bcache s)[b := k\<lparr>b_flags := B_VALID OR B_DIRTY\<rparr>]\<rparr>"
  have u: "calm ?u p pid" "owns ?u b pid" using assms(1,2) by (simp_all add: calm_bracket owns_def)
  have "bwrite b s = iderw b ?u"
    using assms(4) by (auto simp: bwrite_def run run_holdingsleep [OF assms(1,2)] k_def)
  then show ?thesis using iderw_write [OF u] assms(3-6) by (simp add: k_def)
qed

lemma find_unique:
  assumes "b \<in> set xs" "P b" "\<And>c. c \<in> set xs \<Longrightarrow> P c \<Longrightarrow> c = b"
  shows "find P xs = Some b"
proof (cases "find P xs")
  case None
  then show ?thesis using assms(1,2) by (auto simp: find_None_iff)
next
  case (Some c)
  then have "c \<in> set xs" "P c" by (auto simp: find_Some_iff)
  with Some show ?thesis using assms(3) by blast
qed

lemma take_buffer:
  fixes s :: "'x biost_scheme"
  assumes "calm s p pid" "sl_locked (sleeplocks s (LBufSleep b)) = 0"
  shows "\<exists>s'. sq (upd_buf b f) (sq (release LBcache) (sq (acquiresleep (LBufSleep b)) (ret b))) (acquired LBcache s)
      = Inr (b, s') \<and> calm s' p pid
    \<and> bview s' = ((sleeplocks s)(LBufSleep b := (sleeplocks s (LBufSleep b))\<lparr>sl_locked := 1, sl_pid := pid\<rparr>),
        (bcache s)[b := f (bcache s ! b)], memdisk s, disksize s, disk_writes s, biost.more s)"
proof -
  let ?u = "(bracket LBcache s)\<lparr>bcache := (bcache s)[b := f (bcache s ! b)]\<rparr>"
  have u: "calm ?u p pid" "sl_locked (sleeplocks ?u (LBufSleep b)) = 0"
    using assms by (simp_all add: calm_bracket)
  have "in_lock LBcache (acquired LBcache s)" using calm_section(2) [OF assms(1)] .
  then have "sq (upd_buf b f) (sq (release LBcache) (sq (acquiresleep (LBufSleep b)) (ret b))) (acquired LBcache s)
      = sq (acquiresleep (LBufSleep b)) (ret b) ?u"
    by (simp add: run bracket_def)
  also have "\<dots> = Inr (b, set_sl (LBufSleep b) ((sleeplocks s (LBufSleep b))\<lparr>sl_locked := 1, sl_pid := pid\<rparr>)
      (bracket (LBufSleep b) ?u))"
    using acquiresleep_eq [OF u] by (simp add: sq_def bnd_def ret_def)
  finally show ?thesis
    using calm_bracket [OF u(1), of "LBufSleep b"] by (simp add: bview_def set_sl_def)
qed

lemma bget_hit:
  fixes s :: "'x biost_scheme"
  assumes "calm s p pid" "buf_ring (bcache s) xs"
    and "find (\<lambda>i. b_dev (bcache s ! i) = dev \<and> b_blockno (bcache s ! i) = n) xs = Some b"
    and "sl_locked (sleeplocks s (LBufSleep b)) = 0"
  shows "\<exists>s'. bget dev n s = Inr (b, s') \<and> calm s' p pid
    \<and> bview s' = ((sleeplocks s)(LBufSleep b := (sleeplocks s (LBufSleep b))\<lparr>sl_locked := 1, sl_pid := pid\<rparr>),
        (bcache s)[b := (bcache s ! b)\<lparr>b_refcnt := b_refcnt (bcache s ! b) + 1\<rparr>],
        memdisk s, disksize s, disk_writes s, biost.more s)"
proof -
  have "bget dev n s = sq (upd_buf b (\<lambda>k. k\<lparr>b_refcnt := b_refcnt k + 1\<rparr>))
      (sq (release LBcache) (sq (acquiresleep (LBufSleep b)) (ret b))) (acquired LBcache s)"
    unfolding bget_def
    using calm_section(1) [OF assms(1)] buf_ring_scan(1) [OF assms(2), of "\<lambda>b. b_dev b = dev \<and> b_blockno b = n"] assms(3)
    by (simp add: run)
  then show ?thesis
    using take_buffer [OF assms(1,4), of "\<lambda>k. k\<lparr>b_refcnt := b_refcnt k + 1\<rparr>"] by (simp only:)
qed

lemma bget_miss:
  fixes s :: "'x biost_scheme"
  assumes "calm s p pid" "buf_ring (bcache s) xs"
    and "find (\<lambda>i. b_dev (bcache s ! i) = dev \<and> b_blockno (bcache s ! i) = n) xs = None"
    and "find (\<lambda>i. b_refcnt (bcache s ! i) = 0 \<and> b_flags (bcache s ! i) AND B_DIRTY = 0) (rev xs) = Some b"
    and "sl_locked (sleeplocks s (LBufSleep b)) = 0"
  shows "\<exists>s'. bget dev n s = Inr (b, s') \<and> calm s' p pid
    \<and> bview s' = ((sleeplocks s)(LBufSleep b := (sleeplocks s (LBufSleep b))\<lparr>sl_locked := 1, sl_pid := pid\<rparr>),
        (bcache s)[b := (bcache s ! b)\<lparr>b_dev := dev, b_blockno := n, b_flags := 0, b_refcnt := 1\<rparr>],
        memdisk s, disksize s, disk_writes s, biost.more s)"
proof -
  have "bget dev n s = sq (upd_buf b (\<lambda>k. k\<lparr>b_dev := dev, b_blockno := n, b_flags := 0, b_refcnt := 1\<rparr>))
      (sq (release LBcache) (sq (acquiresleep (LBufSleep b)) (ret b))) (acquired LBcache s)"
    unfolding bget_def
    using calm_section(1) [OF assms(1)] buf_ring_scan(1) [OF assms(2), of "\<lambda>b. b_dev b = dev \<and> b_blockno b = n"]
      buf_ring_scan(2) [OF assms(2), of "\<lambda>b. b_refcnt b = 0 \<and> b_flags b AND B_DIRTY = 0"] assms(3,4)
    by (simp add: run)
  then show ?thesis
    using take_buffer [OF assms(1,5), of "\<lambda>k. k\<lparr>b_dev := dev, b_blockno := n, b_flags := 0, b_refcnt := 1\<rparr>"]
    by (simp only:)
qed

text \<open>The relinking at the end of \<open>brelse\<close>.\<close>

definition moved :: "buf list \<Rightarrow> nat \<Rightarrow> buf list" where
  "moved bs b =
     (let n = b_next (bs ! b); q = b_prev (bs ! b);
          bs = bs[n := (bs ! n)\<lparr>b_prev := q\<rparr>];
          bs = bs[q := (bs ! q)\<lparr>b_next := n\<rparr>];
          f = b_next (bs ! NBUF);
          bs = bs[b := (bs ! b)\<lparr>b_next := f, b_prev := NBUF\<rparr>];
          bs = bs[f := (bs ! f)\<lparr>b_prev := b\<rparr>]
      in bs[NBUF := (bs ! NBUF)\<lparr>b_next := b\<rparr>])"

lemma links_upd:
  assumes "i < length bs"
  shows "(\<lambda>j. b_next (bs[i := (bs ! i)\<lparr>b_next := v\<rparr>] ! j)) = (\<lambda>j. b_next (bs ! j))(i := v)"
    "(\<lambda>j. b_prev (bs[i := (bs ! i)\<lparr>b_next := v\<rparr>] ! j)) = (\<lambda>j. b_prev (bs ! j))"
    "(\<lambda>j. b_next (bs[i := (bs ! i)\<lparr>b_prev := v\<rparr>] ! j)) = (\<lambda>j. b_next (bs ! j))"
    "(\<lambda>j. b_prev (bs[i := (bs ! i)\<lparr>b_prev := v\<rparr>] ! j)) = (\<lambda>j. b_prev (bs ! j))(i := v)"
    "(\<lambda>j. b_next (bs[i := (bs ! i)\<lparr>b_next := v, b_prev := w\<rparr>] ! j)) = (\<lambda>j. b_next (bs ! j))(i := v)"
    "(\<lambda>j. b_prev (bs[i := (bs ! i)\<lparr>b_next := v, b_prev := w\<rparr>] ! j)) = (\<lambda>j. b_prev (bs ! j))(i := w)"
  using assms by (auto simp: fun_eq_iff nth_list_update)

lemma linked_in_ring:
  assumes "linked nx pv (h # xs @ [h])" "b \<in> set xs"
  shows "nx b \<in> insert h (set xs)" "pv b \<in> insert h (set xs)" "nx h \<in> insert h (set xs)"
proof -
  obtain us vs where xs: "xs = us @ b # vs" using split_list [OF assms(2)] by blast
  obtain A q where A: "h # us = A @ [q]" by (metis append_butlast_last_id list.distinct(1))
  obtain n B where B: "vs @ [h] = n # B" by (cases vs) auto
  have "linked nx pv (A @ q # b # n # B)" using assms(1) A B xs by (metis append.assoc append_Cons append_Nil)
  then have s: "pv b = q" "nx b = n" using linked_append [of nx pv A q "b # n # B"] by auto
  have "q \<in> set (h # us)" "n \<in> set (vs @ [h])" unfolding A B by simp_all
  then show "nx b \<in> insert h (set xs)" "pv b \<in> insert h (set xs)" using s xs by auto
  show "nx h \<in> insert h (set xs)" using assms(1) xs by (cases us) auto
qed

lemma moved_ring:
  assumes r: "buf_ring bs xs" and b: "b < NBUF"
  shows "buf_ring (moved bs b) (b # remove1 b xs)"
proof -
  let ?nx = "\<lambda>i. b_next (bs ! i)" and ?pv = "\<lambda>i. b_prev (bs ! i)"
  have len: "length bs = Suc NBUF" and d: "distinct xs" "set xs = {0..<NBUF}"
    and l: "linked ?nx ?pv (NBUF # xs @ [NBUF])" using r by (auto simp: buf_ring_def)
  have bx: "b \<in> set xs" using b d(2) by simp
  obtain us vs where xs: "xs = us @ b # vs" using split_list [OF bx] by blast
  have rm: "remove1 b xs = us @ vs" using d(1) xs by (simp add: remove1_append)
  let ?nx1 = "?nx(?pv b := ?nx b)" and ?pv1 = "?pv(?nx b := ?pv b)"
  have nb: "NBUF \<notin> set xs" using d(2) by simp
  have l1: "linked ?nx1 ?pv1 (NBUF # (us @ vs) @ [NBUF])"
    using linked_unlink [of ?nx ?pv NBUF us b vs] l d(1) nb xs by simp
  have in1: "?nx b < length bs" "?pv b < length bs"
    using linked_in_ring(1,2) [OF l bx] d(2) len by auto
  have "?nx1 NBUF \<in> insert NBUF (set (us @ vs))" using l1 by (cases "us @ vs") auto
  moreover have "set (us @ vs) \<subseteq> {0..<NBUF}" using d(2) xs by auto
  ultimately have in2: "?nx1 NBUF < length bs" using len by (auto simp del: fun_upd_apply dest: subsetD)
  have l2: "linked (?nx1(b := ?nx1 NBUF, NBUF := b)) (?pv1(b := NBUF, ?nx1 NBUF := b)) (NBUF # b # (us @ vs) @ [NBUF])"
    using linked_insert [OF l1, of b] d(1) nb b xs by simp
  define b1 where "b1 = bs[?nx b := (bs ! ?nx b)\<lparr>b_prev := ?pv b\<rparr>]"
  define b2 where "b2 = b1[?pv b := (b1 ! ?pv b)\<lparr>b_next := ?nx b\<rparr>]"
  define b3 where "b3 = b2[b := (b2 ! b)\<lparr>b_next := b_next (b2 ! NBUF), b_prev := NBUF\<rparr>]"
  define b4 where "b4 = b3[b_next (b2 ! NBUF) := (b3 ! b_next (b2 ! NBUF))\<lparr>b_prev := b\<rparr>]"
  have m: "moved bs b = b4[NBUF := (b4 ! NBUF)\<lparr>b_next := b\<rparr>]"
    unfolding moved_def Let_def b4_def b3_def b2_def b1_def ..
  have lens: "length b1 = 31" "length b2 = 31" "length b3 = 31" "length b4 = 31"
    using len by (simp_all add: b1_def b2_def b3_def b4_def)
  have n1: "(\<lambda>j. b_next (b2 ! j)) = ?nx1" "(\<lambda>j. b_prev (b2 ! j)) = ?pv1"
    using in1 len links_upd(1,2) [of "?pv b" b1 "?nx b"] links_upd(3,4) [of "?nx b" bs "?pv b"] lens
    by (simp_all add: b2_def b1_def)
  have f: "b_next (b2 ! NBUF) = ?nx1 NBUF" using fun_cong [OF n1(1), of NBUF] .
  have bb: "b < length b2" "?nx1 NBUF < length b3" "NBUF < length b4" using b in2 len lens by simp_all
  have n2: "(\<lambda>j. b_next (b3 ! j)) = ?nx1(b := ?nx1 NBUF)" "(\<lambda>j. b_prev (b3 ! j)) = ?pv1(b := NBUF)"
    unfolding b3_def by (simp_all only: links_upd(5,6) [OF bb(1)] n1 f)
  have n3: "(\<lambda>j. b_next (b4 ! j)) = ?nx1(b := ?nx1 NBUF)" "(\<lambda>j. b_prev (b4 ! j)) = ?pv1(b := NBUF, ?nx1 NBUF := b)"
    unfolding b4_def by (simp_all only: f links_upd(3,4) [OF bb(2)] n2)
  have "(\<lambda>j. b_next (moved bs b ! j)) = ?nx1(b := ?nx1 NBUF, NBUF := b)"
    "(\<lambda>j. b_prev (moved bs b ! j)) = ?pv1(b := NBUF, ?nx1 NBUF := b)"
    unfolding m by (simp_all only: links_upd(1,2) [OF bb(3)] n3)
  moreover have "length (moved bs b) = Suc NBUF" "distinct (b # us @ vs)" "set (b # us @ vs) = {0..<NBUF}"
    using m lens(4) d xs by auto
  ultimately show ?thesis
    unfolding buf_ring_def rm using l2 by (simp only: append_Cons append.assoc simp_thms)
qed

definition plain :: "buf \<Rightarrow> u32 \<times> u32 \<times> u32 \<times> u32 \<times> u8 list" where
  "plain k = (b_flags k, b_dev k, b_blockno k, b_refcnt k, b_data k)"

lemma plain_upd: "plain k = plain (cs ! i) \<Longrightarrow> map plain (cs[i := k]) = map plain cs"
  by (cases "i < length cs") (simp add: map_update list_update_same_conv, simp add: list_update_beyond del: map_update)

lemma moved_plain: "map plain (moved bs b) = map plain bs"
proof -
  have "plain (k\<lparr>b_prev := v\<rparr>) = plain k" "plain (k\<lparr>b_next := v\<rparr>) = plain k"
    "plain (k\<lparr>b_next := v, b_prev := w\<rparr>) = plain k" for k v w
    by (simp_all add: plain_def)
  then show ?thesis by (simp add: moved_def Let_def plain_upd)
qed

lemma moved_fields:
  assumes "i < length bs"
  shows "b_flags (moved bs b ! i) = b_flags (bs ! i)" "b_dev (moved bs b ! i) = b_dev (bs ! i)"
    "b_blockno (moved bs b ! i) = b_blockno (bs ! i)" "b_refcnt (moved bs b ! i) = b_refcnt (bs ! i)"
    "b_data (moved bs b ! i) = b_data (bs ! i)"
proof -
  have "length (moved bs b) = length bs" by (simp add: moved_def Let_def)
  then have "plain (moved bs b ! i) = plain (bs ! i)"
    using arg_cong [OF moved_plain, of "\<lambda>xs. xs ! i" bs b] assms by simp
  then show "b_flags (moved bs b ! i) = b_flags (bs ! i)" "b_dev (moved bs b ! i) = b_dev (bs ! i)"
    "b_blockno (moved bs b ! i) = b_blockno (bs ! i)" "b_refcnt (moved bs b ! i) = b_refcnt (bs ! i)"
    "b_data (moved bs b ! i) = b_data (bs ! i)"
    by (simp_all add: plain_def)
qed

lemma relink_eq:
  fixes u :: "'x biost_scheme"
  shows "sq (upd_buf (b_next (bcache u ! b)) (\<lambda>n. n\<lparr>b_prev := b_prev (bcache u ! b)\<rparr>))
      (sq (upd_buf (b_prev (bcache u ! b)) (\<lambda>k. k\<lparr>b_next := b_next (bcache u ! b)\<rparr>)) (insert_front b)) u
    = Inr ((), u\<lparr>bcache := moved (bcache u) b\<rparr>)"
  by (simp add: run insert_front_def moved_def Let_def del: nth_list_update_eq nth_list_update_neq)

lemma bview_upd [simp]:
  "bview (s\<lparr>ptable := x\<rparr>) = bview s"
  "bview (set_sl l k s) = ((sleeplocks s)(l := k), bcache s, memdisk s, disksize s, disk_writes s, biost.more s)"
  by (simp_all add: bview_def set_sl_def)

lemma releasesleep_view:
  fixes s :: "'x biost_scheme"
  assumes "calm s p pid"
  shows "\<exists>u. releasesleep (LBufSleep b) s = Inr ((), u) \<and> calm u p pid \<and> bcache u = bcache s
    \<and> bview u = ((sleeplocks s)(LBufSleep b := (sleeplocks s (LBufSleep b))\<lparr>sl_locked := 0, sl_pid := 0\<rparr>),
        bcache s, memdisk s, disksize s, disk_writes s, biost.more s)"
proof -
  let ?l = "LBufSleep b"
  define r where "r = released ?l (bracket LPtable (acquired ?l s))"
  have v: "bview r = bview s" by (simp add: r_def)
  have f: "sleeplocks r = sleeplocks s" "bcache r = bcache s" "memdisk r = memdisk s" "disksize r = disksize s"
    "disk_writes r = disk_writes s" "biost.more r = biost.more s"
    using v by (simp_all add: bview_def)
  have pt: "ptable r = ptable s"
    by (simp add: r_def released_def popped_def bracket_def acquired_def pushed_def)
  have "calm r p pid" unfolding r_def by (rule nested_section(3) [OF assms]) simp
  from calm_ptable [OF this, of "slchan ?l"] show ?thesis
    using releasesleep_eq [OF assms, of ?l] by (simp add: r_def [symmetric] pt f bview_def set_sl_def)
qed

lemma brelse_eq:
  fixes s :: "'x biost_scheme"
  assumes "calm s p pid" "owns s b pid" "b < length (bcache s)" "b_refcnt (bcache s ! b) = 1"
  shows "\<exists>s'. brelse b s = Inr ((), s') \<and> calm s' p pid
    \<and> bview s' = ((sleeplocks s)(LBufSleep b := (sleeplocks s (LBufSleep b))\<lparr>sl_locked := 0, sl_pid := 0\<rparr>),
        moved ((bcache s)[b := (bcache s ! b)\<lparr>b_refcnt := 0\<rparr>]) b, memdisk s, disksize s, disk_writes s, biost.more s)"
proof -
  let ?l = "LBufSleep b" and ?bs = "(bcache s)[b := (bcache s ! b)\<lparr>b_refcnt := 0\<rparr>]"
  let ?c = "bracket ?l s"
  have c: "calm ?c p pid" using calm_bracket [OF assms(1)] .
  obtain u where u: "releasesleep ?l ?c = Inr ((), u)" "calm u p pid" "bcache u = bcache s"
    "bview u = ((sleeplocks s)(?l := (sleeplocks s ?l)\<lparr>sl_locked := 0, sl_pid := 0\<rparr>),
        bcache s, memdisk s, disksize s, disk_writes s, biost.more s)"
    using releasesleep_view [OF c, of b] by auto
  have a: "in_lock LBcache (acquired LBcache u)" "can_lock LBcache u" using calm_section [OF u(2)] by auto
  let ?v = "(acquired LBcache u)\<lparr>bcache := ?bs\<rparr>"
  have k: "?bs ! b = (bcache s ! b)\<lparr>b_refcnt := 0\<rparr>" using assms(3) by simp
  have "brelse b s = sq (sq (upd_buf (b_next (?bs ! b)) (\<lambda>n. n\<lparr>b_prev := b_prev (?bs ! b)\<rparr>))
      (sq (upd_buf (b_prev (?bs ! b)) (\<lambda>k. k\<lparr>b_next := b_next (?bs ! b)\<rparr>)) (insert_front b))) (release LBcache) ?v"
    unfolding brelse_def run_holdingsleep [OF assms(1,2)] k using assms(3,4) u(3) a
    by (simp add: run run_step(2) [of "releasesleep ?l", OF u(1)] whenk_def)
  also have "\<dots> = release LBcache (?v\<lparr>bcache := moved ?bs b\<rparr>)"
    using relink_eq [of ?v b] by (simp add: run_step(2))
  also have "\<dots> = Inr ((), (bracket LBcache u)\<lparr>bcache := moved ?bs b\<rparr>)"
    using run_locking(2) [of LBcache "?v\<lparr>bcache := moved ?bs b\<rparr>" "ret ()"] a(1)
    by (simp add: release_eq in_lock_def held_def cpu_ok_def cur_cpu_def cpu_index_def bracket_def)
  finally have "brelse b s = Inr ((), (bracket LBcache u)\<lparr>bcache := moved ?bs b\<rparr>)" .
  then show ?thesis using u(2,4) by (simp add: calm_bracket bview_def)
qed

end
