(* ===== verification/Spec2Isabelle.thy ===== *)
theory Spec2Isabelle
  imports Trap Shmprops Pipeprops Consprops Bioprops
begin

text \<open>
  Verification library for the xv6 kernel with System V style shared memory.
\<close>

end
